(* ===== verification/Fat_Prelude.thy ===== *)
theory Fat_Prelude
  imports Main "HOL-Library.Word"
begin

unbundle bit_operations_syntax

text \<open>
  Shared vocabulary of the development: Rust's machine integers, panics as values, checked
  arithmetic, slices and slice copies, the iterator adaptors the sources use
  (\<^verbatim>\<open>chunks_exact\<close>, \<^verbatim>\<open>enumerate().find(..).map(|(i, _)| i)\<close>), and the little-endian
  codecs of \<^verbatim>\<open>u16\<close> and \<^verbatim>\<open>u32\<close>.

  A \<^verbatim>\<open>u8\<close>, \<^verbatim>\<open>u16\<close> or \<^verbatim>\<open>u32\<close> is a word of that width.  A \<^verbatim>\<open>usize\<close> is a natural number.  In
  the file system every \<^verbatim>\<open>usize\<close> is a \<^verbatim>\<open>u32\<close> cast up, an index into a buffer, or the sum of
  two of those, so it stays far below \<open>2 ^ 64\<close>; the allocators, where addresses may wrap, write
  the bound out.  The arithmetic is that of the \<^verbatim>\<open>dev\<close> profile (no profile in
  \<^verbatim>\<open>Cargo.toml\<close> overrides it): an overflow, an underflow and a division by zero panic.
\<close>

section \<open>Machine integers and panics\<close>

type_synonym u8 = "8 word"
type_synonym u16 = "16 word"
type_synonym u32 = "32 word"

text \<open>
  The ways the sources can panic.  \<open>ExplicitPanic\<close> is a \<^verbatim>\<open>panic!\<close> or an \<^verbatim>\<open>expect\<close> with its
  message, \<open>UnwrapNone\<close> an \<^verbatim>\<open>unwrap\<close> of nothing, \<open>AssertFailed\<close> a failed \<^verbatim>\<open>assert!\<close>.
\<close>

datatype panic =
    ArithOverflow
  | DivisionByZero
  | OutOfBounds
  | UnwrapNone
  | AssertFailed
  | ExplicitPanic string

text \<open>A computation either returns or panics; the kernel's panic handler never resumes.\<close>

datatype 'a run = Val (the_val: 'a) | Panic panic

primrec rbind :: "'a run \<Rightarrow> ('a \<Rightarrow> 'b run) \<Rightarrow> 'b run" where
  "rbind (Val x) f = f x"
| "rbind (Panic p) f = Panic p"

definition returns :: "'a run \<Rightarrow> bool" where
  "returns r \<longleftrightarrow> (case r of Val _ \<Rightarrow> True | Panic _ \<Rightarrow> False)"

named_theorems run_simps
named_theorems byte_simps
named_theorems vol_simps

lemma rbind_cong [fundef_cong]:
  "m = m' \<Longrightarrow> (\<And>x. m' = Val x \<Longrightarrow> f x = g x) \<Longrightarrow> rbind m f = rbind m' g"
  by (cases m') auto

lemma rbind_Val_iff [run_simps]:
  "rbind m f = Val y \<longleftrightarrow> (\<exists>x. m = Val x \<and> f x = Val y)"
  by (cases m) auto

lemma rbind_assoc: "rbind (rbind m f) g = rbind m (\<lambda>x. rbind (f x) g)"
  by (cases m) auto

lemma returns_Val [simp]: "returns (Val x)"
  and returns_Panic [simp]: "\<not> returns (Panic p)"
  by (simp_all add: returns_def)

lemma returns_iff: "returns r \<longleftrightarrow> (\<exists>x. r = Val x)"
  by (cases r) auto

section \<open>Checked arithmetic\<close>

definition u32_add :: "u32 \<Rightarrow> u32 \<Rightarrow> u32 run" where
  "u32_add a b = (if uint a + uint b < 0x100000000 then Val (a + b) else Panic ArithOverflow)"

definition u32_sub :: "u32 \<Rightarrow> u32 \<Rightarrow> u32 run" where
  "u32_sub a b = (if b \<le> a then Val (a - b) else Panic ArithOverflow)"

definition u32_mul :: "u32 \<Rightarrow> u32 \<Rightarrow> u32 run" where
  "u32_mul a b = (if uint a * uint b < 0x100000000 then Val (a * b) else Panic ArithOverflow)"

definition u32_div :: "u32 \<Rightarrow> u32 \<Rightarrow> u32 run" where
  "u32_div a b = (if b = 0 then Panic DivisionByZero else Val (a div b))"

definition u32_mod :: "u32 \<Rightarrow> u32 \<Rightarrow> u32 run" where
  "u32_mod a b = (if b = 0 then Panic DivisionByZero else Val (a mod b))"

definition usize_mod :: "nat \<Rightarrow> nat \<Rightarrow> nat run" where
  "usize_mod a b = (if b = 0 then Panic DivisionByZero else Val (a mod b))"

lemma u32_add_Val [run_simps]:
  "u32_add a b = Val c \<longleftrightarrow> unat a + unat b < 2 ^ 32 \<and> c = a + b"
  using of_nat_less_iff [of "unat a + unat b" "2 ^ 32", where ?'a = int]
  by (auto simp: u32_add_def)

lemma u32_sub_Val [run_simps]: "u32_sub a b = Val c \<longleftrightarrow> b \<le> a \<and> c = a - b"
  by (auto simp: u32_sub_def)

lemma u32_mul_Val [run_simps]:
  "u32_mul a b = Val c \<longleftrightarrow> unat a * unat b < 2 ^ 32 \<and> c = a * b"
  using of_nat_less_iff [of "unat a * unat b" "2 ^ 32", where ?'a = int]
  by (auto simp: u32_mul_def)

lemma u32_div_Val [run_simps]: "u32_div a b = Val c \<longleftrightarrow> b \<noteq> 0 \<and> c = a div b"
  by (auto simp: u32_div_def)

lemma u32_mod_Val [run_simps]: "u32_mod a b = Val c \<longleftrightarrow> b \<noteq> 0 \<and> c = a mod b"
  by (auto simp: u32_mod_def)

lemma unat_u32_add: "unat a + unat b < 2 ^ 32 \<Longrightarrow> unat (a + b) = unat a + unat b" for a b :: u32
  by (simp add: unat_word_ariths)

lemma unat_u32_mul: "unat a * unat b < 2 ^ 32 \<Longrightarrow> unat (a * b) = unat a * unat b" for a b :: u32
  by (simp add: unat_word_ariths)

lemma unat_u32_sub: "b \<le> a \<Longrightarrow> unat (a - b) = unat a - unat b" for a b :: u32
  by (simp add: unat_sub)

lemma unat_u32_bound [simp]: "unat a < 4294967296" for a :: u32
  using unsigned_less [of a] by simp

lemma unat_u8_bound [simp]: "unat a < 256" for a :: u8
  using unsigned_less [of a] by simp

lemma unat_u16_bound [simp]: "unat a < 65536" for a :: u16
  using unsigned_less [of a] by simp

lemma unat_u32_of_nat: "n < 2 ^ 32 \<Longrightarrow> unat (of_nat n :: u32) = n"
  by (simp add: unat_of_nat take_bit_nat_eq_self_iff)

lemma word_of_nat_unat_eq: "unat w = n \<Longrightarrow> w = of_nat n" for w :: u32
  by auto

section \<open>Slices and slice copies\<close>

text \<open>The bytes \<open>off .. off + n\<close> of a buffer, without the bounds check.\<close>

definition sub_list :: "'a list \<Rightarrow> nat \<Rightarrow> nat \<Rightarrow> 'a list" where
  "sub_list d off n = take n (drop off d)"

text \<open>\<^verbatim>\<open>d[a..b]\<close>: panics unless \<open>a \<le> b \<le> len\<close>.\<close>

definition slice :: "'a list \<Rightarrow> nat \<Rightarrow> nat \<Rightarrow> 'a list run" where
  "slice d a b = (if a \<le> b \<and> b \<le> length d then Val (sub_list d a (b - a)) else Panic OutOfBounds)"

text \<open>\<^verbatim>\<open>d[i]\<close>: panics out of range.\<close>

definition index :: "'a list \<Rightarrow> nat \<Rightarrow> 'a run" where
  "index d i = (if i < length d then Val (d ! i) else Panic OutOfBounds)"

text \<open>Overwriting the bytes from \<open>off\<close> on, and \<^verbatim>\<open>d[off..off + xs.len()].copy_from_slice(xs)\<close>.\<close>

definition blit :: "'a list \<Rightarrow> nat \<Rightarrow> 'a list \<Rightarrow> 'a list" where
  "blit d off xs = take off d @ xs @ drop (off + length xs) d"

definition copy_from_slice :: "'a list \<Rightarrow> nat \<Rightarrow> 'a list \<Rightarrow> 'a list run" where
  "copy_from_slice d off xs =
     (if off + length xs \<le> length d then Val (blit d off xs) else Panic OutOfBounds)"

lemma slice_Val [run_simps]:
  "slice d a b = Val s \<longleftrightarrow> a \<le> b \<and> b \<le> length d \<and> s = sub_list d a (b - a)"
  by (auto simp: slice_def)

lemma index_Val [run_simps]: "index d i = Val x \<longleftrightarrow> i < length d \<and> x = d ! i"
  by (auto simp: index_def)

lemma copy_from_slice_Val [run_simps]:
  "copy_from_slice d off xs = Val d' \<longleftrightarrow> off + length xs \<le> length d \<and> d' = blit d off xs"
  by (auto simp: copy_from_slice_def)

lemma length_sub_list [byte_simps]: "off + n \<le> length d \<Longrightarrow> length (sub_list d off n) = n"
  by (simp add: sub_list_def)

lemma nth_sub_list [byte_simps]:
  "off + n \<le> length d \<Longrightarrow> i < n \<Longrightarrow> sub_list d off n ! i = d ! (off + i)"
  by (simp add: sub_list_def)

lemma length_blit [simp]: "off + length xs \<le> length d \<Longrightarrow> length (blit d off xs) = length d"
  by (simp add: blit_def)

lemma nth_blit [byte_simps]:
  "off + length xs \<le> length d \<Longrightarrow> i < length d \<Longrightarrow>
   blit d off xs ! i = (if off \<le> i \<and> i < off + length xs then xs ! (i - off) else d ! i)"
  by (auto simp: blit_def nth_append min_def)

lemma sub_list_all [simp]: "sub_list d 0 (length d) = d"
  by (simp add: sub_list_def)

lemma sub_list_0 [simp]: "sub_list d off 0 = []"
  by (simp add: sub_list_def)

lemma sub_list_blit_same [byte_simps]:
  "off + length xs \<le> length d \<Longrightarrow> sub_list (blit d off xs) off (length xs) = xs"
  by (simp add: sub_list_def blit_def)

lemma sub_list_blit_other [byte_simps]:
  assumes "off + length xs \<le> length d" and "o' + n \<le> off \<or> off + length xs \<le> o'"
  shows "sub_list (blit d off xs) o' n = sub_list d o' n"
proof (rule nth_equalityI)
  show "length (sub_list (blit d off xs) o' n) = length (sub_list d o' n)"
    using assms(1) by (simp add: sub_list_def)
next
  fix i assume "i < length (sub_list (blit d off xs) o' n)"
  with assms(1) have i: "i < n" "o' + i < length d"
    by (auto simp: sub_list_def)
  with assms show "sub_list (blit d off xs) o' n ! i = sub_list d o' n ! i"
    by (auto simp: sub_list_def nth_blit)
qed

lemma sub_list_blit_inside [byte_simps]:
  assumes "off + n \<le> length d" and "k + length xs \<le> n"
  shows "sub_list (blit d (off + k) xs) off n = blit (sub_list d off n) k xs"
proof (rule nth_equalityI)
  show "length (sub_list (blit d (off + k) xs) off n) = length (blit (sub_list d off n) k xs)"
    using assms by (simp add: length_sub_list)
next
  fix i assume "i < length (sub_list (blit d (off + k) xs) off n)"
  with assms have "i < n" by (simp add: length_sub_list)
  with assms show "sub_list (blit d (off + k) xs) off n ! i = blit (sub_list d off n) k xs ! i"
    by (auto simp: nth_sub_list nth_blit length_sub_list)
qed

lemma sub_list_sub_list [byte_simps]:
  "k + m \<le> n \<Longrightarrow> sub_list (sub_list d off n) k m = sub_list d (off + k) m"
  by (simp add: sub_list_def drop_take add.commute min_def)

lemma sub_list_append: "sub_list d off (m + n) = sub_list d off m @ sub_list d (off + m) n"
  by (simp add: sub_list_def take_add add.commute)

section \<open>Iterator adaptors\<close>

text \<open>\<^verbatim>\<open>chunks_exact(n)\<close>: consecutive chunks of \<open>n\<close> elements, the shorter rest dropped.\<close>

function chunks_exact :: "nat \<Rightarrow> 'a list \<Rightarrow> 'a list list" where
  "chunks_exact n xs =
     (if n = 0 \<or> length xs < n then [] else take n xs # chunks_exact n (drop n xs))"
  by pat_completeness auto
termination
  by (relation "measure (\<lambda>(n, xs). length xs)") auto

declare chunks_exact.simps [simp del]

lemma length_chunks_exact [byte_simps]: "0 < n \<Longrightarrow> length (chunks_exact n xs) = length xs div n"
proof (induction n xs rule: chunks_exact.induct)
  case (1 n xs)
  then show ?case
    by (auto simp: chunks_exact.simps [of n xs] le_div_geq not_less)
qed

lemma nth_chunks_exact [byte_simps]:
  "0 < n \<Longrightarrow> i < length xs div n \<Longrightarrow> chunks_exact n xs ! i = sub_list xs (i * n) n"
proof (induction n xs arbitrary: i rule: chunks_exact.induct)
  case (1 n xs)
  from "1.prems" have len: "\<not> length xs < n" by auto
  show ?case
  proof (cases i)
    case 0
    with "1.prems" len show ?thesis by (simp add: chunks_exact.simps [of n xs] sub_list_def)
  next
    case (Suc j)
    with "1.prems" len have "j < length (drop n xs) div n" by (simp add: le_div_geq)
    with "1.IH" [of j] "1.prems" len Suc show ?thesis
      by (simp add: chunks_exact.simps [of n xs] sub_list_def add.commute)
  qed
qed

lemma chunk_bound: "0 < n \<Longrightarrow> i < m div n \<Longrightarrow> i * n + n \<le> m" for n i m :: nat
  using less_eq_div_iff_mult_less_eq [of n "Suc i" m] by simp

lemma length_chunk: "0 < n \<Longrightarrow> c \<in> set (chunks_exact n xs) \<Longrightarrow> length c = n"
  by (auto simp: in_set_conv_nth nth_chunks_exact length_chunks_exact length_sub_list chunk_bound)

text \<open>\<^verbatim>\<open>iter().enumerate().find(|(_, x)| p(x)).map(|(i, _)| i)\<close>.\<close>

primrec find_index :: "('a \<Rightarrow> bool) \<Rightarrow> 'a list \<Rightarrow> nat option" where
  "find_index p [] = None"
| "find_index p (x # xs) = (if p x then Some 0 else map_option Suc (find_index p xs))"

lemma find_index_Some:
  "find_index p xs = Some i \<longleftrightarrow> i < length xs \<and> p (xs ! i) \<and> (\<forall>j < i. \<not> p (xs ! j))"
proof (induction xs arbitrary: i)
  case Nil
  then show ?case by simp
next
  case (Cons x xs)
  show ?case
    by (cases i) (auto simp: Cons.IH All_less_Suc2)
qed

lemma find_index_None: "find_index p xs = None \<longleftrightarrow> (\<forall>x \<in> set xs. \<not> p x)"
  by (induction xs) auto

section \<open>Little-endian integers\<close>

definition u16_from_le_bytes :: "u8 list \<Rightarrow> u16" where
  "u16_from_le_bytes b = ucast (b ! 0) OR push_bit 8 (ucast (b ! 1))"

definition u32_from_le_bytes :: "u8 list \<Rightarrow> u32" where
  "u32_from_le_bytes b =
     ucast (b ! 0) OR push_bit 8 (ucast (b ! 1)) OR push_bit 16 (ucast (b ! 2))
       OR push_bit 24 (ucast (b ! 3))"

definition u16_to_le_bytes :: "u16 \<Rightarrow> u8 list" where
  "u16_to_le_bytes w = [ucast w, ucast (drop_bit 8 w)]"

definition u32_to_le_bytes :: "u32 \<Rightarrow> u8 list" where
  "u32_to_le_bytes w =
     [ucast w, ucast (drop_bit 8 w), ucast (drop_bit 16 w), ucast (drop_bit 24 w)]"

lemma length_u16_to_le_bytes [simp]: "length (u16_to_le_bytes w) = 2"
  by (simp add: u16_to_le_bytes_def)

lemma length_u32_to_le_bytes [simp]: "length (u32_to_le_bytes w) = 4"
  by (simp add: u32_to_le_bytes_def)

lemma u16_le_round_trip [simp]: "u16_from_le_bytes (u16_to_le_bytes w) = w"
  by (rule bit_word_eqI) (auto simp: u16_from_le_bytes_def u16_to_le_bytes_def bit_simps)

lemma u32_le_round_trip [simp]: "u32_from_le_bytes (u32_to_le_bytes w) = w"
proof (rule bit_word_eqI)
  fix n assume "n < LENGTH(32)"
  then consider "n < 8" | "8 \<le> n" "n < 16" | "16 \<le> n" "n < 24" | "24 \<le> n" "n < 32"
    by fastforce
  then show "bit (u32_from_le_bytes (u32_to_le_bytes w)) n = bit w n"
    by cases (auto simp: u32_from_le_bytes_def u32_to_le_bytes_def bit_simps)
qed

text \<open>The two halves of a cluster number, as a directory entry stores them.\<close>

lemma u32_high_low_round_trip:
  "push_bit 16 (ucast (ucast (drop_bit 16 w) :: u16) :: u32) OR ucast (ucast w :: u16) = w"
  for w :: u32
  by (rule bit_word_eqI) (auto simp: bit_simps)

end
