(* ===== verification/Rust_Str.thy ===== *)
theory Rust_Str
  imports Fat_Prelude
begin

text \<open>
  Rust strings, as far as the sources use them.  A \<^verbatim>\<open>&str\<close> or \<^verbatim>\<open>String\<close> is its UTF-8 bytes,
  so that \<^verbatim>\<open>as_bytes\<close> and \<^verbatim>\<open>==\<close> are the identity and list equality, and
  \<^verbatim>\<open>String::from_utf8\<close> is a validity check.  Modelled here: \<^verbatim>\<open>split\<close>, \<^verbatim>\<open>rfind\<close>,
  \<^verbatim>\<open>from_utf8\<close>, \<^verbatim>\<open>from_utf16\<close> and \<^verbatim>\<open>to_uppercase\<close>.  A Unicode scalar value (a Rust
  \<^verbatim>\<open>char\<close>) is an \<^typ>\<open>int\<close>.  The Unicode upper-case table beyond ASCII is data of the standard
  library; it is the argument \<open>uc\<close> of \<open>to_uppercase\<close>, and no lemma assumes anything about it.
\<close>

type_synonym str = "u8 list"
type_synonym upper_table = "int \<Rightarrow> int list"

named_theorems str_simps

definition lit :: "string \<Rightarrow> str" where
  "lit s = map of_char s"

section \<open>Splitting and searching\<close>

text \<open>\<^verbatim>\<open>s.split(c)\<close> for an ASCII separator: always at least one piece.\<close>

primrec str_split :: "u8 \<Rightarrow> str \<Rightarrow> str list" where
  "str_split c [] = [[]]"
| "str_split c (x # xs) =
     (if x = c then [] # str_split c xs
      else (case str_split c xs of [] \<Rightarrow> [[x]] | p # ps \<Rightarrow> (x # p) # ps))"

text \<open>\<^verbatim>\<open>s.rfind(c)\<close>: the byte position of the last occurrence.\<close>

primrec str_rfind :: "u8 \<Rightarrow> str \<Rightarrow> nat option" where
  "str_rfind c [] = None"
| "str_rfind c (x # xs) =
     (case str_rfind c xs of Some i \<Rightarrow> Some (Suc i) | None \<Rightarrow> if x = c then Some 0 else None)"

lemma str_split_nonempty [simp]: "str_split c s \<noteq> []"
  by (induction s) (auto split: list.splits)

lemma str_split_no_sep [str_simps]: "c \<notin> set s \<Longrightarrow> str_split c s = [s]"
  by (induction s) auto

lemma str_split_append [str_simps]:
  "c \<notin> set a \<Longrightarrow> str_split c (a @ c # b) = a # str_split c b"
  by (induction a) auto

lemma str_split_pieces: "p \<in> set (str_split c s) \<Longrightarrow> c \<notin> set p"
  by (induction s arbitrary: p) (auto split: list.splits if_splits)

lemma str_rfind_None [str_simps]: "str_rfind c s = None \<longleftrightarrow> c \<notin> set s"
  by (induction s) (auto split: option.splits)

lemma str_rfind_append [str_simps]:
  "c \<notin> set b \<Longrightarrow> str_rfind c (a @ c # b) = Some (length a)"
  by (induction a) (auto simp: str_rfind_None [THEN iffD2])

section \<open>UTF-8\<close>

definition is_scalar :: "int \<Rightarrow> bool" where
  "is_scalar c \<longleftrightarrow> 0 \<le> c \<and> c \<le> 0x10FFFF \<and> \<not> (0xD800 \<le> c \<and> c \<le> 0xDFFF)"

definition byte :: "int \<Rightarrow> u8" where
  "byte x = word_of_int x"

definition utf8_encode_char :: "int \<Rightarrow> u8 list" where
  "utf8_encode_char c =
     (if c < 0x80 then [byte c]
      else if c < 0x800 then [byte (0xC0 + c div 64), byte (0x80 + c mod 64)]
      else if c < 0x10000
      then [byte (0xE0 + c div 4096), byte (0x80 + c div 64 mod 64), byte (0x80 + c mod 64)]
      else [byte (0xF0 + c div 262144), byte (0x80 + c div 4096 mod 64),
            byte (0x80 + c div 64 mod 64), byte (0x80 + c mod 64)])"

definition utf8_encode :: "int list \<Rightarrow> str" where
  "utf8_encode cs = concat (map utf8_encode_char cs)"

definition cont_byte :: "u8 \<Rightarrow> bool" where
  "cont_byte b \<longleftrightarrow> 0x80 \<le> uint b \<and> uint b \<le> 0xBF"

text \<open>
  The second byte of a three- or four-byte sequence: the ranges exclude overlong forms,
  surrogates and values beyond \<open>0x10FFFF\<close>, as \<^verbatim>\<open>core::str::from_utf8\<close> does.
\<close>

definition second3 :: "int \<Rightarrow> u8 \<Rightarrow> bool" where
  "second3 x b \<longleftrightarrow> cont_byte b \<and> (x = 0xE0 \<longrightarrow> 0xA0 \<le> uint b) \<and> (x = 0xED \<longrightarrow> uint b \<le> 0x9F)"

definition second4 :: "int \<Rightarrow> u8 \<Rightarrow> bool" where
  "second4 x b \<longleftrightarrow> cont_byte b \<and> (x = 0xF0 \<longrightarrow> 0x90 \<le> uint b) \<and> (x = 0xF4 \<longrightarrow> uint b \<le> 0x8F)"

fun utf8_decode :: "u8 list \<Rightarrow> int list option" where
  "utf8_decode [] = Some []"
| "utf8_decode (b0 # bs) =
     (let x = uint b0 in
      if x < 0x80 then map_option ((#) x) (utf8_decode bs)
      else if 0xC2 \<le> x \<and> x \<le> 0xDF then
        (case bs of
           b1 # r \<Rightarrow>
             if cont_byte b1
             then map_option ((#) ((x - 0xC0) * 64 + (uint b1 - 0x80))) (utf8_decode r)
             else None
         | _ \<Rightarrow> None)
      else if 0xE0 \<le> x \<and> x \<le> 0xEF then
        (case bs of
           b1 # b2 # r \<Rightarrow>
             if second3 x b1 \<and> cont_byte b2
             then map_option
                    ((#) ((x - 0xE0) * 4096 + (uint b1 - 0x80) * 64 + (uint b2 - 0x80)))
                    (utf8_decode r)
             else None
         | _ \<Rightarrow> None)
      else if 0xF0 \<le> x \<and> x \<le> 0xF4 then
        (case bs of
           b1 # b2 # b3 # r \<Rightarrow>
             if second4 x b1 \<and> cont_byte b2 \<and> cont_byte b3
             then map_option
                    ((#) ((x - 0xF0) * 262144 + (uint b1 - 0x80) * 4096
                          + (uint b2 - 0x80) * 64 + (uint b3 - 0x80)))
                    (utf8_decode r)
             else None
         | _ \<Rightarrow> None)
      else None)"

text \<open>\<^verbatim>\<open>String::from_utf8(data)\<close> and \<^verbatim>\<open>core::str::from_utf8(data)\<close>, with \<^verbatim>\<open>.ok()\<close>.\<close>

definition utf8_valid :: "u8 list \<Rightarrow> bool" where
  "utf8_valid bs \<longleftrightarrow> utf8_decode bs \<noteq> None"

definition from_utf8 :: "u8 list \<Rightarrow> str option" where
  "from_utf8 bs = (if utf8_valid bs then Some bs else None)"

text \<open>One step of the decoder per length of the sequence.\<close>

lemma utf8_decode_1: "uint b0 < 0x80 \<Longrightarrow> utf8_decode (b0 # r) = map_option ((#) (uint b0)) (utf8_decode r)"
  by simp

lemma utf8_decode_2:
  "0xC2 \<le> uint b0 \<Longrightarrow> uint b0 \<le> 0xDF \<Longrightarrow> cont_byte b1 \<Longrightarrow>
   utf8_decode (b0 # b1 # r)
     = map_option ((#) ((uint b0 - 0xC0) * 64 + (uint b1 - 0x80))) (utf8_decode r)"
  by (subst utf8_decode.simps) simp

lemma utf8_decode_3:
  "0xE0 \<le> uint b0 \<Longrightarrow> uint b0 \<le> 0xEF \<Longrightarrow> second3 (uint b0) b1 \<Longrightarrow> cont_byte b2 \<Longrightarrow>
   utf8_decode (b0 # b1 # b2 # r)
     = map_option ((#) ((uint b0 - 0xE0) * 4096 + (uint b1 - 0x80) * 64 + (uint b2 - 0x80)))
         (utf8_decode r)"
  by (subst utf8_decode.simps) simp

lemma utf8_decode_4:
  "0xF0 \<le> uint b0 \<Longrightarrow> uint b0 \<le> 0xF4 \<Longrightarrow> second4 (uint b0) b1 \<Longrightarrow> cont_byte b2 \<Longrightarrow>
   cont_byte b3 \<Longrightarrow>
   utf8_decode (b0 # b1 # b2 # b3 # r)
     = map_option
         ((#) ((uint b0 - 0xF0) * 262144 + (uint b1 - 0x80) * 4096 + (uint b2 - 0x80) * 64
            + (uint b3 - 0x80)))
         (utf8_decode r)"
  by (subst utf8_decode.simps) simp

declare utf8_decode.simps(2) [simp del]

lemma uint_byte: "0 \<le> x \<Longrightarrow> x < 256 \<Longrightarrow> uint (byte x) = x"
  by (simp add: byte_def uint_word_of_int)

lemma cont_byte_byte:
  "0 \<le> x \<Longrightarrow> x < 64 \<Longrightarrow> uint (byte (0x80 + x)) = 0x80 + x \<and> cont_byte (byte (0x80 + x))"
  by (simp add: uint_byte cont_byte_def)

lemma utf8_decode_bytes_2:
  assumes "2 \<le> a" "a \<le> 31" "0 \<le> l" "l < 64"
  shows "utf8_decode (byte (0xC0 + a) # byte (0x80 + l) # r)
    = map_option ((#) (a * 64 + l)) (utf8_decode r)"
proof -
  have "uint (byte (0xC0 + a)) = 0xC0 + a" using assms by (simp add: uint_byte)
  with assms cont_byte_byte [of l] show ?thesis by (simp add: utf8_decode_2)
qed

lemma utf8_decode_bytes_3:
  assumes "0 \<le> a" "a \<le> 15" "0 \<le> m" "m < 64" "0 \<le> l" "l < 64"
    and "a = 0 \<Longrightarrow> 0x20 \<le> m" and "a = 13 \<Longrightarrow> m \<le> 0x1F"
  shows "utf8_decode (byte (0xE0 + a) # byte (0x80 + m) # byte (0x80 + l) # r)
    = map_option ((#) (a * 4096 + m * 64 + l)) (utf8_decode r)"
proof -
  have "uint (byte (0xE0 + a)) = 0xE0 + a" using assms by (simp add: uint_byte)
  with assms cont_byte_byte [of l] cont_byte_byte [of m] show ?thesis
    by (simp add: utf8_decode_3 second3_def)
qed

lemma utf8_decode_bytes_4:
  assumes "0 \<le> a" "a \<le> 4" "0 \<le> h" "h < 64" "0 \<le> m" "m < 64" "0 \<le> l" "l < 64"
    and "a = 0 \<Longrightarrow> 0x10 \<le> h" and "a = 4 \<Longrightarrow> h \<le> 0xF"
  shows "utf8_decode (byte (0xF0 + a) # byte (0x80 + h) # byte (0x80 + m) # byte (0x80 + l) # r)
    = map_option ((#) (a * 262144 + h * 4096 + m * 64 + l)) (utf8_decode r)"
proof -
  have "uint (byte (0xF0 + a)) = 0xF0 + a" using assms by (simp add: uint_byte)
  with assms cont_byte_byte [of l] cont_byte_byte [of m] cont_byte_byte [of h] show ?thesis
    by (simp add: utf8_decode_4 second4_def)
qed

lemma join4096: "c div 4096 * 4096 + c div 64 mod 64 * 64 + c mod 64 = c" for c :: int
  using div_mult_mod_eq [of "c div 64" 64] div_mult_mod_eq [of c 64] zdiv_zmult2_eq [of 64 c 64, simplified]
  by linarith

lemma join262144:
  "c div 262144 * 262144 + c div 4096 mod 64 * 4096 + c div 64 mod 64 * 64 + c mod 64 = c"
  for c :: int
  using div_mult_mod_eq [of "c div 4096" 64] join4096 [of c] zdiv_zmult2_eq [of 64 c 4096, simplified]
  by linarith

lemma utf8_decode_encode_char:
  assumes "is_scalar c"
  shows "utf8_decode (utf8_encode_char c @ bs) = map_option ((#) c) (utf8_decode bs)"
proof -
  have c: "0 \<le> c" "c \<le> 0x10FFFF" "\<not> (0xD800 \<le> c \<and> c \<le> 0xDFFF)"
    using assms by (auto simp: is_scalar_def)
  have m: "0 \<le> x mod 64" "x mod 64 < 64" for x :: int by simp_all
  consider (one) "c < 0x80" | (two) "0x80 \<le> c" "c < 0x800"
    | (three) "0x800 \<le> c" "c < 0x10000" | (four) "0x10000 \<le> c"
    by linarith
  then show ?thesis
  proof cases
    case one
    with c show ?thesis by (simp add: utf8_encode_char_def utf8_decode_1 uint_byte)
  next
    case two
    then have "2 \<le> c div 64" "c div 64 \<le> 31" by simp_all
    from utf8_decode_bytes_2 [OF this m [of c], of bs] two show ?thesis
      by (simp add: utf8_encode_char_def)
  next
    case three
    have "c div 4096 = 0 \<Longrightarrow> 0x20 \<le> c div 64 mod 64"
      using three join4096 [of c] m(2) [of c] by linarith
    moreover have "c div 4096 = 13 \<Longrightarrow> c div 64 mod 64 \<le> 0x1F"
      using c(3) join4096 [of c] m(2) [of c] m(1) [of c] m(2) [of "c div 64"] by linarith
    moreover have "0 \<le> c div 4096" "c div 4096 \<le> 15" using three by simp_all
    ultimately have "utf8_decode (byte (0xE0 + c div 4096) # byte (0x80 + c div 64 mod 64)
        # byte (0x80 + c mod 64) # bs) = map_option ((#) c) (utf8_decode bs)"
      using utf8_decode_bytes_3 [of "c div 4096", OF _ _ m [of "c div 64"] m [of c], of bs]
      by (simp only: join4096)
    with three show ?thesis by (simp only: utf8_encode_char_def append.simps) simp
  next
    case four
    have "0 \<le> c div 262144" "c div 262144 \<le> 4" using c by simp_all
    moreover have "c div 262144 = 0 \<Longrightarrow> 0x10 \<le> c div 4096 mod 64"
      using four join262144 [of c] m(2) [of c] m(2) [of "c div 64"] by linarith
    moreover have "c div 262144 = 4 \<Longrightarrow> c div 4096 mod 64 \<le> 0xF"
      using c(2) join262144 [of c] m(1) [of c] m(1) [of "c div 64"] by linarith
    ultimately have "utf8_decode (byte (0xF0 + c div 262144) # byte (0x80 + c div 4096 mod 64)
        # byte (0x80 + c div 64 mod 64) # byte (0x80 + c mod 64) # bs)
      = map_option ((#) c) (utf8_decode bs)"
      using utf8_decode_bytes_4 [of "c div 262144", OF _ _ m [of "c div 4096"]
          m [of "c div 64"] m [of c], of bs]
      by (simp only: join262144)
    with four show ?thesis by (simp only: utf8_encode_char_def append.simps) simp
  qed
qed

lemma utf8_decode_encode [str_simps]:
  "\<forall>c \<in> set cs. is_scalar c \<Longrightarrow> utf8_decode (utf8_encode cs) = Some cs"
  by (induction cs) (auto simp: utf8_encode_def utf8_decode_encode_char)

lemma utf8_decode_ascii [str_simps]:
  "\<forall>b \<in> set s. b < 0x80 \<Longrightarrow> utf8_decode s = Some (map uint s)"
  by (induction s) (auto simp: utf8_decode_1 word_less_def)

lemma utf8_valid_ascii: "\<forall>b \<in> set s. b < 0x80 \<Longrightarrow> utf8_valid s"
  by (simp add: utf8_valid_def utf8_decode_ascii)

lemma utf8_valid_encode: "\<forall>c \<in> set cs. is_scalar c \<Longrightarrow> utf8_valid (utf8_encode cs)"
  by (simp add: utf8_valid_def utf8_decode_encode)

text \<open>Validity of a concatenation: sequences do not reach across its pieces.\<close>

lemma utf8_decode_prefix:
  assumes "utf8_decode (b0 # bs) = Some cs"
  obtains (one) cs' where "uint b0 < 0x80" "utf8_decode bs = Some cs'" "cs = uint b0 # cs'"
    | (two) b1 r cs' where "bs = b1 # r" "0xC2 \<le> uint b0" "uint b0 \<le> 0xDF" "cont_byte b1"
        "utf8_decode r = Some cs'" "cs = ((uint b0 - 0xC0) * 64 + (uint b1 - 0x80)) # cs'"
    | (three) b1 b2 r cs' where "bs = b1 # b2 # r" "0xE0 \<le> uint b0" "uint b0 \<le> 0xEF"
        "second3 (uint b0) b1" "cont_byte b2" "utf8_decode r = Some cs'"
        "cs = ((uint b0 - 0xE0) * 4096 + (uint b1 - 0x80) * 64 + (uint b2 - 0x80)) # cs'"
    | (four) b1 b2 b3 r cs' where "bs = b1 # b2 # b3 # r" "0xF0 \<le> uint b0" "uint b0 \<le> 0xF4"
        "second4 (uint b0) b1" "cont_byte b2" "cont_byte b3" "utf8_decode r = Some cs'"
        "cs = ((uint b0 - 0xF0) * 262144 + (uint b1 - 0x80) * 4096 + (uint b2 - 0x80) * 64
            + (uint b3 - 0x80)) # cs'"
  using assms
  by (subst (asm) utf8_decode.simps(2))
     (simp add: Let_def split: if_splits list.splits option.splits, auto)

lemma utf8_decode_append:
  "utf8_decode a = Some x \<Longrightarrow> utf8_decode (a @ b) = map_option ((@) x) (utf8_decode b)"
proof (induction a arbitrary: x rule: length_induct)
  case (1 a)
  show ?case
  proof (cases a)
    case Nil
    with 1 show ?thesis by (simp add: option.map_ident)
  next
    case (Cons b0 bs)
    note IH = "1.IH" [rule_format]
    from "1.prems" Cons have "utf8_decode (b0 # bs) = Some x" by simp
    then show ?thesis
    proof (cases rule: utf8_decode_prefix)
      case (one cs')
      with IH [of bs cs'] Cons show ?thesis
        by (simp add: utf8_decode_1 option.map_comp comp_def)
    next
      case (two b1 r cs')
      with IH [of r cs'] Cons show ?thesis
        by (simp add: utf8_decode_2 option.map_comp comp_def)
    next
      case (three b1 b2 r cs')
      with IH [of r cs'] Cons show ?thesis
        by (simp add: utf8_decode_3 option.map_comp comp_def)
    next
      case (four b1 b2 b3 r cs')
      with IH [of r cs'] Cons show ?thesis
        by (simp add: utf8_decode_4 option.map_comp comp_def)
    qed
  qed
qed

lemma utf8_valid_append: "utf8_valid a \<Longrightarrow> utf8_valid b \<Longrightarrow> utf8_valid (a @ b)"
  by (auto simp: utf8_valid_def utf8_decode_append)

section \<open>UTF-16\<close>

text \<open>
  \<^verbatim>\<open>String::from_utf16(v).ok()\<close>: an unpaired surrogate is an error, a high surrogate followed by
  a low one is one scalar value.
\<close>

fun utf16_decode :: "u16 list \<Rightarrow> int list option" where
  "utf16_decode [] = Some []"
| "utf16_decode (w # ws) =
     (if \<not> (0xD800 \<le> uint w \<and> uint w \<le> 0xDFFF)
      then map_option ((#) (uint w)) (utf16_decode ws)
      else if 0xDC00 \<le> uint w then None
      else
        (case ws of
           [] \<Rightarrow> None
         | w2 # r \<Rightarrow>
             if 0xDC00 \<le> uint w2 \<and> uint w2 \<le> 0xDFFF
             then map_option
                    ((#) ((uint w - 0xD800) * 1024 + (uint w2 - 0xDC00) + 0x10000))
                    (utf16_decode r)
             else None))"

definition from_utf16 :: "u16 list \<Rightarrow> str option" where
  "from_utf16 ws = map_option utf8_encode (utf16_decode ws)"

text \<open>\<^verbatim>\<open>char::encode_utf16\<close>, the inverse used to state the long-name round trip.\<close>

definition code_unit :: "int \<Rightarrow> u16" where
  "code_unit x = word_of_int x"

definition utf16_encode_char :: "int \<Rightarrow> u16 list" where
  "utf16_encode_char c =
     (if c < 0x10000 then [code_unit c]
      else [code_unit (0xD800 + (c - 0x10000) div 1024),
            code_unit (0xDC00 + (c - 0x10000) mod 1024)])"

definition utf16_encode :: "int list \<Rightarrow> u16 list" where
  "utf16_encode cs = concat (map utf16_encode_char cs)"

lemma uint_u16: "0 \<le> x \<Longrightarrow> x < 65536 \<Longrightarrow> uint (code_unit x) = x"
  by (simp add: code_unit_def uint_word_of_int)

lemma utf16_decode_bmp:
  "\<not> (0xD800 \<le> uint w \<and> uint w \<le> 0xDFFF) \<Longrightarrow>
   utf16_decode (w # ws) = map_option ((#) (uint w)) (utf16_decode ws)"
  by simp

lemma utf16_decode_pair:
  "0xD800 \<le> uint w \<Longrightarrow> uint w < 0xDC00 \<Longrightarrow> 0xDC00 \<le> uint w2 \<Longrightarrow> uint w2 \<le> 0xDFFF \<Longrightarrow>
   utf16_decode (w # w2 # r)
     = map_option ((#) ((uint w - 0xD800) * 1024 + (uint w2 - 0xDC00) + 0x10000)) (utf16_decode r)"
  by (subst utf16_decode.simps) simp

lemma utf16_decode_high:
  "0xD800 \<le> uint w \<Longrightarrow> uint w < 0xDC00 \<Longrightarrow> utf16_decode (w # ws) = Some cs \<Longrightarrow>
   \<exists>w2 r. ws = w2 # r \<and> 0xDC00 \<le> uint w2 \<and> uint w2 \<le> 0xDFFF"
  by (subst (asm) utf16_decode.simps) (simp split: list.splits if_splits)

lemma utf16_decode_low:
  "0xDC00 \<le> uint w \<Longrightarrow> uint w \<le> 0xDFFF \<Longrightarrow> utf16_decode (w # ws) = None"
  by (subst utf16_decode.simps) simp

declare utf16_decode.simps(2) [simp del]

lemma utf16_decode_scalars: "utf16_decode ws = Some cs \<Longrightarrow> c \<in> set cs \<Longrightarrow> is_scalar c"
proof (induction ws arbitrary: cs c rule: length_induct)
  case (1 ws)
  show ?case
  proof (cases ws)
    case Nil
    with 1 show ?thesis by simp
  next
    case (Cons w ws')
    have w: "0 \<le> uint w" "uint w < 65536" using uint_bounded [of w] by simp_all
    consider (bmp) "\<not> (0xD800 \<le> uint w \<and> uint w \<le> 0xDFFF)"
      | (low) "0xDC00 \<le> uint w" "uint w \<le> 0xDFFF"
      | (high) "0xD800 \<le> uint w" "uint w < 0xDC00"
      by linarith
    then show ?thesis
    proof cases
      case bmp
      with w have "is_scalar (uint w)" by (simp add: is_scalar_def)
      moreover from 1 Cons bmp obtain cs' where cs': "utf16_decode ws' = Some cs'" "cs = uint w # cs'"
        by (auto simp: utf16_decode_bmp)
      moreover have "c \<in> set cs' \<Longrightarrow> is_scalar c"
        using "1.IH" [rule_format, of ws' cs' c] Cons cs'(1) by simp
      ultimately show ?thesis using 1 by auto
    next
      case low
      with 1 Cons show ?thesis by (simp add: utf16_decode_low)
    next
      case high
      with 1 Cons obtain w2 r where r: "ws' = w2 # r" "0xDC00 \<le> uint w2" "uint w2 \<le> 0xDFFF"
        using utf16_decode_high [of w ws' cs] by auto
      with 1 Cons high obtain cs' where cs': "utf16_decode r = Some cs'"
        "cs = ((uint w - 0xD800) * 1024 + (uint w2 - 0xDC00) + 0x10000) # cs'"
        by (auto simp: utf16_decode_pair)
      have "c \<in> set cs' \<Longrightarrow> is_scalar c"
        using "1.IH" [rule_format, of r cs' c] Cons r(1) cs'(1) by simp
      with 1 cs' high r show ?thesis by (auto simp: is_scalar_def)
    qed
  qed
qed

text \<open>A string built from UTF-16 is a valid Rust string.\<close>

lemma from_utf16_valid: "from_utf16 ws = Some s \<Longrightarrow> utf8_valid s"
  by (auto simp: from_utf16_def intro!: utf8_valid_encode dest: utf16_decode_scalars)

lemma utf16_decode_encode_char:
  assumes "is_scalar c"
  shows "utf16_decode (utf16_encode_char c @ ws) = map_option ((#) c) (utf16_decode ws)"
proof (cases "c < 0x10000")
  case True
  with assms show ?thesis
    by (auto simp: utf16_encode_char_def is_scalar_def uint_u16 utf16_decode_bmp)
next
  case False
  define h where "h = (c - 0x10000) div 1024"
  define l where "l = (c - 0x10000) mod 1024"
  have h: "0 \<le> h" "h < 1024" using False assms by (auto simp: is_scalar_def h_def)
  have l: "0 \<le> l" "l < 1024" by (simp_all add: l_def)
  have c: "h * 1024 + l + 0x10000 = c" by (simp add: h_def l_def)
  have "uint (code_unit (0xD800 + h)) = 0xD800 + h" "uint (code_unit (0xDC00 + l)) = 0xDC00 + l"
    using h l by (simp_all add: uint_u16)
  with h l have "utf16_decode (code_unit (0xD800 + h) # code_unit (0xDC00 + l) # ws)
      = map_option ((#) (h * 1024 + l + 0x10000)) (utf16_decode ws)"
    by (simp add: utf16_decode_pair)
  with False c show ?thesis by (simp add: utf16_encode_char_def h_def l_def)
qed

lemma utf16_decode_encode [str_simps]:
  "\<forall>c \<in> set cs. is_scalar c \<Longrightarrow> utf16_decode (utf16_encode cs) = Some cs"
  by (induction cs) (auto simp: utf16_encode_def utf16_decode_encode_char)

section \<open>Upper case\<close>

text \<open>\<^verbatim>\<open>char::to_uppercase\<close>: ASCII written out, the rest of the table is \<open>uc\<close>.\<close>

definition char_to_uppercase :: "upper_table \<Rightarrow> int \<Rightarrow> int list" where
  "char_to_uppercase uc c =
     (if 97 \<le> c \<and> c \<le> 122 then [c - 32] else if c < 128 then [c] else uc c)"

definition to_uppercase :: "upper_table \<Rightarrow> str \<Rightarrow> str" where
  "to_uppercase uc s =
     (case utf8_decode s of
        None \<Rightarrow> s
      | Some cs \<Rightarrow> utf8_encode (concat (map (char_to_uppercase uc) cs)))"

definition ascii_upper :: "u8 \<Rightarrow> u8" where
  "ascii_upper b = (if 97 \<le> b \<and> b \<le> 122 then b - 32 else b)"

lemma to_uppercase_ascii [str_simps]:
  assumes "\<forall>b \<in> set s. b < 0x80"
  shows "to_uppercase uc s = map ascii_upper s"
proof -
  have "utf8_encode (char_to_uppercase uc (uint b)) = [ascii_upper b]" if "b < 0x80" for b
  proof -
    have "uint b < 128" using that by (simp add: word_less_def)
    moreover have "ascii_upper b = byte (if 97 \<le> uint b \<and> uint b \<le> 122 then uint b - 32 else uint b)"
      by (simp add: ascii_upper_def byte_def word_le_def)
    ultimately show ?thesis
      by (simp add: char_to_uppercase_def utf8_encode_def utf8_encode_char_def)
  qed
  with assms have "utf8_encode (concat (map (char_to_uppercase uc) (map uint s))) = map ascii_upper s"
    by (induction s) (auto simp: utf8_encode_def)
  with assms show ?thesis by (simp add: to_uppercase_def utf8_decode_ascii)
qed

lemma ascii_upper_ascii: "b < 0x80 \<Longrightarrow> ascii_upper b < 0x80"
  by (auto simp: ascii_upper_def word_less_nat_alt word_le_nat_alt unat_sub)

end
