(* ===== verification/Keyed_Store.thy ===== *)
theory Keyed_Store
  imports Fat_Prelude
begin

text \<open>
  The interface the file system relies on wherever it reads and overwrites one cell of the disk:
  a store of cells addressed by keys, with reads and writes that may panic.  \<open>ok s k\<close> says that
  the cell \<open>k\<close> exists in \<open>s\<close>, \<open>fits v\<close> that \<open>v\<close> has the size of a cell, \<open>norm\<close> is what a write keeps of a value (the FAT keeps 28 of 32
  bits, a directory slot everything).  The laws are those of an array: a cell that exists can be
  read and written, a read returns what the last write to that cell left, and a write leaves every
  other cell alone.  The FAT and the directory slots are interpretations of this locale.
\<close>

section \<open>Chains of cells\<close>

text \<open>
  Following the cells from \<open>k\<close> on: each value names the next key, or ends the chain.  The list
  holds the keys visited, the first included.
\<close>

primrec follows :: "('k \<Rightarrow> 'v run) \<Rightarrow> ('v \<Rightarrow> 'k option) \<Rightarrow> 'k \<Rightarrow> 'k list \<Rightarrow> bool" where
  "follows get nxt k [] = False"
| "follows get nxt k (x # xs) =
     (k = x \<and> (case get k of
        Panic _ \<Rightarrow> False
      | Val v \<Rightarrow> (case nxt v of None \<Rightarrow> xs = [] | Some k' \<Rightarrow> follows get nxt k' xs)))"

lemma follows_head: "follows get nxt k ks \<Longrightarrow> \<exists>xs. ks = k # xs"
  by (cases ks) auto

lemma follows_unique: "follows get nxt k ks \<Longrightarrow> follows get nxt k ls \<Longrightarrow> ks = ls"
proof (induction ks arbitrary: k ls)
  case Nil
  then show ?case by simp
next
  case (Cons x xs)
  then obtain ys where "ls = x # ys" using follows_head by (metis follows.simps(2))
  with Cons show ?case by (fastforce split: run.splits option.splits)
qed

lemma follows_suffix:
  "follows get nxt k (xs @ y # ys) \<Longrightarrow> follows get nxt y (y # ys)"
proof (induction xs arbitrary: k)
  case Nil
  then show ?case by (auto split: run.splits option.splits)
next
  case (Cons x xs)
  then obtain v where v: "get k = Val v"
    by (auto split: run.splits)
  with Cons.prems obtain k' where "follows get nxt k' (xs @ y # ys)"
    by (auto split: option.splits)
  then show ?case by (rule Cons.IH)
qed

text \<open>A chain that ends visits no key twice.\<close>

lemma follows_distinct: "follows get nxt k ks \<Longrightarrow> distinct ks"
proof (rule ccontr)
  assume f: "follows get nxt k ks" and "\<not> distinct ks"
  then obtain xs ys zs y where ks: "ks = xs @ [y] @ ys @ [y] @ zs"
    using not_distinct_decomp by blast
  then have "follows get nxt k (xs @ y # (ys @ y # zs))"
    and "follows get nxt k ((xs @ y # ys) @ y # zs)"
    using f by simp_all
  from follows_unique [OF follows_suffix [OF this(1)] follows_suffix [OF this(2)]]
  have "ys @ y # zs = zs" by simp
  then have "length (ys @ y # zs) = length zs" by simp
  then show False by simp
qed

lemma follows_cong:
  "(\<And>j. j \<in> set ks \<Longrightarrow> get j = get' j) \<Longrightarrow> follows get nxt k ks = follows get' nxt k ks"
  by (induction ks arbitrary: k) (auto split: run.splits option.splits)

section \<open>The interface\<close>

locale keyed_store =
  fixes get :: "'s \<Rightarrow> 'k \<Rightarrow> 'v run"
    and put :: "'s \<Rightarrow> 'k \<Rightarrow> 'v \<Rightarrow> 's run"
    and ok :: "'s \<Rightarrow> 'k \<Rightarrow> bool"
    and fits :: "'v \<Rightarrow> bool"
    and norm :: "'v \<Rightarrow> 'v"
  assumes get_total: "ok s k \<Longrightarrow> returns (get s k)"
    and put_total: "ok s k \<Longrightarrow> fits v \<Longrightarrow> returns (put s k v)"
    and get_put_same: "ok s k \<Longrightarrow> fits v \<Longrightarrow> put s k v = Val s' \<Longrightarrow> get s' k = Val (norm v)"
    and get_put_other:
      "ok s k \<Longrightarrow> ok s j \<Longrightarrow> j \<noteq> k \<Longrightarrow> fits v \<Longrightarrow> put s k v = Val s' \<Longrightarrow> get s' j = get s j"
    and ok_put: "ok s k \<Longrightarrow> fits v \<Longrightarrow> put s k v = Val s' \<Longrightarrow> ok s' j = ok s j"
begin

text \<open>The last write to a cell decides what is read there.\<close>

lemma put_put_same:
  assumes "ok s k" "fits v" "fits w" "put s k v = Val s1" "put s1 k w = Val s2"
  shows "get s2 k = Val (norm w)"
  using assms ok_put [OF assms(1,2,4)] by (auto intro: get_put_same)

text \<open>Writes to different cells commute as far as reads can tell.\<close>

lemma put_put_commute:
  assumes "ok s k" "ok s j" "j \<noteq> k" "ok s i" "fits v" "fits w"
    and "put s k v = Val s1" "put s1 j w = Val s2"
    and "put s j w = Val t1" "put t1 k v = Val t2"
  shows "get s2 i = get t2 i"
proof -
  have ok': "ok s1 j" "ok s1 i" "ok t1 k" "ok t1 i"
    using assms ok_put by simp_all
  have s2: "get s2 i = (if i = j then Val (norm w) else if i = k then Val (norm v) else get s i)"
    using get_put_same [OF ok'(1) assms(6,8)] get_put_other [OF ok'(1,2) _ assms(6,8)]
      get_put_same [OF assms(1,5,7)] get_put_other [OF assms(1,4) _ assms(5,7)] by auto
  have "get t2 i = (if i = k then Val (norm v) else if i = j then Val (norm w) else get s i)"
    using get_put_same [OF ok'(3) assms(5,10)] get_put_other [OF ok'(3,4) _ assms(5,10)]
      get_put_same [OF assms(2,6,9)] get_put_other [OF assms(2,4) _ assms(6,9)] by auto
  with s2 assms(3) show ?thesis by simp
qed

text \<open>Writing a cell outside a chain leaves the chain as it is.\<close>

lemma follows_put:
  assumes "ok s k" "\<forall>j \<in> set ks. ok s j" "k \<notin> set ks" "fits v" "put s k v = Val s'"
  shows "follows (get s') nxt j ks = follows (get s) nxt j ks"
  using assms by (intro follows_cong get_put_other) auto

text \<open>Writing an end marker makes the written cell a chain of its own.\<close>

lemma follows_end:
  assumes "ok s k" "fits v" "put s k v = Val s'" "nxt (norm v) = None"
  shows "follows (get s') nxt k [k]"
  using assms get_put_same by simp

end

end
