(* ===== verification/Volume.thy ===== *)
theory Volume
  imports Rust_Str Keyed_Store
begin

text \<open>
  The mounted volume: \<^verbatim>\<open>Fat32FileSystem\<close> of \<^verbatim>\<open>src/src/file_system.rs\<close>, its construction from
  the boot sector, sector and cluster reads, and the FAT itself.  Every function that takes
  \<^verbatim>\<open>&mut self\<close> returns the new volume next to its result, since the code keeps the bytes it has
  already written when it returns an error.
\<close>

section \<open>Data\<close>

record Fat32FileSystem =
  disk :: "u8 list"
  bytes_per_sector :: u32
  sectors_per_cluster :: u32
  fat_sector :: u32
  data_sector :: u32
  root_cluster :: u32

datatype BootOffsets = BytsPerSec | SecPerClus | RsvdSecCnt | NumFATs | FATSz32 | RootClus

primrec boot_offset :: "BootOffsets \<Rightarrow> nat" where
  "boot_offset BytsPerSec = 11"
| "boot_offset SecPerClus = 13"
| "boot_offset RsvdSecCnt = 14"
| "boot_offset NumFATs = 16"
| "boot_offset FATSz32 = 36"
| "boot_offset RootClus = 44"

text \<open>The error messages of the file system and the shell, one constructor each.\<close>

datatype fs_error =
    FileNotFound              \<comment> \<open>\<^verbatim>\<open>"File not found"\<close>\<close>
  | NotAFile                  \<comment> \<open>\<^verbatim>\<open>"Not a file"\<close>\<close>
  | InvalidUtf8               \<comment> \<open>\<^verbatim>\<open>"Invalid UTF-8 content"\<close>\<close>
  | DiskFull                  \<comment> \<open>\<^verbatim>\<open>"Disk full"\<close>\<close>
  | InvalidName               \<comment> \<open>\<^verbatim>\<open>"Invalid name"\<close>\<close>
  | ParentDirectoryNotFound   \<comment> \<open>\<^verbatim>\<open>"Parent directory not found"\<close>\<close>
  | ParentPathNotFound        \<comment> \<open>\<^verbatim>\<open>"Parent path not found"\<close>\<close>
  | NoSpaceInParent           \<comment> \<open>\<^verbatim>\<open>"No space in parent directory"\<close>\<close>
  | UpdateEntryNotFound       \<comment> \<open>the entry is missing in \<^verbatim>\<open>update_file_size\<close>\<close>
  | WriteFileNotFound         \<comment> \<open>the file is missing in \<^verbatim>\<open>write_file\<close>\<close>
  | WriteToDirectory          \<comment> \<open>\<^verbatim>\<open>write_file\<close> on a directory\<close>
  | EntryNotFound             \<comment> \<open>\<^verbatim>\<open>"Entry not found"\<close>\<close>
  | NotADirectory             \<comment> \<open>\<^verbatim>\<open>"Not a directory"\<close>\<close>

type_synonym 'a result = "fs_error + 'a"

section \<open>Mounting\<close>

definition boot_read_u16 :: "u8 list \<Rightarrow> BootOffsets \<Rightarrow> u16 run" where
  "boot_read_u16 d off =
     (let p = boot_offset off in rbind (slice d p (p + 2)) (\<lambda>b. Val (u16_from_le_bytes b)))"

definition boot_read_u32 :: "u8 list \<Rightarrow> BootOffsets \<Rightarrow> u32 run" where
  "boot_read_u32 d off =
     (let p = boot_offset off in rbind (slice d p (p + 4)) (\<lambda>b. Val (u32_from_le_bytes b)))"

definition fs_new :: "u8 list \<Rightarrow> Fat32FileSystem run" where
  "fs_new d =
     rbind (boot_read_u16 d BytsPerSec) (\<lambda>bytes_per_sector.
     rbind (index d (boot_offset SecPerClus)) (\<lambda>sectors_per_cluster.
     rbind (boot_read_u16 d RsvdSecCnt) (\<lambda>reserved_sectors_count.
     rbind (index d (boot_offset NumFATs)) (\<lambda>num_fats.
     rbind (boot_read_u32 d FATSz32) (\<lambda>sectors_per_fat.
     rbind (boot_read_u32 d RootClus) (\<lambda>root_cluster.
     rbind (u32_mul (ucast num_fats) sectors_per_fat) (\<lambda>fats.
     rbind (u32_add (ucast reserved_sectors_count) fats) (\<lambda>data_sector.
       Val \<lparr> disk = d,
             bytes_per_sector = ucast bytes_per_sector,
             sectors_per_cluster = ucast sectors_per_cluster,
             fat_sector = ucast reserved_sectors_count,
             data_sector = data_sector,
             root_cluster = root_cluster \<rparr>))))))))"

section \<open>Sectors and clusters\<close>

definition read_sector :: "Fat32FileSystem \<Rightarrow> u32 \<Rightarrow> u8 list run" where
  "read_sector fs address =
     rbind (u32_mul address (bytes_per_sector fs)) (\<lambda>off.
       let offset = unat off; size = unat (bytes_per_sector fs) in
       if length (disk fs) < offset + size then Panic (ExplicitPanic ''Error reading outbound'')
       else slice (disk fs) offset (offset + size))"

text \<open>\<^verbatim>\<open>self.data_sector + (cluster_id - 2) * self.sectors_per_cluster\<close>.\<close>

definition start_sector :: "Fat32FileSystem \<Rightarrow> u32 \<Rightarrow> u32 run" where
  "start_sector fs cluster_id =
     rbind (u32_sub cluster_id 2) (\<lambda>n.
     rbind (u32_mul n (sectors_per_cluster fs)) (\<lambda>m.
     u32_add (data_sector fs) m))"

primrec read_cluster_loop ::
    "Fat32FileSystem \<Rightarrow> u32 \<Rightarrow> nat list \<Rightarrow> u8 list \<Rightarrow> u8 list run" where
  "read_cluster_loop fs start_address [] data = Val data"
| "read_cluster_loop fs start_address (i # is) data =
     rbind (u32_add start_address (of_nat i)) (\<lambda>a.
     rbind (read_sector fs a) (\<lambda>sector_data.
     read_cluster_loop fs start_address is (data @ sector_data)))"

definition read_cluster :: "Fat32FileSystem \<Rightarrow> u32 \<Rightarrow> u8 list run" where
  "read_cluster fs cluster_id =
     rbind (start_sector fs cluster_id) (\<lambda>start_address.
     read_cluster_loop fs start_address [0..<unat (sectors_per_cluster fs)] [])"

section \<open>The FAT\<close>

definition read_fat_entry :: "Fat32FileSystem \<Rightarrow> u32 \<Rightarrow> u32 run" where
  "read_fat_entry fs cluster_id =
     rbind (u32_mul cluster_id 4) (\<lambda>fat_offset.
     rbind (u32_div fat_offset (bytes_per_sector fs)) (\<lambda>q.
     rbind (u32_add (fat_sector fs) q) (\<lambda>sector_num.
     rbind (u32_mod fat_offset (bytes_per_sector fs)) (\<lambda>r.
     let fat_index = unat r in
     rbind (read_sector fs sector_num) (\<lambda>sector.
     rbind (slice sector fat_index (fat_index + 4)) (\<lambda>b.
     Val (u32_from_le_bytes b AND 0x0FFFFFFF)))))))"

definition write_fat_entry :: "Fat32FileSystem \<Rightarrow> u32 \<Rightarrow> u32 \<Rightarrow> Fat32FileSystem run" where
  "write_fat_entry fs cluster_id v =
     rbind (u32_mul cluster_id 4) (\<lambda>fat_offset.
     rbind (u32_div fat_offset (bytes_per_sector fs)) (\<lambda>q.
     rbind (u32_add (fat_sector fs) q) (\<lambda>sector_num.
     rbind (u32_mod fat_offset (bytes_per_sector fs)) (\<lambda>r.
     let offset_in_sector = unat r in
     rbind (u32_mul sector_num (bytes_per_sector fs)) (\<lambda>g.
     let global_offset = unat g + offset_in_sector in
     rbind (slice (disk fs) global_offset (global_offset + 4)) (\<lambda>b.
     let current_value = u32_from_le_bytes b;
         new_value = (current_value AND 0xF0000000) OR (v AND 0x0FFFFFFF) in
     rbind (copy_from_slice (disk fs) global_offset (u32_to_le_bytes new_value)) (\<lambda>d.
     Val (fs\<lparr>disk := d\<rparr>))))))))"

text \<open>\<^verbatim>\<open>for cluster_id in 2..50000\<close>, with its early return.\<close>

function allocate_scan ::
    "Fat32FileSystem \<Rightarrow> u32 \<Rightarrow> (u32 result \<times> Fat32FileSystem) run" where
  "allocate_scan fs cluster_id =
     (if cluster_id < 50000 then
        rbind (read_fat_entry fs cluster_id) (\<lambda>entry.
          if entry = 0x00000000 then
            rbind (write_fat_entry fs cluster_id 0x0FFFFFFF) (\<lambda>fs'. Val (Inr cluster_id, fs'))
          else allocate_scan fs (cluster_id + 1))
      else Val (Inl DiskFull, fs))"
  by pat_completeness auto
termination
proof (relation "measure (\<lambda>(fs, c). 50000 - unat c)")
  show "wf (measure (\<lambda>(fs :: Fat32FileSystem, c :: u32). 50000 - unat c))" by simp
next
  fix fs :: Fat32FileSystem and c :: u32 and e :: u32
  assume "c < 50000"
  then have "unat c < 50000" by (simp add: word_less_nat_alt)
  then have "unat (c + 1) = unat c + 1" by (simp add: unat_word_ariths)
  with \<open>unat c < 50000\<close>
  show "((fs, c + 1), fs, c) \<in> measure (\<lambda>(fs, c). 50000 - unat c)" by simp
qed

declare allocate_scan.simps [simp del]

definition allocate_cluster :: "Fat32FileSystem \<Rightarrow> (u32 result \<times> Fat32FileSystem) run" where
  "allocate_cluster fs = allocate_scan fs 2"

section \<open>Geometry of a well-formed volume\<close>

abbreviation bps :: "Fat32FileSystem \<Rightarrow> nat" where
  "bps fs \<equiv> unat (bytes_per_sector fs)"

abbreviation spc :: "Fat32FileSystem \<Rightarrow> nat" where
  "spc fs \<equiv> unat (sectors_per_cluster fs)"

definition cluster_bytes :: "Fat32FileSystem \<Rightarrow> nat" where
  "cluster_bytes fs = spc fs * bps fs"

definition cluster_off :: "Fat32FileSystem \<Rightarrow> u32 \<Rightarrow> nat" where
  "cluster_off fs c = (unat (data_sector fs) + (unat c - 2) * spc fs) * bps fs"

definition fat_off :: "Fat32FileSystem \<Rightarrow> u32 \<Rightarrow> nat" where
  "fat_off fs c = unat (fat_sector fs) * bps fs + 4 * unat c"

text \<open>
  A well-formed volume has sectors of a positive multiple of four bytes and at least one per
  cluster, and fits the 32-bit byte offsets the code computes.  A cluster is valid when its
  number is at least two, its data lies on the disk, and its FAT entry lies before the data area.
\<close>

definition wf_fs :: "Fat32FileSystem \<Rightarrow> bool" where
  "wf_fs fs \<longleftrightarrow>
     0 < bps fs \<and> 4 dvd bps fs \<and> 0 < spc fs \<and> int (length (disk fs)) \<le> 0x100000000"

definition valid_cluster :: "Fat32FileSystem \<Rightarrow> u32 \<Rightarrow> bool" where
  "valid_cluster fs c \<longleftrightarrow>
     2 \<le> c
     \<and> cluster_off fs c + cluster_bytes fs \<le> length (disk fs)
     \<and> fat_off fs c + 4 \<le> unat (data_sector fs) * bps fs"

text \<open>The bytes of a cluster and the raw 32 bits of a FAT entry.\<close>

definition cluster_data :: "Fat32FileSystem \<Rightarrow> u32 \<Rightarrow> u8 list" where
  "cluster_data fs c = sub_list (disk fs) (cluster_off fs c) (cluster_bytes fs)"

definition fat_raw :: "Fat32FileSystem \<Rightarrow> u32 \<Rightarrow> u32" where
  "fat_raw fs c = u32_from_le_bytes (sub_list (disk fs) (fat_off fs c) 4)"

definition fat_entry :: "Fat32FileSystem \<Rightarrow> u32 \<Rightarrow> u32" where
  "fat_entry fs c = fat_raw fs c AND 0x0FFFFFFF"

lemma wf_fsD:
  assumes "wf_fs fs"
  shows "0 < bps fs" "4 dvd bps fs" "0 < spc fs" "length (disk fs) \<le> 2 ^ 32" "0 < cluster_bytes fs"
  using assms by (auto simp: wf_fs_def cluster_bytes_def)

lemma valid_clusterD:
  assumes "valid_cluster fs c"
  shows "2 \<le> unat c" "cluster_off fs c + cluster_bytes fs \<le> length (disk fs)"
    "fat_off fs c + 4 \<le> unat (data_sector fs) * bps fs"
    "unat (data_sector fs) * bps fs \<le> cluster_off fs c"
  using assms by (auto simp: valid_cluster_def cluster_off_def word_le_nat_alt)

lemma fat_off_in_disk:
  "valid_cluster fs c \<Longrightarrow> fat_off fs c + 4 \<le> length (disk fs)"
  using valid_clusterD [of fs c] by linarith

text \<open>A later disk of the same length has the same geometry.\<close>

lemma geometry_disk_update [simp]:
  "cluster_bytes (fs\<lparr>disk := d\<rparr>) = cluster_bytes fs"
  "cluster_off (fs\<lparr>disk := d\<rparr>) c = cluster_off fs c"
  "fat_off (fs\<lparr>disk := d\<rparr>) c = fat_off fs c"
  by (simp_all add: cluster_bytes_def cluster_off_def fat_off_def)

lemma wf_fs_disk_update [simp]: "length d = length (disk fs) \<Longrightarrow> wf_fs (fs\<lparr>disk := d\<rparr>) = wf_fs fs"
  by (simp add: wf_fs_def)

lemma valid_cluster_disk_update [simp]:
  "length d = length (disk fs) \<Longrightarrow> valid_cluster (fs\<lparr>disk := d\<rparr>) c = valid_cluster fs c"
  by (simp add: valid_cluster_def)

section \<open>What the reads compute\<close>

lemma read_sector_ok:
  assumes "wf_fs fs" and "unat a * bps fs + bps fs \<le> length (disk fs)"
  shows "read_sector fs a = Val (sub_list (disk fs) (unat a * bps fs) (bps fs))"
proof -
  have lt: "unat a * bps fs < 2 ^ 32"
    using assms wf_fsD [OF assms(1)] by linarith
  then have "u32_mul a (bytes_per_sector fs) = Val (a * bytes_per_sector fs)"
    by (simp add: u32_mul_Val)
  with lt assms(2) show ?thesis
    by (simp add: read_sector_def Let_def unat_u32_mul slice_def)
qed

lemma start_sector_ok:
  assumes "wf_fs fs" and "valid_cluster fs c"
  shows "\<exists>s. start_sector fs c = Val s
    \<and> unat s = unat (data_sector fs) + (unat c - 2) * spc fs \<and> unat s * bps fs = cluster_off fs c"
proof -
  let ?n = "unat (data_sector fs) + (unat c - 2) * spc fs"
  note wf = wf_fsD [OF assms(1)] and vc = valid_clusterD [OF assms(2)]
  have "?n * 1 \<le> ?n * bps fs" using wf(1) by (intro mult_le_mono2) simp
  also have "\<dots> < 2 ^ 32"
    using wf(4,5) vc(2) by (simp add: cluster_off_def)
  finally have n: "?n < 2 ^ 32" by simp
  have c2: "(2 :: u32) \<le> c" using assms(2) by (simp add: valid_cluster_def)
  then have m: "unat (c - 2) = unat c - 2" by (simp add: unat_u32_sub)
  then have "unat (c - 2) * spc fs < 2 ^ 32" using n by simp
  then have p: "u32_mul (c - 2) (sectors_per_cluster fs) = Val ((c - 2) * sectors_per_cluster fs)"
    "unat ((c - 2) * sectors_per_cluster fs) = (unat c - 2) * spc fs"
    by (simp_all add: u32_mul_Val unat_u32_mul m)
  with n have s: "u32_add (data_sector fs) ((c - 2) * sectors_per_cluster fs)
      = Val (data_sector fs + (c - 2) * sectors_per_cluster fs)"
    "unat (data_sector fs + (c - 2) * sectors_per_cluster fs) = ?n"
    by (simp_all add: u32_add_Val unat_u32_add)
  show ?thesis
    using c2 p(1) s by (simp add: start_sector_def u32_sub_def cluster_off_def)
qed

lemma read_cluster_loop_ok:
  assumes "wf_fs fs" and "k \<le> n" and "(unat s + n) * bps fs \<le> length (disk fs)"
    and "unat s + n < 2 ^ 32"
  shows "read_cluster_loop fs s [k..<n] data
    = Val (data @ sub_list (disk fs) ((unat s + k) * bps fs) ((n - k) * bps fs))"
  using assms(2)
proof (induction "n - k" arbitrary: k data)
  case 0
  then show ?case by simp
next
  case (Suc m)
  then have k: "k < n" "m = n - Suc k" by auto
  then have "unat (of_nat k :: u32) = k" using assms(4) by (simp add: unat_u32_of_nat)
  then have a: "u32_add s (of_nat k) = Val (s + of_nat k)" "unat (s + of_nat k) = unat s + k"
    using k assms(4) by (simp_all add: u32_add_Val unat_u32_add)
  have "(unat s + Suc k) * bps fs \<le> (unat s + n) * bps fs" using k by (intro mult_le_mono1) simp
  also note assms(3)
  finally have "read_sector fs (s + of_nat k)
      = Val (sub_list (disk fs) ((unat s + k) * bps fs) (bps fs))"
    using read_sector_ok [OF assms(1), of "s + of_nat k"] a(2) by simp
  moreover have "read_cluster_loop fs s [Suc k..<n] d
      = Val (d @ sub_list (disk fs) ((unat s + Suc k) * bps fs) ((n - Suc k) * bps fs))" for d
    using Suc.hyps(1) [of "Suc k"] k by simp
  moreover have "sub_list (disk fs) ((unat s + k) * bps fs) ((n - k) * bps fs)
      = sub_list (disk fs) ((unat s + k) * bps fs) (bps fs)
        @ sub_list (disk fs) ((unat s + Suc k) * bps fs) ((n - Suc k) * bps fs)"
    using sub_list_append [of "disk fs" "(unat s + k) * bps fs" "bps fs" "(n - Suc k) * bps fs"]
      k(1) by (simp add: Suc_diff_Suc [symmetric] algebra_simps)
  ultimately show ?case using k(1) a(1) by (simp add: upt_conv_Cons)
qed

text \<open>Reading a valid cluster never panics and returns exactly its bytes.\<close>

lemma read_cluster_ok [vol_simps]:
  assumes "wf_fs fs" and "valid_cluster fs c"
  shows "read_cluster fs c = Val (cluster_data fs c)"
proof -
  obtain s where s: "start_sector fs c = Val s"
      "unat s = unat (data_sector fs) + (unat c - 2) * spc fs" "unat s * bps fs = cluster_off fs c"
    using start_sector_ok [OF assms] by blast
  note wf = wf_fsD [OF assms(1)] and vc = valid_clusterD [OF assms(2)]
  have len: "(unat s + spc fs) * bps fs \<le> length (disk fs)"
    using vc(2) s(3) by (simp add: cluster_bytes_def algebra_simps)
  have "4 \<le> bps fs" using wf(1,2) by (auto dest: dvd_imp_le)
  then have "(unat s + spc fs) * 4 \<le> (unat s + spc fs) * bps fs" by (rule mult_le_mono2)
  from order_trans [OF this order_trans [OF len wf(4)]] have "unat s + spc fs < 2 ^ 32"
    by simp
  then have "read_cluster_loop fs s [0..<spc fs] [] = Val (cluster_data fs c)"
    using read_cluster_loop_ok [OF assms(1) _ len, of 0 "[]"] s(3)
    by (simp add: cluster_data_def cluster_bytes_def)
  with s(1) show ?thesis by (simp add: read_cluster_def)
qed

lemma length_cluster_data [simp]:
  "valid_cluster fs c \<Longrightarrow> length (cluster_data fs c) = cluster_bytes fs"
  by (simp add: cluster_data_def length_sub_list valid_clusterD)

section \<open>The FAT as a store of 28-bit entries\<close>

text \<open>
  The FAT has room for an entry when it lies before the data area, which starts on the disk; the
  FAT of a volume may have room for more entries than there are clusters.
\<close>

definition fat_room :: "Fat32FileSystem \<Rightarrow> u32 \<Rightarrow> bool" where
  "fat_room fs c \<longleftrightarrow>
     fat_off fs c + 4 \<le> unat (data_sector fs) * bps fs
     \<and> unat (data_sector fs) * bps fs \<le> length (disk fs)"

lemma valid_fat_room: "valid_cluster fs c \<Longrightarrow> fat_room fs c"
  using valid_clusterD(2-4) [of fs c] by (simp add: fat_room_def)

lemma fat_room_mono: "fat_room fs c \<Longrightarrow> b \<le> c \<Longrightarrow> fat_room fs b"
  by (auto simp: fat_room_def fat_off_def word_le_nat_alt)

text \<open>Where the code's sector and offset arithmetic puts such an entry.\<close>

lemma fat_position:
  assumes "wf_fs fs" and "fat_room fs c"
  obtains sn r where
    "u32_mul c 4 = Val (c * 4)"
    "u32_div (c * 4) (bytes_per_sector fs) = Val (c * 4 div bytes_per_sector fs)"
    "u32_add (fat_sector fs) (c * 4 div bytes_per_sector fs) = Val sn"
    "u32_mod (c * 4) (bytes_per_sector fs) = Val r"
    "unat sn * bps fs + bps fs \<le> length (disk fs)"
    "unat r + 4 \<le> bps fs"
    "unat sn * bps fs + unat r = fat_off fs c"
proof -
  note wf = wf_fsD [OF assms(1)] and room = assms(2) [unfolded fat_room_def]
  have ds: "unat (data_sector fs) * bps fs \<le> length (disk fs)" using room by simp
  have c4: "unat c * 4 < 2 ^ 32" using room wf(4) by (simp add: fat_off_def)
  have m: "u32_mul c 4 = Val (c * 4)" "unat (c * 4) = 4 * unat c"
    using c4 unat_u32_mul [of c 4] by (simp_all add: u32_mul_Val)
  let ?q = "4 * unat c div bps fs" and ?r = "4 * unat c mod bps fs"
  have q: "unat (c * 4 div bytes_per_sector fs) = ?q" by (simp add: unat_div m(2))
  have r: "unat (c * 4 mod bytes_per_sector fs) = ?r" by (simp add: unat_mod m(2))
  have eq: "(unat (fat_sector fs) + ?q) * bps fs + ?r = fat_off fs c"
    using div_mult_mod_eq [of "4 * unat c" "bps fs"] by (simp add: fat_off_def algebra_simps)
  then have "(unat (fat_sector fs) + ?q) * bps fs < unat (data_sector fs) * bps fs"
    using room by linarith
  then have lt: "unat (fat_sector fs) + ?q < unat (data_sector fs)" by simp
  then have "(unat (fat_sector fs) + ?q + 1) * bps fs \<le> unat (data_sector fs) * bps fs"
    by (intro mult_le_mono1) simp
  then have in_disk: "(unat (fat_sector fs) + ?q) * bps fs + bps fs \<le> length (disk fs)"
    using ds by simp
  have s: "u32_add (fat_sector fs) (c * 4 div bytes_per_sector fs)
      = Val (fat_sector fs + c * 4 div bytes_per_sector fs)"
    "unat (fat_sector fs + c * 4 div bytes_per_sector fs) = unat (fat_sector fs) + ?q"
    using lt q by (simp_all add: u32_add_Val unat_u32_add less_trans [OF _ unat_u32_bound])
  have "4 dvd ?r" using wf(2) by (simp add: dvd_mod)
  moreover have "?r < bps fs" using wf(1) by simp
  ultimately have r4: "?r + 4 \<le> bps fs" using wf(2) by (auto elim!: dvdE)
  have nz: "bytes_per_sector fs \<noteq> 0" using wf(1) by auto
  show thesis
    by (rule that [where sn = "fat_sector fs + c * 4 div bytes_per_sector fs"
          and r = "c * 4 mod bytes_per_sector fs"])
       (use m s in_disk r4 eq q r nz in \<open>simp_all add: u32_div_def u32_mod_def\<close>)
qed

lemma read_fat_entry_room:
  assumes "wf_fs fs" and "fat_room fs c"
  shows "read_fat_entry fs c = Val (fat_entry fs c)"
proof -
  obtain sn r where p: "u32_mul c 4 = Val (c * 4)"
    "u32_div (c * 4) (bytes_per_sector fs) = Val (c * 4 div bytes_per_sector fs)"
    "u32_add (fat_sector fs) (c * 4 div bytes_per_sector fs) = Val sn"
    "u32_mod (c * 4) (bytes_per_sector fs) = Val r"
    "unat sn * bps fs + bps fs \<le> length (disk fs)"
    "unat r + 4 \<le> bps fs" "unat sn * bps fs + unat r = fat_off fs c"
    using fat_position [OF assms] .
  then have "slice (sub_list (disk fs) (unat sn * bps fs) (bps fs)) (unat r) (unat r + 4)
      = Val (sub_list (disk fs) (fat_off fs c) 4)"
    by (simp add: slice_def length_sub_list sub_list_sub_list)
  with p show ?thesis
    by (simp add: read_fat_entry_def read_sector_ok [OF assms(1)] fat_entry_def fat_raw_def)
qed

lemmas read_fat_entry_ok [vol_simps] = read_fat_entry_room [OF _ valid_fat_room]

definition fat_blit :: "Fat32FileSystem \<Rightarrow> u32 \<Rightarrow> u32 \<Rightarrow> u8 list" where
  "fat_blit fs c v =
     blit (disk fs) (fat_off fs c)
       (u32_to_le_bytes ((fat_raw fs c AND 0xF0000000) OR (v AND 0x0FFFFFFF)))"

lemma write_fat_entry_room:
  assumes "wf_fs fs" and "fat_room fs c"
  shows "write_fat_entry fs c v = Val (fs\<lparr>disk := fat_blit fs c v\<rparr>)"
proof -
  obtain sn r where p: "u32_mul c 4 = Val (c * 4)"
    "u32_div (c * 4) (bytes_per_sector fs) = Val (c * 4 div bytes_per_sector fs)"
    "u32_add (fat_sector fs) (c * 4 div bytes_per_sector fs) = Val sn"
    "u32_mod (c * 4) (bytes_per_sector fs) = Val r"
    "unat sn * bps fs + bps fs \<le> length (disk fs)"
    "unat r + 4 \<le> bps fs" "unat sn * bps fs + unat r = fat_off fs c"
    using fat_position [OF assms] .
  have "unat sn * bps fs < 2 ^ 32" using p(5) wf_fsD [OF assms(1)] by linarith
  then have g: "u32_mul sn (bytes_per_sector fs) = Val (sn * bytes_per_sector fs)"
    "unat (sn * bytes_per_sector fs) = unat sn * bps fs"
    by (simp_all add: u32_mul_Val unat_u32_mul)
  moreover have "fat_off fs c + 4 \<le> length (disk fs)" using assms(2) by (simp add: fat_room_def)
  ultimately show ?thesis using p
    by (simp add: write_fat_entry_def slice_def copy_from_slice_def fat_raw_def fat_blit_def Let_def)
qed

lemmas write_fat_entry_ok [vol_simps] = write_fat_entry_room [OF _ valid_fat_room]

lemma length_fat_blit [simp]:
  "valid_cluster fs c \<Longrightarrow> length (fat_blit fs c v) = length (disk fs)"
  using fat_off_in_disk [of fs c] by (simp add: fat_blit_def)

lemma mask_high_low:
  "((x AND 0xF0000000) OR (v AND 0x0FFFFFFF)) AND 0x0FFFFFFF = v AND 0x0FFFFFFF"
  "((x AND 0xF0000000) OR (v AND 0x0FFFFFFF)) AND 0xF0000000 = x AND 0xF0000000"
  for x v :: u32
proof -
  have "(0xF0000000 :: u32) AND 0x0FFFFFFF = 0" by simp
  then show "((x AND 0xF0000000) OR (v AND 0x0FFFFFFF)) AND 0x0FFFFFFF = v AND 0x0FFFFFFF"
    "((x AND 0xF0000000) OR (v AND 0x0FFFFFFF)) AND 0xF0000000 = x AND 0xF0000000"
    by (simp_all add: bit.conj_disj_distrib2 and.assoc and.commute [of "0x0FFFFFFF" "0xF0000000"])
qed

lemma fat_raw_update:
  assumes "valid_cluster fs c" "valid_cluster fs j"
  shows "fat_raw (fs\<lparr>disk := fat_blit fs c v\<rparr>) j =
    (if j = c then (fat_raw fs c AND 0xF0000000) OR (v AND 0x0FFFFFFF) else fat_raw fs j)"
proof (cases "j = c")
  case True
  have "sub_list (fat_blit fs c v) (fat_off fs c) 4
      = u32_to_le_bytes ((fat_raw fs c AND 0xF0000000) OR (v AND 0x0FFFFFFF))"
    using fat_off_in_disk [OF assms(1)]
      sub_list_blit_same [of "fat_off fs c" "u32_to_le_bytes _" "disk fs"]
    by (simp add: fat_blit_def)
  with True show ?thesis by (simp add: fat_raw_def [of "fs\<lparr>disk := fat_blit fs c v\<rparr>"])
next
  case False
  then have "unat j \<noteq> unat c" by (simp add: word_unat_eq_iff)
  then have "fat_off fs j + 4 \<le> fat_off fs c \<or> fat_off fs c + 4 \<le> fat_off fs j"
    unfolding fat_off_def by linarith
  with False fat_off_in_disk [OF assms(1)] show ?thesis
    by (simp add: fat_raw_def fat_blit_def sub_list_blit_other)
qed

lemma fat_entry_update:
  assumes "valid_cluster fs c" "valid_cluster fs j"
  shows "fat_entry (fs\<lparr>disk := fat_blit fs c v\<rparr>) j =
    (if j = c then v AND 0x0FFFFFFF else fat_entry fs j)"
  using assms by (simp add: fat_entry_def fat_raw_update mask_high_low)

text \<open>The FAT area and the data area are disjoint: a FAT write changes no cluster.\<close>

lemma cluster_data_fat_update:
  assumes "valid_cluster fs c" "valid_cluster fs j"
  shows "cluster_data (fs\<lparr>disk := fat_blit fs c v\<rparr>) j = cluster_data fs j"
  using valid_clusterD [OF assms(1)] valid_clusterD [OF assms(2)] fat_off_in_disk [OF assms(1)]
  by (simp add: cluster_data_def fat_blit_def sub_list_blit_other)

definition fat_cell_ok :: "Fat32FileSystem \<Rightarrow> u32 \<Rightarrow> bool" where
  "fat_cell_ok fs c \<longleftrightarrow> wf_fs fs \<and> valid_cluster fs c"

definition fat_value :: "u32 \<Rightarrow> u32" where
  "fat_value v = v AND 0x0FFFFFFF"

definition fat_fits :: "u32 \<Rightarrow> bool" where
  "fat_fits v \<longleftrightarrow> True"

interpretation fat: keyed_store read_fat_entry write_fat_entry fat_cell_ok fat_fits fat_value
proof
  fix s :: Fat32FileSystem and k j v s'
  assume k: "fat_cell_ok s k"
  then have wk: "wf_fs s" "valid_cluster s k" by (simp_all add: fat_cell_ok_def)
  show "returns (read_fat_entry s k)" "returns (write_fat_entry s k v)"
    using wk by (simp_all add: read_fat_entry_ok write_fat_entry_ok)
  assume "write_fat_entry s k v = Val s'"
  with wk have s': "s' = s\<lparr>disk := fat_blit s k v\<rparr>" by (simp add: write_fat_entry_ok)
  with wk show "read_fat_entry s' k = Val (fat_value v)" "fat_cell_ok s' j = fat_cell_ok s j"
    by (simp_all add: read_fat_entry_ok fat_entry_update fat_value_def fat_cell_ok_def)
  assume "fat_cell_ok s j" "j \<noteq> k"
  with wk s' show "read_fat_entry s' j = read_fat_entry s j"
    by (simp add: read_fat_entry_ok fat_entry_update fat_cell_ok_def)
qed

section \<open>Cluster allocation\<close>

lemma u32_Suc_le: "c < 50000 \<Longrightarrow> j < c + 1 \<longleftrightarrow> j < c \<or> j = c" for c j :: u32
proof -
  assume "c < 50000"
  then have "unat c < 50000" by (simp add: word_less_nat_alt)
  then have "unat (c + 1) = unat c + 1" by (simp add: unat_word_ariths)
  then show ?thesis by (auto simp: word_less_nat_alt word_unat_eq_iff)
qed

lemma u32_le_Suc: "c < 50000 \<Longrightarrow> c \<le> c + 1" for c :: u32
  using u32_Suc_le [of c c] by simp

text \<open>A cluster is taken when its entry reads as non-zero.\<close>

definition fat_taken :: "Fat32FileSystem \<Rightarrow> u32 \<Rightarrow> bool" where
  "fat_taken fs c \<longleftrightarrow> (case read_fat_entry fs c of Val e \<Rightarrow> e \<noteq> 0 | Panic _ \<Rightarrow> False)"

lemma allocate_scan_Inr:
  "allocate_scan fs c = Val (Inr n, fs') \<longleftrightarrow>
     c \<le> n \<and> n < 50000 \<and> (\<forall>j. c \<le> j \<longrightarrow> j < n \<longrightarrow> fat_taken fs j)
     \<and> read_fat_entry fs n = Val 0 \<and> write_fat_entry fs n 0x0FFFFFFF = Val fs'"
proof (induction fs c rule: allocate_scan.induct)
  case (1 fs c)
  show ?case
  proof (cases "c < 50000")
    case False
    then show ?thesis by (subst allocate_scan.simps) auto
  next
    case c: True
    show ?thesis
    proof (cases "read_fat_entry fs c")
      case (Panic p)
      then have "\<not> fat_taken fs c" by (simp add: fat_taken_def)
      with c Panic show ?thesis
        by (subst allocate_scan.simps) (auto simp: order_le_less)
    next
      case (Val e)
      show ?thesis
      proof (cases "e = 0")
        case True
        with Val have "\<not> fat_taken fs c" by (simp add: fat_taken_def)
        with c Val True show ?thesis
          by (subst allocate_scan.simps) (auto simp: rbind_Val_iff order_le_less)
      next
        case False
        with Val have t: "fat_taken fs c" by (simp add: fat_taken_def)
        have step: "allocate_scan fs c = allocate_scan fs (c + 1)"
          using c Val False by (subst allocate_scan.simps) simp
        have le: "c + 1 \<le> j \<longleftrightarrow> c \<le> j \<and> j \<noteq> c" for j
          using u32_Suc_le [OF c, of j] by (auto simp: not_less [symmetric])
        from "1.IH" [OF c Val False] show ?thesis
          unfolding step by (auto simp: le t Val False)
      qed
    qed
  qed
qed

lemma allocate_scan_Inl:
  "allocate_scan fs c = Val (Inl e, fs') \<longleftrightarrow>
     e = DiskFull \<and> fs' = fs \<and> (\<forall>j. c \<le> j \<longrightarrow> j < 50000 \<longrightarrow> fat_taken fs j)"
proof (induction fs c rule: allocate_scan.induct)
  case (1 fs c)
  show ?case
  proof (cases "c < 50000")
    case False
    then show ?thesis by (subst allocate_scan.simps) auto
  next
    case c: True
    show ?thesis
    proof (cases "fat_taken fs c")
      case False
      then have "\<not> (\<exists>x. allocate_scan fs c = Val (Inl x, fs'))"
        by (subst allocate_scan.simps)
           (auto simp: c rbind_Val_iff fat_taken_def split: run.splits if_splits)
      with False c show ?thesis by auto
    next
      case True
      then obtain v where v: "read_fat_entry fs c = Val v" "v \<noteq> 0"
        by (auto simp: fat_taken_def split: run.splits)
      have step: "allocate_scan fs c = allocate_scan fs (c + 1)"
        using c v by (subst allocate_scan.simps) simp
      have le: "c + 1 \<le> j \<longleftrightarrow> c \<le> j \<and> j \<noteq> c" for j
        using u32_Suc_le [OF c, of j] by (auto simp: not_less [symmetric])
      from "1.IH" [OF c v] show ?thesis
        unfolding step by (auto simp: le True)
    qed
  qed
qed

lemma unat_u16_u32: "unat (ucast w :: u32) = unat w" for w :: u16
  by (simp add: unsigned_ucast_eq take_bit_nat_eq_self_iff less_trans [OF unat_u16_bound])

lemma unat_u8_u32: "unat (ucast w :: u32) = unat w" for w :: u8
  by (simp add: unsigned_ucast_eq take_bit_nat_eq_self_iff less_trans [OF unat_u8_bound])

section \<open>A small volume\<close>

text \<open>
  A volume of ten sectors of 64 bytes: a boot sector, one FAT sector and four clusters of two
  sectors, 2 to 5, of which the root directory holds the first.
\<close>

definition tiny_boot :: "u8 list" where
  "tiny_boot = replicate 11 0 @ [64, 0, 2, 1, 0, 1] @ replicate 19 0 @ [1, 0, 0, 0] @ replicate 4 0
     @ [2, 0, 0, 0] @ replicate 16 0"

definition tiny_disk :: "u8 list" where
  "tiny_disk = tiny_boot
     @ [0xF8, 0xFF, 0xFF, 0x0F, 0xFF, 0xFF, 0xFF, 0x0F, 0xFF, 0xFF, 0xFF, 0x0F] @ replicate 52 0
     @ replicate 512 0"

definition tiny_fs :: Fat32FileSystem where
  "tiny_fs = the_val (fs_new tiny_disk)"

text \<open>The same volume with every one of its clusters taken.\<close>

definition full_fs :: Fat32FileSystem where
  "full_fs = tiny_fs\<lparr>disk := blit (disk tiny_fs) 76 (concat (replicate 3 [0xFF, 0xFF, 0xFF, 0x0F]))\<rparr>"

section \<open>Properties of the volume\<close>

text \<open>
  C27: Mounting succeeds exactly on an image that holds the boot sector's fields and whose data area
  starts below sector \<open>2^32\<close>; it keeps the image, and the data area starts right behind the
  FATs, with no wrap-around.
\<close>

theorem mount_layout:
  "let start = unat (u16_from_le_bytes (sub_list d 14 2))
         + unat (d ! 16) * unat (u32_from_le_bytes (sub_list d 36 4)) in
   case fs_new d of
     Panic _ \<Rightarrow> length d < 48 \<or> 2 ^ 32 \<le> start
   | Val fs \<Rightarrow> 48 \<le> length d \<and> start < 2 ^ 32 \<and> disk fs = d
       \<and> fat_sector fs \<le> data_sector fs \<and> unat (data_sector fs) = start
       \<and> root_cluster fs = u32_from_le_bytes (sub_list d 44 4)
       \<and> bps fs < 65536 \<and> spc fs < 256"
proof (cases "48 \<le> length d")
  case False
  have "returns (fs_new d) \<Longrightarrow> 48 \<le> length d"
    by (auto simp: returns_iff fs_new_def boot_read_u32_def rbind_Val_iff slice_Val Let_def)
  with False have "\<not> returns (fs_new d)" by blast
  with False show ?thesis by (cases "fs_new d") (simp_all add: Let_def)
next
  case True
  let ?r = "u16_from_le_bytes (sub_list d 14 2)" and ?n = "d ! 16"
    and ?z = "u32_from_le_bytes (sub_list d 36 4)"
  have u: "unat (ucast ?r :: u32) = unat ?r" "unat (ucast ?n :: u32) = unat ?n"
    "unat (ucast (u16_from_le_bytes (sub_list d 11 2)) :: u32) = unat (u16_from_le_bytes (sub_list d 11 2))"
    "unat (ucast (d ! 13) :: u32) = unat (d ! 13)"
    by (simp_all add: unat_u16_u32 unat_u8_u32)
  show ?thesis
  proof (cases "unat ?r + unat ?n * unat ?z < 2 ^ 32")
    case fits: True
    then have m: "unat (ucast ?n * ?z) = unat ?n * unat ?z" "u32_mul (ucast ?n) ?z = Val (ucast ?n * ?z)"
      using u by (simp_all add: unat_u32_mul u32_mul_Val)
    with fits have "unat (ucast ?r + ucast ?n * ?z) = unat ?r + unat ?n * unat ?z"
      "u32_add (ucast ?r) (ucast ?n * ?z) = Val (ucast ?r + ucast ?n * ?z)"
      using u by (simp_all add: unat_u32_add u32_add_Val)
    with m show ?thesis
      using True fits u by (simp add: fs_new_def boot_read_u16_def boot_read_u32_def slice_def index_def
          Let_def word_le_nat_alt)
  next
    case False
    then have "\<not> returns (fs_new d)"
      using u by (auto simp: returns_iff fs_new_def boot_read_u16_def boot_read_u32_def rbind_Val_iff
          slice_Val index_Val u32_mul_Val u32_add_Val unat_u32_mul Let_def sub_list_def)
    with False show ?thesis by (cases "fs_new d") (simp_all add: Let_def)
  qed
qed

text \<open>
  C22: Reading a cluster of a well-formed volume never panics and returns, in order, exactly the
  bytes of the cluster's sectors.
\<close>

theorem read_cluster_exact:
  assumes "wf_fs fs" and "valid_cluster fs c"
  shows "\<exists>data. read_cluster fs c = Val data \<and> length data = spc fs * bps fs
    \<and> (\<forall>k < length data. data ! k = disk fs ! (cluster_off fs c + k))"
  using assms valid_clusterD(2) [OF assms(2)]
  by (simp add: read_cluster_ok cluster_data_def length_sub_list nth_sub_list cluster_bytes_def)

theorem read_cluster_exact_witness:
  "\<exists>data. read_cluster tiny_fs 5 = Val data \<and> length data = spc tiny_fs * bps tiny_fs
    \<and> (\<forall>k < length data. data ! k = disk tiny_fs ! (cluster_off tiny_fs 5 + k))"
  by (rule read_cluster_exact) code_simp+

text \<open>
  C23: Writing a FAT entry of a well-formed volume never panics; it sets the entry to the low 28 bits
  of the value, keeps its four reserved bits, and changes no other entry, no byte of any cluster and
  not the size of the disk.
\<close>

theorem write_fat_entry_frame:
  assumes "wf_fs fs" and "valid_cluster fs c"
  shows "\<exists>fs'. write_fat_entry fs c v = Val fs' \<and> length (disk fs') = length (disk fs)
    \<and> fat_raw fs' c AND 0xF0000000 = fat_raw fs c AND 0xF0000000
    \<and> (\<forall>j. valid_cluster fs j \<longrightarrow>
         read_fat_entry fs' j = (if j = c then Val (v AND 0x0FFFFFFF) else read_fat_entry fs j)
         \<and> read_cluster fs' j = read_cluster fs j)"
  using assms by (simp add: write_fat_entry_ok read_fat_entry_ok read_cluster_ok fat_entry_update
      fat_raw_update mask_high_low cluster_data_fat_update)

theorem write_fat_entry_frame_witness:
  "\<exists>fs'. write_fat_entry tiny_fs 3 0xF0000005 = Val fs' \<and> length (disk fs') = length (disk tiny_fs)
    \<and> fat_raw fs' 3 AND 0xF0000000 = fat_raw tiny_fs 3 AND 0xF0000000
    \<and> (\<forall>j. valid_cluster tiny_fs j \<longrightarrow>
         read_fat_entry fs' j = (if j = 3 then Val (0xF0000005 AND 0x0FFFFFFF) else read_fat_entry tiny_fs j)
         \<and> read_cluster fs' j = read_cluster tiny_fs j)"
  by (rule write_fat_entry_frame) code_simp+

text \<open>
  C24: \<^verbatim>\<open>allocate_cluster\<close> returns a cluster exactly when it is the lowest one from 2 on whose entry
  is free, below 50000, and has then marked it as the end of a chain; it reports a full disk exactly
  when every entry from 2 to 49999 is taken, and has then changed nothing.
\<close>

theorem allocate_cluster_lowest:
  "(allocate_cluster fs = Val (Inr n, fs') \<longleftrightarrow>
      2 \<le> n \<and> n < 50000 \<and> (\<forall>j. 2 \<le> j \<longrightarrow> j < n \<longrightarrow> fat_taken fs j)
      \<and> read_fat_entry fs n = Val 0 \<and> write_fat_entry fs n 0x0FFFFFFF = Val fs')
   \<and> (allocate_cluster fs = Val (Inl e, fs') \<longleftrightarrow>
      e = DiskFull \<and> fs' = fs \<and> (\<forall>j. 2 \<le> j \<longrightarrow> j < 50000 \<longrightarrow> fat_taken fs j))"
  by (simp add: allocate_cluster_def allocate_scan_Inr allocate_scan_Inl)

theorem allocate_cluster_lowest_witness:
  "fat_taken tiny_fs 2 \<and> read_fat_entry tiny_fs 3 = Val 0"
proof -
  have "allocate_cluster tiny_fs = Val (Inr 3, snd (the_val (allocate_cluster tiny_fs)))" by code_simp
  with allocate_cluster_lowest [of tiny_fs 3 "snd (the_val (allocate_cluster tiny_fs))"]
  have "\<forall>j. 2 \<le> j \<longrightarrow> j < 3 \<longrightarrow> fat_taken tiny_fs j" "read_fat_entry tiny_fs 3 = Val 0" by blast+
  then show ?thesis by simp
qed

text \<open>A cluster that reaches beyond the end of the disk cannot be read.\<close>

lemma read_cluster_loop_reads:
  "read_cluster_loop fs s is d = Val x \<Longrightarrow> i \<in> set is \<Longrightarrow>
    \<exists>a y. u32_add s (of_nat i) = Val a \<and> read_sector fs a = Val y"
  by (induction "is" arbitrary: d) (auto simp: rbind_Val_iff)

lemma read_cluster_beyond:
  assumes "wf_fs fs" "length (disk fs) < cluster_off fs c + cluster_bytes fs"
  shows "\<not> returns (read_cluster fs c)"
proof
  assume "returns (read_cluster fs c)"
  then obtain s x where s: "start_sector fs c = Val s" and x: "read_cluster_loop fs s [0..<spc fs] [] = Val x"
    by (auto simp: returns_iff read_cluster_def rbind_Val_iff)
  from s have c: "2 \<le> c" "unat (c - 2) * spc fs < 2 ^ 32"
      "unat (data_sector fs) + unat ((c - 2) * sectors_per_cluster fs) < 2 ^ 32"
      "s = data_sector fs + (c - 2) * sectors_per_cluster fs"
    by (auto simp: start_sector_def rbind_Val_iff u32_sub_Val u32_mul_Val u32_add_Val)
  then have "unat s = unat (data_sector fs) + (unat c - 2) * spc fs"
    by (simp add: unat_u32_add unat_u32_mul unat_u32_sub)
  then have off: "unat s * bps fs = cluster_off fs c" by (simp add: cluster_off_def)
  have "spc fs - 1 \<in> set [0..<spc fs]" using wf_fsD(3) [OF assms(1)] by simp
  from read_cluster_loop_reads [OF x this] obtain a y where
    a: "u32_add s (of_nat (spc fs - 1)) = Val a" and y: "read_sector fs a = Val y" by blast
  have "spc fs - 1 < 2 ^ 32" using unat_u32_bound [of "sectors_per_cluster fs"] by (simp add: less_imp_diff_less)
  then have "unat (of_nat (spc fs - 1) :: u32) = spc fs - 1" by (rule unat_u32_of_nat)
  with a have "unat a = unat s + (spc fs - 1)" by (auto simp: u32_add_Val unat_u32_add)
  moreover from y have "unat a * bps fs + bps fs \<le> length (disk fs)"
    by (auto simp: read_sector_def rbind_Val_iff u32_mul_Val unat_u32_mul Let_def split: if_splits)
  ultimately have "(unat s + spc fs) * bps fs \<le> length (disk fs)"
    using wf_fsD(3) [OF assms(1)] by (simp add: algebra_simps flip: mult_Suc)
  with off assms(2) show False by (simp add: cluster_bytes_def algebra_simps)
qed

text \<open>
  C37: When every cluster of a volume is taken and the FAT has room for an entry below 50000 that is
  zero, the allocator does not report a full disk: it hands out a cluster that reaches beyond the end
  of the disk, and reading that cluster panics.
\<close>

theorem allocate_cluster_beyond_volume:
  assumes "wf_fs fs" "\<And>c. valid_cluster fs c \<Longrightarrow> fat_entry fs c \<noteq> 0"
    and "2 \<le> j" "j < 50000" "fat_room fs j" "fat_entry fs j = 0"
  shows "\<exists>n fs'. n \<le> j \<and> allocate_cluster fs = Val (Inr n, fs')
    \<and> length (disk fs) < cluster_off fs n + cluster_bytes fs \<and> \<not> returns (read_cluster fs' n)"
proof -
  define n where "n = (LEAST k. 2 \<le> k \<and> fat_entry fs k = 0)"
  have n: "2 \<le> n" "fat_entry fs n = 0" "n \<le> j"
    using LeastI [of "\<lambda>k. 2 \<le> k \<and> fat_entry fs k = 0" j] Least_le [of "\<lambda>k. 2 \<le> k \<and> fat_entry fs k = 0" j]
      assms(3,6) by (simp_all add: n_def)
  have room: "fat_room fs k" if "k \<le> n" for k using fat_room_mono [OF assms(5)] that n(3) by (meson order_trans)
  have "fat_taken fs k" if "2 \<le> k" "k < n" for k
    using not_less_Least [OF that(2) [unfolded n_def]] that(1) room [of k] that(2) assms(1)
    by (simp add: fat_taken_def read_fat_entry_room)
  moreover have rd: "read_fat_entry fs n = Val 0" "write_fat_entry fs n 0x0FFFFFFF = Val (fs\<lparr>disk := fat_blit fs n 0x0FFFFFFF\<rparr>)"
    using assms(1) room [of n] n(2) by (simp_all add: read_fat_entry_room write_fat_entry_room)
  ultimately have al: "allocate_cluster fs = Val (Inr n, fs\<lparr>disk := fat_blit fs n 0x0FFFFFFF\<rparr>)"
    using n(1,3) assms(4) by (auto simp: allocate_cluster_def allocate_scan_Inr)
  have beyond: "length (disk fs) < cluster_off fs n + cluster_bytes fs"
    using assms(2) [of n] n(1,2) room [of n] by (simp add: valid_cluster_def fat_room_def not_le [symmetric]) blast
  have "length (fat_blit fs n 0x0FFFFFFF) = length (disk fs)"
    using room [of n] by (simp add: fat_blit_def fat_room_def)
  with read_cluster_beyond [of "fs\<lparr>disk := fat_blit fs n 0x0FFFFFFF\<rparr>" n] beyond assms(1)
  have "\<not> returns (read_cluster (fs\<lparr>disk := fat_blit fs n 0x0FFFFFFF\<rparr>) n)" by simp
  with al beyond n(3) show ?thesis by blast
qed

lemma full_fs_clusters: "valid_cluster full_fs c \<Longrightarrow> fat_entry full_fs c \<noteq> 0"
proof -
  assume v: "valid_cluster full_fs c"
  have g: "bps full_fs = 64" "spc full_fs = 2" "unat (data_sector full_fs) = 2" "length (disk full_fs) = 640"
    by code_simp+
  then have "unat c < 6" using v by (simp add: valid_cluster_def cluster_off_def cluster_bytes_def) linarith
  moreover have "2 \<le> unat c" using v by (rule valid_clusterD)
  ultimately have "unat c \<in> {2, 3, 4, 5}" by auto
  then have "c = of_nat 2 \<or> c = of_nat 3 \<or> c = of_nat 4 \<or> c = of_nat 5"
    by (auto simp: word_unat_eq_iff)
  moreover have "fat_entry full_fs (of_nat 2) \<noteq> 0 \<and> fat_entry full_fs (of_nat 3) \<noteq> 0
    \<and> fat_entry full_fs (of_nat 4) \<noteq> 0 \<and> fat_entry full_fs (of_nat 5) \<noteq> 0" by code_simp
  ultimately show ?thesis by auto
qed

theorem allocate_cluster_beyond_volume_witness:
  "\<exists>n fs'. n \<le> 6 \<and> allocate_cluster full_fs = Val (Inr n, fs')
    \<and> length (disk full_fs) < cluster_off full_fs n + cluster_bytes full_fs \<and> \<not> returns (read_cluster fs' n)"
proof (rule allocate_cluster_beyond_volume [OF _ full_fs_clusters])
  show "wf_fs full_fs" "(2 :: u32) \<le> 6" "(6 :: u32) < 50000" "fat_room full_fs 6" "fat_entry full_fs 6 = 0"
    by code_simp+
qed

end
