(* ===== verification/Dir_Entry.thy ===== *)
theory Dir_Entry
  imports Volume
begin

text \<open>
  Directory entries: the 32-byte on-disk layouts (\<^verbatim>\<open>FatDir\<close>, \<^verbatim>\<open>LongFileName\<close>), short and long
  names, and the listing of a directory cluster (\<^verbatim>\<open>list_directory_entries\<close> and the functions it
  calls), from \<^verbatim>\<open>src/src/file_system.rs\<close>.
\<close>

section \<open>Layouts\<close>

record FatDir =
  dir_name :: "u8 list"
  dir_attr :: u8
  first_cluster_high :: u16
  first_cluster_low :: u16
  dir_size :: u32

datatype DirOffsets = Dir_Name | Dir_Attr | FstClusHI | FstClusLO | FileSize

primrec dir_offset :: "DirOffsets \<Rightarrow> nat" where
  "dir_offset Dir_Name = 0"
| "dir_offset Dir_Attr = 11"
| "dir_offset FstClusHI = 20"
| "dir_offset FstClusLO = 26"
| "dir_offset FileSize = 28"

definition dir_read_u16 :: "u8 list \<Rightarrow> DirOffsets \<Rightarrow> u16 run" where
  "dir_read_u16 data off =
     (let p = dir_offset off in rbind (slice data p (p + 2)) (\<lambda>b. Val (u16_from_le_bytes b)))"

definition dir_read_u32 :: "u8 list \<Rightarrow> DirOffsets \<Rightarrow> u32 run" where
  "dir_read_u32 data off =
     (let p = dir_offset off in rbind (slice data p (p + 4)) (\<lambda>b. Val (u32_from_le_bytes b)))"

definition FatDir_new :: "u8 list \<Rightarrow> FatDir run" where
  "FatDir_new data =
     rbind (slice data (dir_offset Dir_Name) (dir_offset Dir_Name + 11)) (\<lambda>name.
     rbind (index data (dir_offset Dir_Attr)) (\<lambda>attr.
     rbind (dir_read_u16 data FstClusHI) (\<lambda>high.
     rbind (dir_read_u16 data FstClusLO) (\<lambda>low.
     rbind (dir_read_u32 data FileSize) (\<lambda>sz.
     Val \<lparr> dir_name = name, dir_attr = attr, first_cluster_high = high,
           first_cluster_low = low, dir_size = sz \<rparr>)))))"

record LongFileName =
  seq_num :: u8
  name_1 :: "u8 list"
  lfn_attr :: u8
  l_type :: u8
  chksum :: u8
  name_2 :: "u8 list"
  reserved_fch :: u16
  name_3 :: "u8 list"

datatype LfnOffsets =
  Lfn_Ord | Lfn_Name1 | Lfn_Attr | Lfn_LType | Lfn_ChkSum | Lfn_Name2 | Lfn_ReservedFCH | Lfn_Name3

primrec lfn_offset :: "LfnOffsets \<Rightarrow> nat" where
  "lfn_offset Lfn_Ord = 0"
| "lfn_offset Lfn_Name1 = 1"
| "lfn_offset Lfn_Attr = 11"
| "lfn_offset Lfn_LType = 12"
| "lfn_offset Lfn_ChkSum = 13"
| "lfn_offset Lfn_Name2 = 14"
| "lfn_offset Lfn_ReservedFCH = 26"
| "lfn_offset Lfn_Name3 = 28"

definition LongFileName_new :: "u8 list \<Rightarrow> LongFileName run" where
  "LongFileName_new data =
     rbind (index data (lfn_offset Lfn_Ord)) (\<lambda>ord.
     rbind (index data (lfn_offset Lfn_Attr)) (\<lambda>attr.
     rbind (index data (lfn_offset Lfn_LType)) (\<lambda>ltype.
     rbind (index data (lfn_offset Lfn_ChkSum)) (\<lambda>chk.
     rbind (slice data (lfn_offset Lfn_Name1) (lfn_offset Lfn_Name1 + 10)) (\<lambda>n1.
     rbind (slice data (lfn_offset Lfn_Name2) (lfn_offset Lfn_Name2 + 12)) (\<lambda>n2.
     rbind (slice data (lfn_offset Lfn_Name3) (lfn_offset Lfn_Name3 + 4)) (\<lambda>n3.
     rbind (slice data (lfn_offset Lfn_ReservedFCH) (lfn_offset Lfn_ReservedFCH + 2)) (\<lambda>r.
     Val \<lparr> seq_num = ord, name_1 = n1, lfn_attr = attr, l_type = ltype, chksum = chk,
           name_2 = n2, reserved_fch = u16_from_le_bytes r, name_3 = n3 \<rparr>))))))))"

record FileInfo =
  fi_name :: str
  is_directory :: bool
  fi_size :: u32
  start_cluster :: u32

definition FileInfo_new :: "str \<Rightarrow> bool \<Rightarrow> u32 \<Rightarrow> u32 \<Rightarrow> FileInfo" where
  "FileInfo_new nm dir sz start =
     \<lparr> fi_name = nm, is_directory = dir, fi_size = sz, start_cluster = start \<rparr>"

section \<open>Short names\<close>

definition lfn_checksum :: "u8 list \<Rightarrow> u8" where
  "lfn_checksum short_name =
     foldl (\<lambda>sum b. drop_bit 1 sum + push_bit 7 (sum AND 1) + b) 0 short_name"

text \<open>\<^verbatim>\<open>while end > 0 && part[end - 1] == b' ' { end -= 1 }\<close>.\<close>

fun trim_end :: "u8 list \<Rightarrow> nat \<Rightarrow> nat" where
  "trim_end part 0 = 0"
| "trim_end part (Suc n) = (if part ! n = 0x20 then trim_end part n else Suc n)"

definition trimmed_part :: "u8 list \<Rightarrow> str" where
  "trimmed_part part =
     (case from_utf8 (take (trim_end part (length part)) part) of Some s \<Rightarrow> s | None \<Rightarrow> [])"

definition short_name_to_string :: "u8 list \<Rightarrow> str" where
  "short_name_to_string name11 =
     (let name_str = trimmed_part (sub_list name11 0 8);
          ext_str = trimmed_part (sub_list name11 8 3) in
      if ext_str = [] then name_str else name_str @ [0x2E] @ ext_str)"

definition format_to_8_3 :: "upper_table \<Rightarrow> str \<Rightarrow> u8 list result" where
  "format_to_8_3 uc nm =
     (let parts = str_split 0x2E nm in
      if parts = [] \<or> hd parts = [] then Inl InvalidName
      else
        let name_bytes = to_uppercase uc (parts ! 0);
            name_len = min (length name_bytes) 8;
            res = blit (replicate 11 0x20) 0 (take name_len name_bytes) in
        if 1 < length parts then
          let ext_bytes = to_uppercase uc (parts ! 1);
              ext_len = min (length ext_bytes) 3 in
          Inr (blit res 8 (take ext_len ext_bytes))
        else Inr res)"

section \<open>Long names\<close>

definition byte_to_u16_vec :: "u8 list \<Rightarrow> u16 list" where
  "byte_to_u16_vec fragment = map u16_from_le_bytes (chunks_exact 2 fragment)"

type_synonym LfnFragments = "(u8 \<times> u16 list) list"

text \<open>Replace the fragment with this sequence number, or push it at the end.\<close>

primrec upsert_fragment :: "u8 \<Rightarrow> u16 list \<Rightarrow> LfnFragments \<Rightarrow> LfnFragments" where
  "upsert_fragment sq frag [] = [(sq, frag)]"
| "upsert_fragment sq frag (p # ps) =
     (if fst p = sq then (fst p, frag) # ps else p # upsert_fragment sq frag ps)"

definition process_lfn_entry ::
    "u8 list \<Rightarrow> LfnFragments \<Rightarrow> u8 option \<Rightarrow> (LfnFragments \<times> u8 option) run" where
  "process_lfn_entry entry_chunk lfn_fragments expected_checksum =
     rbind (LongFileName_new entry_chunk) (\<lambda>lfn_entry.
     let sq = seq_num lfn_entry AND 0x1F;
         is_last = (seq_num lfn_entry AND 0x40 \<noteq> 0);
         frags = (if is_last then [] else lfn_fragments);
         expected = (if is_last then Some (chksum lfn_entry) else expected_checksum);
         fragment_data = byte_to_u16_vec (name_1 lfn_entry) @ byte_to_u16_vec (name_2 lfn_entry)
           @ byte_to_u16_vec (name_3 lfn_entry) in
     Val (upsert_fragment sq fragment_data frags, expected))"

text \<open>The characters of one fragment: stop at \<open>0x0000\<close>, skip \<open>0xFFFF\<close>.\<close>

primrec fragment_chars :: "u16 list \<Rightarrow> u16 list" where
  "fragment_chars [] = []"
| "fragment_chars (ch # r) =
     (if ch = 0x0000 then [] else if ch = 0xFFFF then fragment_chars r else ch # fragment_chars r)"

definition assemble_lfn :: "LfnFragments \<Rightarrow> str option" where
  "assemble_lfn lfn_fragments =
     (if lfn_fragments = [] then None
      else
        let frags = sort_key fst lfn_fragments in
        from_utf16 (concat (map (\<lambda>p. fragment_chars (snd p)) frags)))"

definition process_data_entry ::
    "u8 list \<Rightarrow> LfnFragments \<Rightarrow> u8 option \<Rightarrow> u8 \<Rightarrow> (FileInfo option \<times> LfnFragments) run" where
  "process_data_entry entry_chunk lfn_fragments expected_checksum attr_directory_mask =
     rbind (FatDir_new entry_chunk) (\<lambda>dir_entry.
     if dir_attr dir_entry AND 0x08 \<noteq> 0 then Val (None, lfn_fragments)
     else
       let start = push_bit 16 (ucast (first_cluster_high dir_entry) :: u32)
                     OR ucast (first_cluster_low dir_entry);
           is_dir = (dir_attr dir_entry AND attr_directory_mask \<noteq> 0);
           matching = (expected_checksum = Some (lfn_checksum (dir_name dir_entry)));
           name_to_use = (if lfn_fragments \<noteq> [] \<and> matching then assemble_lfn lfn_fragments else None);
           frags = (if lfn_fragments \<noteq> [] \<and> \<not> matching then [] else lfn_fragments);
           nm = (case name_to_use of Some s \<Rightarrow> s | None \<Rightarrow> short_name_to_string (dir_name dir_entry)) in
       Val (Some (FileInfo_new nm is_dir (dir_size dir_entry) start), frags))"

section \<open>Listing a directory\<close>

primrec list_entries_loop ::
    "u8 list list \<Rightarrow> LfnFragments \<Rightarrow> u8 option \<Rightarrow> FileInfo list \<Rightarrow> FileInfo list run" where
  "list_entries_loop [] lfn_fragments expected_checksum results = Val results"
| "list_entries_loop (entry_chunk # chunks) lfn_fragments expected_checksum results =
     rbind (index entry_chunk 0) (\<lambda>first_byte.
     rbind (index entry_chunk 11) (\<lambda>attributes.
     if first_byte = 0x00 then Val results
     else if first_byte = 0xE5 then list_entries_loop chunks [] None results
     else if attributes = 0x0F then
       rbind (process_lfn_entry entry_chunk lfn_fragments expected_checksum) (\<lambda>st.
       list_entries_loop chunks (fst st) (snd st) results)
     else
       rbind (process_data_entry entry_chunk lfn_fragments expected_checksum 0x10) (\<lambda>st.
       list_entries_loop chunks [] None
         (case fst st of Some file_info \<Rightarrow> results @ [file_info] | None \<Rightarrow> results))))"

definition list_directory_entries :: "Fat32FileSystem \<Rightarrow> u32 \<Rightarrow> FileInfo list run" where
  "list_directory_entries fs cluster_id =
     rbind (read_cluster fs cluster_id) (\<lambda>cluster_data.
     list_entries_loop (chunks_exact 32 cluster_data) [] None [])"

definition list_files_names :: "FileInfo list \<Rightarrow> str list" where
  "list_files_names files = map fi_name files"

section \<open>Entries of 32 bytes never panic\<close>

lemma FatDir_new_ok:
  "length c = 32 \<Longrightarrow> FatDir_new c =
     Val \<lparr> dir_name = sub_list c 0 11, dir_attr = c ! 11,
           first_cluster_high = u16_from_le_bytes (sub_list c 20 2),
           first_cluster_low = u16_from_le_bytes (sub_list c 26 2),
           dir_size = u32_from_le_bytes (sub_list c 28 4) \<rparr>"
  by (simp add: FatDir_new_def dir_read_u16_def dir_read_u32_def slice_def index_def)

lemma LongFileName_new_ok:
  "length c = 32 \<Longrightarrow> LongFileName_new c =
     Val \<lparr> seq_num = c ! 0, name_1 = sub_list c 1 10, lfn_attr = c ! 11, l_type = c ! 12,
           chksum = c ! 13, name_2 = sub_list c 14 12,
           reserved_fch = u16_from_le_bytes (sub_list c 26 2), name_3 = sub_list c 28 4 \<rparr>"
  by (simp add: LongFileName_new_def slice_def index_def)

text \<open>
  The specification of a scan: what \<^verbatim>\<open>list_directory_entries\<close> does to the pending long-name
  fragments and which file, if any, each entry contributes.
\<close>

type_synonym scan_st = "LfnFragments \<times> u8 option"

definition entry_files :: "u8 list \<Rightarrow> scan_st \<Rightarrow> FileInfo list" where
  "entry_files c st =
     (if c ! 0 = 0xE5 \<or> c ! 11 = 0x0F then []
      else (case fst (the_val (process_data_entry c (fst st) (snd st) 0x10)) of
              Some f \<Rightarrow> [f] | None \<Rightarrow> []))"

definition entry_state :: "u8 list \<Rightarrow> scan_st \<Rightarrow> scan_st" where
  "entry_state c st =
     (if c ! 0 \<noteq> 0xE5 \<and> c ! 11 = 0x0F
      then the_val (process_lfn_entry c (fst st) (snd st)) else ([], None))"

primrec dir_scan :: "u8 list list \<Rightarrow> scan_st \<Rightarrow> FileInfo list" where
  "dir_scan [] st = []"
| "dir_scan (c # cs) st =
     (if c ! 0 = 0x00 then [] else entry_files c st @ dir_scan cs (entry_state c st))"

definition dir_listing :: "Fat32FileSystem \<Rightarrow> u32 \<Rightarrow> FileInfo list" where
  "dir_listing fs c = dir_scan (chunks_exact 32 (cluster_data fs c)) ([], None)"

lemma process_lfn_entry_returns: "length c = 32 \<Longrightarrow> returns (process_lfn_entry c fr ex)"
  by (simp add: process_lfn_entry_def LongFileName_new_ok Let_def)

lemma process_data_entry_returns: "length c = 32 \<Longrightarrow> returns (process_data_entry c fr ex m)"
  by (simp add: process_data_entry_def FatDir_new_ok Let_def)

lemma list_entries_loop_scan:
  "\<forall>c \<in> set chunks. length c = 32 \<Longrightarrow>
   list_entries_loop chunks fr ex res = Val (res @ dir_scan chunks (fr, ex))"
proof (induction chunks arbitrary: fr ex res)
  case Nil
  then show ?case by simp
next
  case (Cons c cs)
  then have len: "length c = 32" and IH: "\<And>fr ex res.
      list_entries_loop cs fr ex res = Val (res @ dir_scan cs (fr, ex))"
    by auto
  obtain st where st: "process_lfn_entry c fr ex = Val st"
    using process_lfn_entry_returns [OF len] unfolding returns_iff by blast
  obtain pd where pd: "process_data_entry c fr ex 0x10 = Val pd"
    using process_data_entry_returns [OF len] unfolding returns_iff by blast
  show ?case
    by (auto simp: index_def len IH st pd entry_files_def entry_state_def split: option.splits)
qed

text \<open>Listing a valid cluster returns, and returns the scan of its entries.\<close>

lemma list_directory_entries_ok [vol_simps]:
  assumes "wf_fs fs" and "valid_cluster fs c"
  shows "list_directory_entries fs c = Val (dir_listing fs c)"
  using assms
  by (simp add: list_directory_entries_def read_cluster_ok list_entries_loop_scan length_chunk
      dir_listing_def)

section \<open>Scanning a directory piecewise\<close>

primrec scan_state :: "u8 list list \<Rightarrow> scan_st \<Rightarrow> scan_st" where
  "scan_state [] st = st"
| "scan_state (c # cs) st = scan_state cs (entry_state c st)"

lemma dir_scan_append:
  "\<forall>c \<in> set xs. c ! 0 \<noteq> 0x00 \<Longrightarrow>
   dir_scan (xs @ ys) st = dir_scan xs st @ dir_scan ys (scan_state xs st)"
  by (induction xs arbitrary: st) auto

lemma dir_scan_end: "\<forall>c \<in> set cs. c ! 0 = 0x00 \<Longrightarrow> dir_scan cs st = []"
  by (cases cs) auto

section \<open>Short names round trip\<close>

lemma trim_end_padded:
  "xs = [] \<or> last xs \<noteq> 0x20 \<Longrightarrow> trim_end (xs @ replicate k 0x20) (length xs + k) = length xs"
proof (induction k)
  case 0
  then show ?case by (cases xs rule: rev_cases) (auto simp: nth_append)
next
  case (Suc k)
  have eq: "xs @ replicate (Suc k) 0x20 = (xs @ replicate k 0x20) @ [0x20]"
    by (simp add: replicate_append_same)
  have snoc: "trim_end (ys @ [b]) n = trim_end ys n" if "n \<le> length ys" for ys b n
    using that by (induction n) (auto simp: nth_append)
  from Suc snoc [of "length xs + k" "xs @ replicate k 0x20" "0x20"] show ?case
    unfolding eq by (simp add: nth_append)
qed

text \<open>The name field of a short name: upper-case bytes padded with spaces.\<close>

lemma trimmed_part_padded:
  assumes "\<forall>b \<in> set xs. b < 0x80" and "xs = [] \<or> last xs \<noteq> 0x20"
  shows "trimmed_part (xs @ replicate k 0x20) = xs"
  using assms trim_end_padded [of xs k]
  by (simp add: trimmed_part_def from_utf8_def utf8_valid_ascii)

definition pad_to :: "nat \<Rightarrow> u8 list \<Rightarrow> u8 list" where
  "pad_to n xs = take n xs @ replicate (n - length xs) 0x20"

lemma length_pad_to [simp]: "length (pad_to n xs) = n"
  by (simp add: pad_to_def)

lemma blit_padded_name:
  "blit (replicate 11 0x20) 0 (take (min (length xs) 8) xs) = pad_to 8 xs @ replicate 3 0x20"
  by (auto simp: blit_def pad_to_def min_def simp flip: replicate_add)

lemma blit_padded_ext:
  "blit (pad_to 8 xs @ replicate 3 0x20) 8 (take (min (length ys) 3) ys) = pad_to 8 xs @ pad_to 3 ys"
  by (auto simp: blit_def pad_to_def [of 3] min_def)

text \<open>What \<^verbatim>\<open>format_to_8_3\<close> computes: the first two dot-separated parts, upper-cased, cut and padded.\<close>

lemma format_to_8_3_eq:
  "format_to_8_3 uc nm =
     (if hd (str_split 0x2E nm) = [] then Inl InvalidName
      else Inr (pad_to 8 (to_uppercase uc (hd (str_split 0x2E nm)))
        @ (if 1 < length (str_split 0x2E nm) then pad_to 3 (to_uppercase uc (str_split 0x2E nm ! 1))
           else replicate 3 0x20)))"
  by (simp add: format_to_8_3_def Let_def blit_padded_name blit_padded_ext hd_conv_nth)

lemma ascii_upper_eq_iff: "c < 65 \<Longrightarrow> ascii_upper b = c \<longleftrightarrow> b = c"
  by (auto simp: ascii_upper_def word_less_nat_alt word_le_nat_alt word_unat_eq_iff unat_sub)

lemma short_name_of_padded:
  assumes "\<forall>b \<in> set xs \<union> set ys. b < 0x80" "length xs \<le> 8" "length ys \<le> 3"
    and "xs = [] \<or> last xs \<noteq> 0x20" "ys = [] \<or> last ys \<noteq> 0x20"
  shows "short_name_to_string (pad_to 8 xs @ pad_to 3 ys) = (if ys = [] then xs else xs @ 0x2E # ys)"
proof -
  have p: "pad_to 8 xs = xs @ replicate (8 - length xs) 0x20"
    "pad_to 3 ys = ys @ replicate (3 - length ys) 0x20"
    using assms(2,3) by (simp_all add: pad_to_def)
  have "sub_list (pad_to 8 xs @ pad_to 3 ys) 0 8 = pad_to 8 xs"
    "sub_list (pad_to 8 xs @ pad_to 3 ys) 8 3 = pad_to 3 ys"
    by (simp_all add: sub_list_def)
  moreover have "trimmed_part (pad_to 8 xs) = xs" "trimmed_part (pad_to 3 ys) = ys"
    unfolding p using assms by (auto intro!: trimmed_part_padded)
  ultimately show ?thesis by (simp add: short_name_to_string_def Let_def)
qed

definition name_83 :: "str \<Rightarrow> str \<Rightarrow> bool" where
  "name_83 base ext \<longleftrightarrow>
     base \<noteq> [] \<and> length base \<le> 8 \<and> length ext \<le> 3
     \<and> list_all (\<lambda>b. b < 0x80 \<and> b \<noteq> 0x2E) (base @ ext)
     \<and> last base \<noteq> 0x20 \<and> (ext = [] \<or> last ext \<noteq> 0x20)"

lemma short_name_round_trip:
  assumes "name_83 base ext"
  defines "nm \<equiv> (if ext = [] then base else base @ 0x2E # ext)"
  shows "\<exists>sn. format_to_8_3 uc nm = Inr sn \<and> length sn = 11
    \<and> short_name_to_string sn = map ascii_upper nm"
proof -
  have b: "base \<noteq> []" "length base \<le> 8" "length ext \<le> 3" "0x2E \<notin> set base" "0x2E \<notin> set ext"
      "\<forall>b \<in> set base \<union> set ext. b < 0x80" "last base \<noteq> 0x20" "ext = [] \<or> last ext \<noteq> 0x20"
    using assms(1) by (auto simp: name_83_def list_all_iff)
  let ?x = "map ascii_upper base" and ?y = "map ascii_upper ext"
  have sp: "str_split 0x2E nm = (if ext = [] then [base] else [base, ext])"
    using b(4,5) by (simp add: nm_def str_split_no_sep str_split_append)
  have up: "to_uppercase uc base = ?x" "to_uppercase uc ext = ?y"
    using b(6) by (simp_all add: to_uppercase_ascii)
  have "replicate 3 0x20 = pad_to 3 []" by (simp add: pad_to_def)
  then have f: "format_to_8_3 uc nm = Inr (pad_to 8 ?x @ pad_to 3 ?y)"
    using b(1) by (auto simp: format_to_8_3_eq sp up)
  have "short_name_to_string (pad_to 8 ?x @ pad_to 3 ?y) = (if ?y = [] then ?x else ?x @ 0x2E # ?y)"
    using b by (intro short_name_of_padded)
      (auto simp: last_map ascii_upper_eq_iff intro: ascii_upper_ascii)
  also have "\<dots> = map ascii_upper nm" by (simp add: nm_def ascii_upper_def)
  finally show ?thesis using f by simp
qed

section \<open>Long names round trip\<close>

text \<open>
  How a long name is stored, by the FAT specification: the UTF-16 name in pieces of thirteen
  characters, the last one closed by \<open>0x0000\<close> and filled with \<open>0xFFFF\<close>; the entries in reverse
  order, numbered from one, the first of them marked with \<open>0x40\<close>, each with the checksum of the
  short name.
\<close>

definition u16s_bytes :: "u16 list \<Rightarrow> u8 list" where
  "u16s_bytes ws = concat (map u16_to_le_bytes ws)"

definition lfn_chunk :: "u8 \<Rightarrow> u8 \<Rightarrow> u16 list \<Rightarrow> u8 list" where
  "lfn_chunk ord chk piece =
     [ord] @ u16s_bytes (take 5 piece) @ [0x0F, 0, chk] @ u16s_bytes (take 6 (drop 5 piece))
       @ [0, 0] @ u16s_bytes (drop 11 piece)"

primrec lfn_numbered :: "u8 \<Rightarrow> u16 list list \<Rightarrow> (u8 \<times> u16 list) list" where
  "lfn_numbered k [] = []"
| "lfn_numbered k (p # ps) = (k, p) # lfn_numbered (k + 1) ps"

definition lfn_entries :: "u8 \<Rightarrow> u16 list list \<Rightarrow> u8 list list" where
  "lfn_entries chk ps =
     (case rev (lfn_numbered 1 ps) of
        [] \<Rightarrow> []
      | (n, p) # rest \<Rightarrow> lfn_chunk (n OR 0x40) chk p # map (\<lambda>(k, q). lfn_chunk k chk q) rest)"

function lfn_pieces :: "u16 list \<Rightarrow> u16 list list" where
  "lfn_pieces nm =
     (if nm = [] then []
      else if length nm < 13 then [nm @ 0x0000 # replicate (12 - length nm) 0xFFFF]
      else take 13 nm # lfn_pieces (drop 13 nm))"
  by pat_completeness auto
termination
  by (relation "measure length") auto

declare lfn_pieces.simps [simp del]

lemma byte_to_u16_vec_bytes [simp]: "byte_to_u16_vec (u16s_bytes ws) = ws"
proof (induction ws)
  case Nil
  then show ?case by (simp add: byte_to_u16_vec_def u16s_bytes_def chunks_exact.simps)
next
  case (Cons w ws)
  have "chunks_exact 2 (u16_to_le_bytes w @ r) = u16_to_le_bytes w # chunks_exact 2 r" for r
    by (subst chunks_exact.simps) simp
  with Cons show ?case by (simp add: byte_to_u16_vec_def u16s_bytes_def)
qed

lemma length_u16s_bytes [simp]: "length (u16s_bytes ws) = 2 * length ws"
  by (induction ws) (auto simp: u16s_bytes_def)

lemma LongFileName_lfn_chunk:
  assumes "length piece = 13"
  shows "LongFileName_new (lfn_chunk ord chk piece) =
    Val \<lparr> seq_num = ord, name_1 = u16s_bytes (take 5 piece), lfn_attr = 0x0F, l_type = 0,
          chksum = chk, name_2 = u16s_bytes (take 6 (drop 5 piece)), reserved_fch = 0,
          name_3 = u16s_bytes (drop 11 piece) \<rparr>"
proof -
  have "length (lfn_chunk ord chk piece) = 32" using assms by (simp add: lfn_chunk_def)
  moreover have "u16_from_le_bytes [0, 0] = 0" by (simp add: u16_from_le_bytes_def)
  ultimately show ?thesis
    using assms by (simp add: LongFileName_new_ok lfn_chunk_def sub_list_def nth_append)
qed

lemma lfn_chunk_length [simp]: "length piece = 13 \<Longrightarrow> length (lfn_chunk ord chk piece) = 32"
  by (simp add: lfn_chunk_def)

lemma lfn_chunk_bytes [simp]:
  "lfn_chunk ord chk piece ! 0 = ord"
  "length piece = 13 \<Longrightarrow> lfn_chunk ord chk piece ! 11 = 0x0F"
  by (simp_all add: lfn_chunk_def nth_append)

lemma pieces_13: "take 5 piece @ take 6 (drop 5 piece) @ drop 11 piece = piece"
proof -
  have "take 6 (drop 5 piece) @ drop 11 piece = drop 5 piece"
    using append_take_drop_id [of 6 "drop 5 piece"] by (simp del: append_take_drop_id)
  then show ?thesis by simp
qed

lemma process_lfn_chunk:
  "length piece = 13 \<Longrightarrow>
   process_lfn_entry (lfn_chunk ord chk piece) fr ex =
     Val (upsert_fragment (ord AND 0x1F) piece (if ord AND 0x40 \<noteq> 0 then [] else fr),
          if ord AND 0x40 \<noteq> 0 then Some chk else ex)"
  using pieces_13 [of piece]
  by (simp add: process_lfn_entry_def LongFileName_lfn_chunk Let_def)

text \<open>Sequence numbers up to 31 survive the mask and never look like a deleted or free entry.\<close>

definition seq_ok :: "u8 \<Rightarrow> bool" where
  "seq_ok k \<longleftrightarrow> k AND 0x1F = k \<and> k AND 0x40 = 0 \<and> k \<noteq> 0 \<and> k \<noteq> 0xE5
     \<and> (k OR 0x40) AND 0x1F = k \<and> (k OR 0x40) AND 0x40 \<noteq> 0 \<and> k OR 0x40 \<noteq> 0 \<and> k OR 0x40 \<noteq> 0xE5"

lemma seq_ok_upto: "1 \<le> n \<Longrightarrow> n \<le> 31 \<Longrightarrow> seq_ok (of_nat n)"
proof -
  have "list_all (\<lambda>n. seq_ok (of_nat n)) [1..<32]" by code_simp
  then show "1 \<le> n \<Longrightarrow> n \<le> 31 \<Longrightarrow> seq_ok (of_nat n)" by (simp add: list_all_iff)
qed

lemma length_lfn_numbered [simp]: "length (lfn_numbered k ps) = length ps"
  by (induction ps arbitrary: k) auto

lemma nth_lfn_numbered: "i < length ps \<Longrightarrow> lfn_numbered k ps ! i = (k + of_nat i, ps ! i)"
  by (induction ps arbitrary: k i) (auto simp: nth_Cons algebra_simps split: nat.splits)

lemma numbered_seq_ok:
  assumes "length ps \<le> 31" and "kq \<in> set (lfn_numbered 1 ps)"
  shows "seq_ok (fst kq)" "snd kq \<in> set ps"
proof -
  obtain i where i: "i < length ps" "kq = (1 + of_nat i, ps ! i)"
    using assms(2) by (auto simp: in_set_conv_nth nth_lfn_numbered)
  then show "seq_ok (fst kq)" "snd kq \<in> set ps"
    using seq_ok_upto [of "Suc i"] assms(1) by auto
qed

lemma unat_small_u8: "n < 256 \<Longrightarrow> unat (of_nat n :: u8) = n"
  by (simp add: unat_of_nat take_bit_nat_eq_self_iff)

lemma sorted_numbered:
  assumes "length ps \<le> 31"
  shows "sorted_wrt (\<lambda>x y. fst x < fst y) (lfn_numbered 1 ps)"
proof (rule sorted_wrt_iff_nth_less [THEN iffD2], intro allI impI)
  fix i j assume ij: "i < j" "j < length (lfn_numbered 1 ps)"
  then have "unat (of_nat (Suc i) :: u8) < unat (of_nat (Suc j) :: u8)"
    using assms by (subst (1 2) unat_small_u8) auto
  with ij show "fst (lfn_numbered 1 ps ! i) < fst (lfn_numbered 1 ps ! j)"
    by (simp add: nth_lfn_numbered word_less_nat_alt)
qed

lemma distinct_sorted_keys:
  "sorted_wrt (\<lambda>x y. fst x < fst y) xs \<Longrightarrow> distinct (map fst xs)" for xs :: "('a::linorder \<times> 'b) list"
  by (induction xs) auto

text \<open>Scanning entries whose numbers are all new appends their fragments in order.\<close>

lemma upsert_new: "k \<notin> fst ` set fr \<Longrightarrow> upsert_fragment k p fr = fr @ [(k, p)]"
  by (induction fr) auto

lemma scan_lfn_rest:
  assumes "\<forall>kq \<in> set kqs. seq_ok (fst kq) \<and> length (snd kq) = 13"
    and "distinct (map fst (fr @ kqs))"
  shows "scan_state (map (\<lambda>(k, q). lfn_chunk k chk q) kqs) (fr, ex) = (fr @ kqs, ex)"
  using assms
proof (induction kqs arbitrary: fr)
  case Nil
  then show ?case by simp
next
  case (Cons kq kqs)
  obtain k q where kq: "kq = (k, q)" by force
  from Cons.prems kq have ok: "seq_ok k" "length q = 13" "k \<notin> fst ` set fr" by auto
  then have "entry_state (lfn_chunk k chk q) (fr, ex) = (fr @ [(k, q)], ex)"
    by (simp add: entry_state_def process_lfn_chunk seq_ok_def upsert_new)
  with Cons kq show ?case by simp
qed

lemma lfn_entries_shape:
  assumes "ps \<noteq> []" "length ps \<le> 31" "\<forall>p \<in> set ps. length p = 13"
  obtains n p rest where "rev (lfn_numbered 1 ps) = (n, p) # rest"
    "lfn_entries chk ps = lfn_chunk (n OR 0x40) chk p # map (\<lambda>(k, q). lfn_chunk k chk q) rest"
    "seq_ok n" "length p = 13" "\<forall>kq \<in> set rest. seq_ok (fst kq) \<and> length (snd kq) = 13"
proof -
  obtain n p rest where r: "rev (lfn_numbered 1 ps) = (n, p) # rest"
    using assms(1) by (cases ps; cases "rev (lfn_numbered 1 ps)") auto
  have "set (rev (lfn_numbered 1 ps)) = insert (n, p) (set rest)" unfolding r by simp
  then have mem: "\<forall>kq \<in> insert (n, p) (set rest). kq \<in> set (lfn_numbered 1 ps)" by simp
  have "\<forall>kq \<in> insert (n, p) (set rest). seq_ok (fst kq) \<and> length (snd kq) = 13"
  proof
    fix kq assume "kq \<in> insert (n, p) (set rest)"
    with mem have "kq \<in> set (lfn_numbered 1 ps)" by blast
    from numbered_seq_ok [OF assms(2) this] assms(3)
    show "seq_ok (fst kq) \<and> length (snd kq) = 13" by blast
  qed
  then show thesis using that [OF r] r by (simp add: lfn_entries_def)
qed

lemma scan_lfn_entries:
  assumes "ps \<noteq> []" "length ps \<le> 31" "\<forall>p \<in> set ps. length p = 13"
  shows "scan_state (lfn_entries chk ps) st = (rev (lfn_numbered 1 ps), Some chk)"
proof -
  obtain n p rest where r: "rev (lfn_numbered 1 ps) = (n, p) # rest"
    "lfn_entries chk ps = lfn_chunk (n OR 0x40) chk p # map (\<lambda>(k, q). lfn_chunk k chk q) rest"
    "seq_ok n" "length p = 13" "\<forall>kq \<in> set rest. seq_ok (fst kq) \<and> length (snd kq) = 13"
    using lfn_entries_shape [OF assms] .
  have "distinct (map fst (lfn_numbered 1 ps))"
    using sorted_numbered [OF assms(2)] by (rule distinct_sorted_keys)
  then have "distinct (map fst (rev (lfn_numbered 1 ps)))" by (simp add: rev_map [symmetric])
  then have d: "distinct (map fst ([(n, p)] @ rest))" by (simp add: r(1))
  have "entry_state (lfn_chunk (n OR 0x40) chk p) st = ([(n, p)], Some chk)"
    using r(3,4) by (cases st) (simp add: entry_state_def process_lfn_chunk seq_ok_def)
  with scan_lfn_rest [OF r(5) d, of chk "Some chk"] show ?thesis
    by (simp add: r(1,2))
qed

lemma insort_key_last: "\<forall>y \<in> set ys. f y < f x \<Longrightarrow> insort_key f x ys = ys @ [x]"
  by (induction ys) auto

lemma sort_key_rev_sorted:
  fixes xs :: "('a::linorder \<times> 'b) list"
  assumes "sorted_wrt (\<lambda>x y. fst x < fst y) xs"
  shows "sort_key fst (rev xs) = xs"
proof -
  have "fold (insort_key fst) ys zs = zs @ ys" if "sorted_wrt (\<lambda>x y. fst x < fst y) (zs @ ys)"
    for ys zs :: "('a \<times> 'b) list"
    using that by (induction ys arbitrary: zs) (auto simp: insort_key_last sorted_wrt_append)
  from this [of "[]" xs] assms show ?thesis by (simp add: sort_key_def foldr_conv_fold)
qed

lemma map_snd_numbered: "map snd (lfn_numbered k ps) = ps"
  by (induction ps arbitrary: k) auto

lemma assemble_numbered:
  assumes "ps \<noteq> []" "length ps \<le> 31"
  shows "assemble_lfn (rev (lfn_numbered 1 ps)) = from_utf16 (concat (map fragment_chars ps))"
proof -
  have "lfn_numbered 1 ps \<noteq> []" using assms(1) by (cases ps) auto
  moreover have "map (\<lambda>p. fragment_chars (snd p)) (lfn_numbered 1 ps)
      = map fragment_chars (map snd (lfn_numbered 1 ps))" by simp
  ultimately show ?thesis
    by (simp add: assemble_lfn_def sort_key_rev_sorted [OF sorted_numbered [OF assms(2)]]
        map_snd_numbered del: map_map)
qed

lemma fragment_chars_plain: "0 \<notin> set nm \<Longrightarrow> 0xFFFF \<notin> set nm \<Longrightarrow> fragment_chars nm = nm"
  by (induction nm) auto

lemma fragment_chars_end:
  "0 \<notin> set nm \<Longrightarrow> 0xFFFF \<notin> set nm \<Longrightarrow> fragment_chars (nm @ 0 # r) = nm"
  by (induction nm) auto

lemma lfn_pieces_props:
  assumes "0 \<notin> set nm" "0xFFFF \<notin> set nm"
  shows "(\<forall>p \<in> set (lfn_pieces nm). length p = 13) \<and> concat (map fragment_chars (lfn_pieces nm)) = nm
    \<and> length (lfn_pieces nm) = (length nm + 12) div 13"
  using assms
proof (induction nm rule: lfn_pieces.induct)
  case (1 nm)
  consider (nil) "nm = []" | (short) "nm \<noteq> []" "length nm < 13" | (long) "13 \<le> length nm"
    using not_less by blast
  then show ?case
  proof cases
    case nil
    have "lfn_pieces [] = []" by (subst lfn_pieces.simps) simp
    with nil show ?thesis by simp
  next
    case short
    then have step: "lfn_pieces nm = [nm @ 0 # replicate (12 - length nm) 0xFFFF]"
      by (subst lfn_pieces.simps) simp
    have "1 \<le> length nm" using short(1) by (simp add: Suc_le_eq)
    then have "(length nm + 12) div 13 = 1" using short(2) by simp
    with short "1.prems" show ?thesis by (simp add: step fragment_chars_end)
  next
    case long
    then have "nm \<noteq> []" by auto
    with long have step: "lfn_pieces nm = take 13 nm # lfn_pieces (drop 13 nm)"
      by (subst lfn_pieces.simps) simp
    have sub: "0 \<notin> set (drop 13 nm)" "0xFFFF \<notin> set (drop 13 nm)"
      "0 \<notin> set (take 13 nm)" "0xFFFF \<notin> set (take 13 nm)"
      using "1.prems" set_drop_subset [of 13 nm] set_take_subset [of 13 nm] by blast+
    have "\<not> length nm < 13" using long by simp
    note IH = "1.IH" [OF \<open>nm \<noteq> []\<close> this sub(1,2)]
    have "(length nm + 12) div 13 = Suc ((length (drop 13 nm) + 12) div 13)"
      using long by (simp add: le_div_geq)
    then have n: "length (lfn_pieces nm) = (length nm + 12) div 13"
      using conjunct2 [OF conjunct2 [OF IH]] by (simp only: step list.size)
    have "concat (map fragment_chars (lfn_pieces nm)) = nm"
      using conjunct1 [OF conjunct2 [OF IH]] fragment_chars_plain [OF sub(3,4)] by (simp add: step)
    moreover have "length (take 13 nm) = 13" using long by simp
    then have "\<forall>p \<in> set (lfn_pieces nm). length p = 13"
      unfolding step list.set using conjunct1 [OF IH] by blast
    ultimately show ?thesis using n by blast
  qed
qed

text \<open>What a plain directory entry of 32 bytes becomes once its long name is known.\<close>

definition data_entry :: "u8 list \<Rightarrow> bool" where
  "data_entry c \<longleftrightarrow>
     length c = 32 \<and> c ! 0 \<noteq> 0x00 \<and> c ! 0 \<noteq> 0xE5 \<and> c ! 11 \<noteq> 0x0F \<and> c ! 11 AND 0x08 = 0"

definition entry_start :: "u8 list \<Rightarrow> u32" where
  "entry_start c =
     push_bit 16 (ucast (u16_from_le_bytes (sub_list c 20 2))) OR ucast (u16_from_le_bytes (sub_list c 26 2))"

definition entry_with_name :: "u8 list \<Rightarrow> str \<Rightarrow> FileInfo" where
  "entry_with_name c nm =
     FileInfo_new nm (c ! 11 AND 0x10 \<noteq> 0) (u32_from_le_bytes (sub_list c 28 4)) (entry_start c)"

definition entry_short_name :: "u8 list \<Rightarrow> str" where
  "entry_short_name c = short_name_to_string (sub_list c 0 11)"

lemma entry_files_data:
  "data_entry c \<Longrightarrow> entry_files c (fr, ex) =
     [entry_with_name c
        (case (if fr \<noteq> [] \<and> ex = Some (lfn_checksum (sub_list c 0 11)) then assemble_lfn fr else None) of
           Some s \<Rightarrow> s | None \<Rightarrow> entry_short_name c)]"
  by (simp add: entry_files_def data_entry_def process_data_entry_def FatDir_new_ok Let_def
      entry_with_name_def entry_start_def entry_short_name_def split: option.splits)

lemma entry_state_data: "data_entry c \<Longrightarrow> entry_state c st = ([], None)"
  by (simp add: entry_state_def data_entry_def)

lemma dir_scan_lfn_entries:
  assumes "ps \<noteq> []" "length ps \<le> 31" "\<forall>p \<in> set ps. length p = 13"
  shows "dir_scan (lfn_entries chk ps) st = []" "\<forall>c \<in> set (lfn_entries chk ps). c ! 0 \<noteq> 0 \<and> length c = 32"
proof -
  obtain n p rest where r: "rev (lfn_numbered 1 ps) = (n, p) # rest"
    "lfn_entries chk ps = lfn_chunk (n OR 0x40) chk p # map (\<lambda>(k, q). lfn_chunk k chk q) rest"
    "seq_ok n" "length p = 13" "\<forall>kq \<in> set rest. seq_ok (fst kq) \<and> length (snd kq) = 13"
    using lfn_entries_shape [OF assms] .
  have all: "\<forall>c \<in> set (lfn_entries chk ps). c ! 0 \<noteq> 0 \<and> length c = 32 \<and> c ! 11 = 0x0F"
    unfolding r(2) using r(3-5) by (auto simp: seq_ok_def)
  then show "\<forall>c \<in> set (lfn_entries chk ps). c ! 0 \<noteq> 0 \<and> length c = 32" by blast
  have "dir_scan cs st = []" if "\<forall>c \<in> set cs. c ! 0 \<noteq> 0 \<and> c ! 11 = 0x0F" for cs st
    using that by (induction cs arbitrary: st) (auto simp: entry_files_def)
  with all show "dir_scan (lfn_entries chk ps) st = []" by blast
qed

section \<open>Every listed name is a string\<close>

lemma utf8_valid_Nil [simp]: "utf8_valid []"
  by (rule utf8_valid_ascii) simp

lemma trimmed_part_valid: "utf8_valid (trimmed_part p)"
  by (simp add: trimmed_part_def from_utf8_def split: option.splits)

lemma short_name_valid: "utf8_valid (short_name_to_string n)"
proof -
  have "utf8_valid [0x2E]" by (rule utf8_valid_ascii) simp
  then show ?thesis
    using utf8_valid_append trimmed_part_valid
    by (auto simp: short_name_to_string_def Let_def simp del: append_Cons)
qed

lemma assemble_lfn_valid: "assemble_lfn fr = Some s \<Longrightarrow> utf8_valid s"
  by (auto simp: assemble_lfn_def Let_def dest: from_utf16_valid split: if_splits)

lemma entry_files_valid:
  assumes "length c = 32" and "f \<in> set (entry_files c st)"
  shows "utf8_valid (fi_name f)"
proof -
  obtain o1 fr where pd: "process_data_entry c (fst st) (snd st) 0x10 = Val (o1, fr)"
    using process_data_entry_returns [OF assms(1)] unfolding returns_iff by fastforce
  with assms(2) have "o1 = Some f" by (auto simp: entry_files_def split: if_splits option.splits)
  with pd show ?thesis
    by (auto simp: process_data_entry_def FatDir_new_ok [OF assms(1)] Let_def FileInfo_new_def
        short_name_valid split: if_splits option.splits dest: assemble_lfn_valid)
qed

lemma dir_scan_valid:
  "\<forall>c \<in> set cs. length c = 32 \<Longrightarrow> f \<in> set (dir_scan cs st) \<Longrightarrow> utf8_valid (fi_name f)"
proof (induction cs arbitrary: st)
  case Nil
  then show ?case by simp
next
  case (Cons c cs)
  then consider "f \<in> set (entry_files c st)" | "f \<in> set (dir_scan cs (entry_state c st))"
    by (auto split: if_splits)
  then show ?case
    using Cons.IH [of "entry_state c st"] Cons.prems(1) entry_files_valid [of c f st] by cases auto
qed

lemma list_directory_entries_Val:
  "list_directory_entries fs c = Val files \<longleftrightarrow>
     (\<exists>d. read_cluster fs c = Val d \<and> files = dir_scan (chunks_exact 32 d) ([], None))"
  by (auto simp: list_directory_entries_def rbind_Val_iff list_entries_loop_scan length_chunk)

section \<open>Properties of directory entries\<close>

text \<open>
  Listing a directory cluster of a well-formed volume never panics, whatever bytes it holds.  It
  yields the files of the entries before the first end marker; every entry is 32 bytes.
\<close>

theorem list_directory_total:
  assumes "wf_fs fs" and "valid_cluster fs c"
  shows "list_directory_entries fs c
    = Val (dir_scan (takeWhile (\<lambda>e. e ! 0 \<noteq> 0x00) (chunks_exact 32 (cluster_data fs c))) ([], None))"
proof -
  have "dir_scan cs st = dir_scan (takeWhile (\<lambda>e. e ! 0 \<noteq> 0x00) cs) st" for cs st
    by (induction cs arbitrary: st) auto
  with list_directory_entries_ok [OF assms] show ?thesis by (simp add: dir_listing_def)
qed

theorem list_directory_total_witness:
  "list_directory_entries tiny_fs 2
    = Val (dir_scan (takeWhile (\<lambda>e. e ! 0 \<noteq> 0x00) (chunks_exact 32 (cluster_data tiny_fs 2))) ([], None))"
  by (rule list_directory_total) code_simp+

text \<open>Every name a listing returns is valid UTF-8, whatever bytes the directory holds.\<close>

lemma listed_names_utf8:
  assumes "list_directory_entries fs c = Val files"
  shows "list_all utf8_valid (list_files_names files)"
  using assms dir_scan_valid length_chunk [of 32]
  by (fastforce simp: list_directory_entries_Val list_files_names_def list_all_iff)

text \<open>
  C8: A file whose short entry follows the long-name entries of its Unicode name, stored by the FAT
  specification with the checksum of the short name, is listed under that Unicode name, as UTF-8,
  with the attributes, size and first cluster of its entry.
\<close>

theorem long_name_round_trip:
  assumes "cs \<noteq> []" "\<forall>c \<in> set cs. is_scalar c"
    and "0 \<notin> set (utf16_encode cs)" "0xFFFF \<notin> set (utf16_encode cs)"
    and "length (utf16_encode cs) \<le> 255" and "data_entry e"
  shows "list_entries_loop
      (lfn_entries (lfn_checksum (sub_list e 0 11)) (lfn_pieces (utf16_encode cs)) @ [e]) fr ex res
    = Val (res @ [entry_with_name e (utf8_encode cs)])"
proof -
  let ?nm = "utf16_encode cs" and ?ps = "lfn_pieces (utf16_encode cs)"
  let ?chk = "lfn_checksum (sub_list e 0 11)"
  note props = lfn_pieces_props [OF assms(3,4)]
  have "utf16_encode_char c \<noteq> []" for c by (simp add: utf16_encode_char_def)
  with assms(1) have "?nm \<noteq> []" by (cases cs) (auto simp: utf16_encode_def)
  then have ps: "?ps \<noteq> []" by (subst lfn_pieces.simps) simp
  have len: "length ?ps \<le> 31" using props assms(5) by simp
  have p13: "\<forall>p \<in> set ?ps. length p = 13" using props by blast
  note scan = scan_lfn_entries [OF ps len p13] and ents = dir_scan_lfn_entries [OF ps len p13]
  have nm: "assemble_lfn (rev (lfn_numbered 1 ?ps)) = Some (utf8_encode cs)"
    using assemble_numbered [OF ps len] props
    by (simp add: from_utf16_def utf16_decode_encode [OF assms(2)])
  have ne: "lfn_numbered 1 ?ps \<noteq> []" using ps by (cases ?ps) auto
  have "e ! 0 \<noteq> 0" "length e = 32" using assms(6) by (simp_all add: data_entry_def)
  then have "list_entries_loop (lfn_entries ?chk ?ps @ [e]) fr ex res
      = Val (res @ dir_scan (lfn_entries ?chk ?ps @ [e]) (fr, ex))"
    using ents(2) by (intro list_entries_loop_scan) auto
  also have "dir_scan (lfn_entries ?chk ?ps @ [e]) (fr, ex)
      = entry_files e (rev (lfn_numbered 1 ?ps), Some ?chk)"
    using ents \<open>e ! 0 \<noteq> 0\<close> by (simp add: dir_scan_append scan)
  also have "\<dots> = [entry_with_name e (utf8_encode cs)]"
    using assms(6) ne nm by (simp add: entry_files_data)
  finally show ?thesis .
qed

text \<open>The name \<^verbatim>\<open>h\<close>, \<^verbatim>\<open>e\<close> with an acute accent, a character beyond the first plane.\<close>

definition sample_name :: "int list" where
  "sample_name = [0x68, 0xE9, 0x1F600]"

definition sample_entry :: "u8 list" where
  "sample_entry = lit ''H~1     TXT'' @ [0x20] @ replicate 14 0 @ [3, 0] @ [5, 0, 0, 0]"

theorem long_name_round_trip_witness:
  "list_entries_loop (lfn_entries (lfn_checksum (sub_list sample_entry 0 11))
      (lfn_pieces (utf16_encode sample_name)) @ [sample_entry]) [] None []
    = Val ([] @ [entry_with_name sample_entry (utf8_encode sample_name)])"
  by (rule long_name_round_trip) code_simp+

text \<open>
  When the checksum in the long-name entries is not that of the short name, the long name is
  dropped and the file is listed under its short name.
\<close>

theorem long_name_checksum_mismatch:
  assumes "ps \<noteq> []" "length ps \<le> 31" "\<forall>p \<in> set ps. length p = 13" "data_entry e"
    and "chk \<noteq> lfn_checksum (sub_list e 0 11)"
  shows "list_entries_loop (lfn_entries chk ps @ [e]) fr ex res
    = Val (res @ [entry_with_name e (short_name_to_string (sub_list e 0 11))])"
proof -
  note ents = dir_scan_lfn_entries [OF assms(1-3), of chk]
  have e: "e ! 0 \<noteq> 0" "length e = 32" using assms(4) by (simp_all add: data_entry_def)
  have "dir_scan (lfn_entries chk ps @ [e]) (fr, ex) = entry_files e (rev (lfn_numbered 1 ps), Some chk)"
    using ents e by (simp add: dir_scan_append scan_lfn_entries [OF assms(1-3)])
  moreover have "list_entries_loop (lfn_entries chk ps @ [e]) fr ex res
      = Val (res @ dir_scan (lfn_entries chk ps @ [e]) (fr, ex))"
    using ents(2) e(2) by (intro list_entries_loop_scan) auto
  ultimately show ?thesis
    using assms(4,5) by (simp add: entry_files_data entry_short_name_def)
qed

theorem long_name_checksum_mismatch_witness:
  "list_entries_loop (lfn_entries 7 (lfn_pieces (utf16_encode sample_name)) @ [sample_entry]) [] None []
    = Val ([] @ [entry_with_name sample_entry (short_name_to_string (sub_list sample_entry 0 11))])"
  by (rule long_name_checksum_mismatch) code_simp+

text \<open>
  C25: An ASCII name of at most eight characters and an extension of at most three, without trailing
  spaces, is turned into an eleven-byte short name that reads back as the name in upper case.
\<close>

theorem short_name_upper_round_trip:
  assumes "name_83 base ext"
  shows "\<exists>sn. format_to_8_3 uc (if ext = [] then base else base @ 0x2E # ext) = Inr sn \<and> length sn = 11
    \<and> short_name_to_string sn = map ascii_upper (if ext = [] then base else base @ 0x2E # ext)"
  using short_name_round_trip [OF assms] .

theorem short_name_upper_round_trip_witness:
  "\<exists>sn. format_to_8_3 (\<lambda>_. []) (if lit ''txt'' = [] then lit ''notes'' else lit ''notes'' @ 0x2E # lit ''txt'')
      = Inr sn \<and> length sn = 11
    \<and> short_name_to_string sn
        = map ascii_upper (if lit ''txt'' = [] then lit ''notes'' else lit ''notes'' @ 0x2E # lit ''txt'')"
  by (rule short_name_upper_round_trip) code_simp

lemma hd_str_split: "hd (str_split c s) = takeWhile (\<lambda>b. b \<noteq> c) s"
proof (induction s)
  case (Cons x xs)
  then show ?case by (cases "str_split c xs") auto
qed simp

text \<open>
  C26: A name is refused exactly when nothing stands before its first dot; every other name becomes
  eleven bytes, and neither what follows a second dot nor what exceeds the two fields matters.
\<close>

theorem format_to_8_3_total:
  "format_to_8_3 uc nm = (if nm = [] \<or> hd nm = 0x2E then Inl InvalidName
     else Inr (pad_to 8 (to_uppercase uc (takeWhile (\<lambda>b. b \<noteq> 0x2E) nm))
       @ pad_to 3 (to_uppercase uc (takeWhile (\<lambda>b. b \<noteq> 0x2E) (tl (dropWhile (\<lambda>b. b \<noteq> 0x2E) nm))))))"
proof (cases "0x2E \<in> set nm")
  case False
  then have tw: "takeWhile (\<lambda>b. b \<noteq> 0x2E) nm = nm" "dropWhile (\<lambda>b. b \<noteq> 0x2E) nm = []"
    by (auto simp: takeWhile_eq_all_conv dropWhile_eq_Nil_conv)
  have "hd nm \<noteq> 0x2E" if "nm \<noteq> []" using that False by (metis hd_in_set)
  moreover have "to_uppercase uc [] = []" by (simp add: to_uppercase_def utf8_encode_def)
  ultimately show ?thesis
    unfolding tw using False by (auto simp: format_to_8_3_eq str_split_no_sep pad_to_def)
next
  case True
  then obtain a b where nm: "nm = a @ 0x2E # b" "0x2E \<notin> set a" by (metis split_list_first)
  have "takeWhile (\<lambda>b. b \<noteq> 0x2E) nm = a" "dropWhile (\<lambda>b. b \<noteq> 0x2E) nm = 0x2E # b"
    using nm by (auto simp: takeWhile_append dropWhile_append)
  moreover have "str_split 0x2E nm ! 1 = hd (str_split 0x2E b)" "str_split 0x2E b \<noteq> []"
    using nm by (simp_all add: str_split_append hd_conv_nth)
  moreover have "a = [] \<longleftrightarrow> hd nm = 0x2E" using nm by (cases a) auto
  ultimately show ?thesis
    using nm by (simp add: format_to_8_3_eq str_split_append hd_str_split)
qed

end
