(* ===== verification/Paths.thy ===== *)
theory Paths
  imports Dir_Entry
begin

text \<open>
  Path resolution and file reading: \<^verbatim>\<open>parse_path\<close>, \<^verbatim>\<open>find_parent_cluster\<close> and
  \<^verbatim>\<open>read_file\<close> of \<^verbatim>\<open>src/src/file_system.rs\<close>.  The loop of \<^verbatim>\<open>read_file\<close> follows the FAT
  chain until an end marker; nothing in the code bounds it, so it is a partial function whose
  value \<open>None\<close> means that the loop does not end.
\<close>

definition find_parent_cluster :: "Fat32FileSystem \<Rightarrow> u32 \<Rightarrow> u32 option run" where
  "find_parent_cluster fs current_cluster =
     (if current_cluster = root_cluster fs then Val None
      else
        rbind (list_directory_entries fs current_cluster) (\<lambda>files.
        case find (\<lambda>f. fi_name f = lit ''..'') files of
          None \<Rightarrow> Val None
        | Some parent \<Rightarrow>
            Val (Some (if start_cluster parent = 0 then root_cluster fs else start_cluster parent))))"

text \<open>
  The loop over the path's parts.  The directory is listed before the part is looked at, also for
  \<^verbatim>\<open>.\<close> and \<^verbatim>\<open>..\<close>, as in the code; \<open>rest = []\<close> is \<^verbatim>\<open>i == parts.len() - 1\<close>.
\<close>

primrec parse_path_loop :: "Fat32FileSystem \<Rightarrow> str list \<Rightarrow> u32 \<Rightarrow> FileInfo option run" where
  "parse_path_loop fs [] cluster = Val None"
| "parse_path_loop fs (part # rest) cluster =
     rbind (list_directory_entries fs cluster) (\<lambda>files.
     if part = lit ''.'' then parse_path_loop fs rest cluster
     else if part = lit ''..'' then
       rbind (find_parent_cluster fs cluster) (\<lambda>p.
       case p of
         None \<Rightarrow> Val None
       | Some parent \<Rightarrow>
           if rest = [] then Val (Some (FileInfo_new (lit ''..'') True 0 parent))
           else parse_path_loop fs rest parent)
     else
       (case find (\<lambda>f. fi_name f = part) files of
          None \<Rightarrow> Val None
        | Some file \<Rightarrow>
            if rest = [] then Val (Some file)
            else if \<not> is_directory file then Val None
            else parse_path_loop fs rest (start_cluster file)))"

definition path_parts :: "str \<Rightarrow> str list" where
  "path_parts path = filter (\<lambda>s. s \<noteq> []) (str_split 0x2F path)"

definition parse_path :: "Fat32FileSystem \<Rightarrow> str \<Rightarrow> u32 option \<Rightarrow> FileInfo option run" where
  "parse_path fs path current_cluster =
     (let cluster =
        (if path = [] \<or> hd path = 0x2F then root_cluster fs
         else case current_cluster of Some c \<Rightarrow> c | None \<Rightarrow> root_cluster fs) in
      parse_path_loop fs (path_parts path) cluster)"

partial_function (option) read_chain ::
    "Fat32FileSystem \<Rightarrow> u32 \<Rightarrow> u8 list \<Rightarrow> u8 list run option" where
  "read_chain fs cluster data =
     (case read_cluster fs cluster of
        Panic p \<Rightarrow> Some (Panic p)
      | Val d \<Rightarrow>
          (case read_fat_entry fs cluster of
             Panic p \<Rightarrow> Some (Panic p)
           | Val nxt \<Rightarrow>
               if 0x0FFFFFF8 \<le> nxt then Some (Val (data @ d))
               else read_chain fs nxt (data @ d)))"

declare read_chain.simps [code]

definition read_file ::
    "Fat32FileSystem \<Rightarrow> str \<Rightarrow> u32 option \<Rightarrow> str result run option" where
  "read_file fs path current_cluster =
     (case parse_path fs path current_cluster of
        Panic p \<Rightarrow> Some (Panic p)
      | Val None \<Rightarrow> Some (Val (Inl FileNotFound))
      | Val (Some file) \<Rightarrow>
          if is_directory file then Some (Val (Inl NotAFile))
          else
            (case read_chain fs (start_cluster file) [] of
               None \<Rightarrow> None
             | Some (Panic p) \<Rightarrow> Some (Panic p)
             | Some (Val data) \<Rightarrow>
                 Some (Val (case from_utf8 (take (unat (fi_size file)) data) of
                   Some s \<Rightarrow> Inr s
                 | None \<Rightarrow> Inl InvalidUtf8))))"

section \<open>What a path names\<close>

definition dir_lookup :: "Fat32FileSystem \<Rightarrow> u32 \<Rightarrow> str \<Rightarrow> FileInfo option" where
  "dir_lookup fs c nm = find (\<lambda>f. fi_name f = nm) (dir_listing fs c)"

definition parent_of :: "Fat32FileSystem \<Rightarrow> u32 \<Rightarrow> u32 option" where
  "parent_of fs c =
     (if c = root_cluster fs then None
      else map_option (\<lambda>f. if start_cluster f = 0 then root_cluster fs else start_cluster f)
             (dir_lookup fs c (lit ''..'')))"

text \<open>
  The specification of a path relative to a directory: \<^verbatim>\<open>.\<close> stays, \<^verbatim>\<open>..\<close> goes to the parent, a name
  goes to the first entry with that name, which must be a directory unless the path ends there.
  A path must end in a name or in \<^verbatim>\<open>..\<close>.
\<close>

inductive resolves :: "Fat32FileSystem \<Rightarrow> u32 \<Rightarrow> str list \<Rightarrow> FileInfo \<Rightarrow> bool" for fs where
  here: "resolves fs c rest f \<Longrightarrow> resolves fs c (lit ''.'' # rest) f"
| up_end: "parent_of fs c = Some p \<Longrightarrow>
    resolves fs c [lit ''..''] (FileInfo_new (lit ''..'') True 0 p)"
| up: "parent_of fs c = Some p \<Longrightarrow> resolves fs p rest f \<Longrightarrow> resolves fs c (lit ''..'' # rest) f"
| entry_end: "nm \<noteq> lit ''.'' \<Longrightarrow> nm \<noteq> lit ''..'' \<Longrightarrow> dir_lookup fs c nm = Some f \<Longrightarrow>
    resolves fs c [nm] f"
| entry: "nm \<noteq> lit ''.'' \<Longrightarrow> nm \<noteq> lit ''..'' \<Longrightarrow> dir_lookup fs c nm = Some d \<Longrightarrow>
    is_directory d \<Longrightarrow> resolves fs (start_cluster d) rest f \<Longrightarrow> resolves fs c (nm # rest) f"

inductive_simps resolves_Nil [simp]: "resolves fs c [] f"
inductive_simps resolves_Cons: "resolves fs c (p # ps) f"

lemma lit_dots [simp]: "lit ''..'' \<noteq> lit ''.''" "lit ''.'' \<noteq> lit ''..''"
  by (simp_all add: lit_def)

lemma resolves_dot [simp]: "resolves fs c (lit ''.'' # rest) f \<longleftrightarrow> resolves fs c rest f"
  by (subst resolves_Cons) auto

lemma resolves_up [simp]:
  "resolves fs c (lit ''..'' # rest) f \<longleftrightarrow>
     (\<exists>p. parent_of fs c = Some p \<and>
        (if rest = [] then f = FileInfo_new (lit ''..'') True 0 p else resolves fs p rest f))"
  by (subst resolves_Cons) auto

lemma resolves_name:
  "nm \<noteq> lit ''.'' \<Longrightarrow> nm \<noteq> lit ''..'' \<Longrightarrow> resolves fs c (nm # rest) f \<longleftrightarrow>
     (\<exists>d. dir_lookup fs c nm = Some d \<and>
        (if rest = [] then f = d else is_directory d \<and> resolves fs (start_cluster d) rest f))"
  by (subst resolves_Cons) auto

text \<open>
  A set of directory clusters closed under the entries that lead to directories: what an intact
  directory tree provides, and what every cluster the code walks to stays inside of.
\<close>

definition dirs_closed :: "Fat32FileSystem \<Rightarrow> u32 list \<Rightarrow> bool" where
  "dirs_closed fs D \<longleftrightarrow>
     root_cluster fs \<in> set D
     \<and> list_all (\<lambda>c. valid_cluster fs c
         \<and> list_all (\<lambda>f. if fi_name f = lit ''..''
               then start_cluster f = 0 \<or> start_cluster f \<in> set D
               else is_directory f \<longrightarrow> start_cluster f \<in> set D) (dir_listing fs c)) D"

lemma dir_lookup_Some:
  "dir_lookup fs c nm = Some f \<Longrightarrow> f \<in> set (dir_listing fs c) \<and> fi_name f = nm"
  by (auto simp: dir_lookup_def find_Some_iff)

lemma dirs_closedD:
  assumes "dirs_closed fs D" and "c \<in> set D"
  shows "valid_cluster fs c"
    and "parent_of fs c = Some p \<Longrightarrow> p \<in> set D"
    and "nm \<noteq> lit ''..'' \<Longrightarrow> dir_lookup fs c nm = Some f \<Longrightarrow> is_directory f \<Longrightarrow> start_cluster f \<in> set D"
  using assms by (auto simp: dirs_closed_def list_all_iff parent_of_def
      dest!: dir_lookup_Some split: if_splits)

lemma dirs_closed_root: "dirs_closed fs D \<Longrightarrow> root_cluster fs \<in> set D"
  by (simp add: dirs_closed_def)

lemma find_parent_cluster_ok [vol_simps]:
  assumes "wf_fs fs" and "valid_cluster fs c"
  shows "find_parent_cluster fs c = Val (parent_of fs c)"
  using assms by (auto simp: find_parent_cluster_def list_directory_entries_ok parent_of_def
      dir_lookup_def split: option.splits)

text \<open>Inside an intact tree the loop over the parts is a plain recursion on lookups.\<close>

lemma parse_path_loop_Cons:
  assumes "wf_fs fs" and "valid_cluster fs c"
  shows "parse_path_loop fs (part # rest) c =
    (if part = lit ''.'' then parse_path_loop fs rest c
     else if part = lit ''..'' then
       (case parent_of fs c of
          None \<Rightarrow> Val None
        | Some p \<Rightarrow> if rest = [] then Val (Some (FileInfo_new (lit ''..'') True 0 p))
                    else parse_path_loop fs rest p)
     else
       (case dir_lookup fs c part of
          None \<Rightarrow> Val None
        | Some f \<Rightarrow> if rest = [] then Val (Some f)
                    else if \<not> is_directory f then Val None
                    else parse_path_loop fs rest (start_cluster f)))"
  using assms by (simp add: list_directory_entries_ok find_parent_cluster_ok dir_lookup_def)

lemma parse_path_loop_resolves:
  assumes "wf_fs fs" "dirs_closed fs D" "c \<in> set D"
  shows "\<exists>r. parse_path_loop fs ps c = Val r \<and> (\<forall>f. r = Some f \<longleftrightarrow> resolves fs c ps f)
    \<and> (\<forall>f. r = Some f \<longrightarrow> is_directory f \<longrightarrow> start_cluster f \<in> set D)"
  using assms(3)
proof (induction ps arbitrary: c)
  case Nil
  then show ?case by simp
next
  case (Cons part rest)
  note dc = dirs_closedD [OF assms(2) Cons.prems]
  note step = parse_path_loop_Cons [OF assms(1) dc(1), of part rest]
  consider (dot) "part = lit ''.''" | (up) "part = lit ''..''"
    | (name) "part \<noteq> lit ''.''" "part \<noteq> lit ''..''" by blast
  then show ?case
  proof cases
    case dot
    with Cons.IH [OF Cons.prems] show ?thesis
      unfolding step by (auto simp: resolves_name)
  next
    case up
    show ?thesis
    proof (cases "parent_of fs c")
      case None
      with up show ?thesis unfolding step by (auto simp: resolves_name)
    next
      case (Some p)
      with up dc(2) Cons.IH [of p] show ?thesis
        unfolding step by (cases "rest = []") (auto simp: FileInfo_new_def)
    qed
  next
    case name
    show ?thesis
    proof (cases "dir_lookup fs c part")
      case None
      with name show ?thesis unfolding step by (auto simp: resolves_name)
    next
      case (Some d)
      with name dc(3) Cons.IH [of "start_cluster d"] show ?thesis
        unfolding step
        by (cases "rest = []"; cases "is_directory d") (auto simp: resolves_name)
    qed
  qed
qed

definition path_start :: "Fat32FileSystem \<Rightarrow> str \<Rightarrow> u32 option \<Rightarrow> u32" where
  "path_start fs path cur =
     (if path = [] \<or> hd path = 0x2F then root_cluster fs
      else case cur of Some c \<Rightarrow> c | None \<Rightarrow> root_cluster fs)"

definition cur_in :: "u32 option \<Rightarrow> u32 list \<Rightarrow> bool" where
  "cur_in cur D \<longleftrightarrow> (case cur of None \<Rightarrow> True | Some c \<Rightarrow> c \<in> set D)"

lemma path_start_in: "dirs_closed fs D \<Longrightarrow> cur_in cur D \<Longrightarrow> path_start fs path cur \<in> set D"
  by (auto simp: path_start_def cur_in_def dirs_closed_root split: option.splits)

lemma parse_path_eq: "parse_path fs path cur = parse_path_loop fs (path_parts path) (path_start fs path cur)"
  by (simp add: parse_path_def path_start_def Let_def)

lemma parse_path_resolves:
  assumes "wf_fs fs" "dirs_closed fs D" "cur_in cur D"
  shows "\<exists>r. parse_path fs path cur = Val r
    \<and> (\<forall>f. r = Some f \<longleftrightarrow> resolves fs (path_start fs path cur) (path_parts path) f)
    \<and> (\<forall>f. r = Some f \<longrightarrow> is_directory f \<longrightarrow> start_cluster f \<in> set D)"
  unfolding parse_path_eq
  using parse_path_loop_resolves [OF assms(1,2) path_start_in [OF assms(2,3)]] .

section \<open>Parents and last components\<close>

text \<open>
  A path is walked part by part: the directory part first, then the rest from the directory it
  names.  The directory part must not end in \<^verbatim>\<open>.\<close>, which by itself names nothing.
\<close>

lemma parse_path_loop_append:
  assumes "wf_fs fs" "dirs_closed fs D" "c \<in> set D"
    and "ps \<noteq> []" "last ps \<noteq> lit ''.''" "qs \<noteq> []"
  shows "parse_path_loop fs (ps @ qs) c =
    rbind (parse_path_loop fs ps c) (\<lambda>r.
      case r of
        None \<Rightarrow> Val None
      | Some d \<Rightarrow> if is_directory d then parse_path_loop fs qs (start_cluster d) else Val None)"
  using assms(3-5)
proof (induction ps arbitrary: c)
  case Nil
  then show ?case by simp
next
  case (Cons part rest)
  note dc = dirs_closedD [OF assms(2) Cons.prems(1)]
  note step = parse_path_loop_Cons [OF assms(1) dc(1), of part]
  show ?case
  proof (cases "rest = []")
    case True
    with Cons.prems(3) assms(6) show ?thesis
      unfolding append_Cons step by (simp add: FileInfo_new_def split: option.splits)
  next
    case False
    with Cons.prems(3) have IH: "c' \<in> set D \<Longrightarrow> parse_path_loop fs (rest @ qs) c' =
      rbind (parse_path_loop fs rest c') (\<lambda>r. case r of None \<Rightarrow> Val None
        | Some d \<Rightarrow> if is_directory d then parse_path_loop fs qs (start_cluster d) else Val None)" for c'
      using Cons.IH by simp
    show ?thesis
      unfolding append_Cons step
      using False Cons.prems(1) by (auto simp: IH dc(2,3) split: option.splits)
  qed
qed

lemma path_parts_file:
  assumes "0x2F \<notin> set nm" "nm \<noteq> []"
  shows "path_parts nm = [nm]" "path_parts (dir @ 0x2F # nm) = path_parts dir @ [nm]"
proof -
  show "path_parts nm = [nm]" using assms by (simp add: path_parts_def str_split_no_sep)
  have "str_split 0x2F (dir @ 0x2F # nm) = str_split 0x2F dir @ [nm]"
    using assms(1) by (induction dir) (auto simp: str_split_no_sep split: list.splits)
  then show "path_parts (dir @ 0x2F # nm) = path_parts dir @ [nm]"
    using assms(2) by (simp add: path_parts_def)
qed

section \<open>Lookups that survive a change of the volume\<close>

text \<open>
  If every lookup in the directories of the tree still succeeds, with an entry related to the old
  one by \<open>R\<close>, then every path that resolved still does, to a related entry.
\<close>

lemma parse_path_loop_mono:
  assumes wf: "wf_fs fs" "wf_fs fs'" and dc: "dirs_closed fs D" "\<forall>c \<in> set D. valid_cluster fs' c"
    and root: "root_cluster fs' = root_cluster fs"
    and R: "\<And>f f'. R f f' \<Longrightarrow> is_directory f' = is_directory f \<and> start_cluster f' = start_cluster f"
    and refl: "\<And>f. R f f"
    and lookup: "\<And>c nm f. c \<in> set D \<Longrightarrow> dir_lookup fs c nm = Some f \<Longrightarrow>
      \<exists>f'. dir_lookup fs' c nm = Some f' \<and> R f f'"
    and c: "c \<in> set D" and res: "parse_path_loop fs ps c = Val (Some f)"
  shows "\<exists>f'. parse_path_loop fs' ps c = Val (Some f') \<and> R f f'"
  using c res
proof (induction ps arbitrary: c)
  case Nil
  then show ?case by simp
next
  case (Cons part rest)
  note cl = dirs_closedD [OF dc(1) Cons.prems(1)]
  note step = parse_path_loop_Cons [OF wf(1) cl(1)]
    parse_path_loop_Cons [OF wf(2) dc(2) [rule_format, OF Cons.prems(1)]]
  note parse_path_loop.simps(2) [simp del]
  have par: "parent_of fs' c = Some p" if "parent_of fs c = Some p" for p
    using that lookup [OF Cons.prems(1), of "lit ''..''"] R root
    by (fastforce simp: parent_of_def split: if_splits)
  consider (dot) "part = lit ''.''" | (up) "part = lit ''..''"
    | (name) "part \<noteq> lit ''.''" "part \<noteq> lit ''..''" by blast
  then show ?case
  proof cases
    case dot
    with Cons show ?thesis by (simp add: step)
  next
    case up
    with Cons.prems obtain p where p: "parent_of fs c = Some p"
      by (auto simp: step split: option.splits)
    with up Cons par [OF p] cl(2) refl show ?thesis
      by (cases "rest = []") (auto simp: step)
  next
    case name
    with Cons.prems obtain d where d: "dir_lookup fs c part = Some d"
      by (auto simp: step split: option.splits)
    obtain d' where d': "dir_lookup fs' c part = Some d'" "R d d'"
      using lookup [OF Cons.prems(1) d] by blast
    with name Cons d cl(3) R [OF d'(2)] show ?thesis
      by (cases "rest = []") (auto simp: step split: if_splits)
  qed
qed

section \<open>Reading a chain\<close>

text \<open>The next cluster of a chain, by the end-marker test of \<^verbatim>\<open>read_file\<close>.\<close>

definition chain_next :: "u32 \<Rightarrow> u32 option" where
  "chain_next e = (if 0x0FFFFFF8 \<le> e then None else Some e)"

definition chain_data :: "Fat32FileSystem \<Rightarrow> u32 list \<Rightarrow> u8 list" where
  "chain_data fs cs = concat (map (cluster_data fs) cs)"

lemma read_chain_follows:
  assumes "wf_fs fs" and "\<forall>c \<in> set cs. valid_cluster fs c"
    and "follows (read_fat_entry fs) chain_next c cs"
  shows "read_chain fs c d = Some (Val (d @ chain_data fs cs))"
  using assms(2,3)
proof (induction cs arbitrary: c d)
  case Nil
  then show ?case by simp
next
  case (Cons x xs)
  then have v: "valid_cluster fs x" "c = x" by auto
  note rd = read_cluster_ok [OF assms(1) v(1)] read_fat_entry_ok [OF assms(1) v(1)]
  show ?case
  proof (cases "chain_next (fat_entry fs x)")
    case None
    with Cons v rd have "xs = []" "0x0FFFFFF8 \<le> fat_entry fs x"
      by (auto simp: chain_next_def split: if_splits)
    with v rd show ?thesis by (subst read_chain.simps) (simp add: chain_data_def)
  next
    case (Some y)
    with Cons.prems(2) v rd have "follows (read_fat_entry fs) chain_next y xs" by simp
    moreover from Some have "fat_entry fs x = y" "\<not> 0x0FFFFFF8 \<le> y"
      by (auto simp: chain_next_def split: if_splits)
    ultimately show ?thesis
      using Cons.IH Cons.prems(1) v rd by (subst read_chain.simps) (simp add: chain_data_def)
  qed
qed

text \<open>A chain that returns to one of its clusters is followed for ever.\<close>

lemma read_chain_cycle:
  assumes "\<forall>c \<in> S. \<exists>d n. read_cluster fs c = Val d \<and> read_fat_entry fs c = Val n
      \<and> n < 0x0FFFFFF8 \<and> n \<in> S" and "c \<in> S"
  shows "read_chain fs c d = None"
proof -
  have "c \<in> S \<longrightarrow> False" if "read_chain fs c d = Some y" for y
  proof -
    have "fs0 = fs \<longrightarrow> c \<in> S \<longrightarrow> False" if "read_chain fs0 c d = Some y" for fs0 c d y
    proof (rule read_chain.raw_induct
        [where P = "\<lambda>fs0 c d y. fs0 = fs \<longrightarrow> c \<in> S \<longrightarrow> False", OF _ that], goal_cases)
      case (1 rc fs0 c d y)
      show ?case
      proof (intro impI)
        assume eq: "fs0 = fs" and "c \<in> S"
        then obtain d0 n where "read_cluster fs c = Val d0" "read_fat_entry fs c = Val n"
            "n < 0x0FFFFFF8" "n \<in> S"
          using assms(1) by blast
        with 1 eq show False by (auto simp: not_le [symmetric])
      qed
    qed
    with that show ?thesis by blast
  qed
  with assms(2) show ?thesis by (cases "read_chain fs c d") auto
qed

lemma read_chain_only_follows:
  assumes "read_chain fs c d = Some (Val x)"
  shows "\<exists>cs. follows (read_fat_entry fs) chain_next c cs"
proof -
  have "\<forall>x. y = Val x \<longrightarrow> (\<exists>cs. follows (read_fat_entry fs) chain_next c cs)"
    if "read_chain fs c d = Some y" for fs c d y
  proof (rule read_chain.raw_induct [where P = "\<lambda>fs c d y. \<forall>x. y = Val x \<longrightarrow>
        (\<exists>cs. follows (read_fat_entry fs) chain_next c cs)", OF _ that], goal_cases)
    case (1 rc fs c d y)
    show ?case
    proof (intro allI impI)
      fix x assume "y = Val x"
      with 1(2) obtain d0 n where n: "read_fat_entry fs c = Val n"
          "0x0FFFFFF8 \<le> n \<or> rc fs n (d @ d0) = Some (Val x)"
        by (auto split: run.splits if_splits)
      show "\<exists>cs. follows (read_fat_entry fs) chain_next c cs"
      proof (cases "0x0FFFFFF8 \<le> n")
        case True
        with n have "follows (read_fat_entry fs) chain_next c [c]" by (simp add: chain_next_def)
        then show ?thesis ..
      next
        case False
        with n 1(1) obtain cs where "follows (read_fat_entry fs) chain_next n cs" by blast
        with n False have "follows (read_fat_entry fs) chain_next c (c # cs)"
          by (simp add: chain_next_def)
        then show ?thesis ..
      qed
    qed
  qed
  with assms show ?thesis by blast
qed

end
