(* ===== verification/File_Ops.thy ===== *)
theory File_Ops
  imports Paths
begin

text \<open>
  The operations that change the volume: \<^verbatim>\<open>create_file\<close>, \<^verbatim>\<open>mkdir\<close>, \<^verbatim>\<open>update_file_size\<close>,
  \<^verbatim>\<open>write_file\<close> and the entry and cluster writers they call, from
  \<^verbatim>\<open>src/src/file_system.rs\<close>.  Each returns its \<^verbatim>\<open>Result\<close> with the volume as it then is: the
  code does not undo what it wrote before an error.
\<close>

definition write_directory_entry ::
    "Fat32FileSystem \<Rightarrow> u32 \<Rightarrow> nat \<Rightarrow> u8 list \<Rightarrow> Fat32FileSystem run" where
  "write_directory_entry fs cluster_id entry_idx data =
     rbind (start_sector fs cluster_id) (\<lambda>start.
     let offset_in_cluster = entry_idx * 32 in
     rbind (u32_div (of_nat offset_in_cluster) (bytes_per_sector fs)) (\<lambda>sector_offset.
     rbind (usize_mod offset_in_cluster (unat (bytes_per_sector fs))) (\<lambda>byte_offset_in_sector.
     rbind (u32_add start sector_offset) (\<lambda>s.
     rbind (u32_mul s (bytes_per_sector fs)) (\<lambda>g.
     let global_offset = unat g + byte_offset_in_sector in
     rbind (copy_from_slice (disk fs) global_offset data) (\<lambda>d.
     Val (fs\<lparr>disk := d\<rparr>)))))))"

text \<open>\<^verbatim>\<open>if parent_path.is_empty() || parent_path == "/" { root } else { parse_path .. }\<close>.\<close>

definition resolve_parent :: "Fat32FileSystem \<Rightarrow> str \<Rightarrow> u32 option run" where
  "resolve_parent fs parent_path =
     (if parent_path = [] \<or> parent_path = lit ''/'' then Val (Some (root_cluster fs))
      else rbind (parse_path fs parent_path None) (\<lambda>f. Val (map_option start_cluster f)))"

text \<open>The first slot whose first byte is \<open>0x00\<close> or \<open>0xE5\<close>.\<close>

definition slot_free :: "u8 list \<Rightarrow> bool" where
  "slot_free chunk \<longleftrightarrow> chunk ! 0 = 0x00 \<or> chunk ! 0 = 0xE5"

definition find_free_slot :: "u8 list \<Rightarrow> nat option" where
  "find_free_slot data = find_index slot_free (chunks_exact 32 data)"

definition new_file_entry :: "u8 list \<Rightarrow> u32 \<Rightarrow> u8 list" where
  "new_file_entry short_name new_file_cluster =
     (let high = ucast (drop_bit 16 new_file_cluster) :: u16;
          low = ucast (new_file_cluster AND 0xFFFF) :: u16;
          e0 = replicate 32 0;
          e1 = blit e0 0 short_name;
          e2 = e1[11 := 0x20];
          e3 = blit e2 20 (u16_to_le_bytes high) in
      blit e3 26 (u16_to_le_bytes low))"

definition create_file ::
    "upper_table \<Rightarrow> Fat32FileSystem \<Rightarrow> str \<Rightarrow> str \<Rightarrow> (unit result \<times> Fat32FileSystem) run" where
  "create_file uc fs parent_path filename =
     rbind (resolve_parent fs parent_path) (\<lambda>pc.
     case pc of
       None \<Rightarrow> Val (Inl ParentDirectoryNotFound, fs)
     | Some parent_cluster \<Rightarrow>
     (case format_to_8_3 uc filename of
       Inl e \<Rightarrow> Val (Inl e, fs)
     | Inr short_name \<Rightarrow>
     rbind (allocate_cluster fs) (\<lambda>(r, fs1).
     case r of
       Inl e \<Rightarrow> Val (Inl e, fs1)
     | Inr new_file_cluster \<Rightarrow>
     rbind (read_cluster fs1 parent_cluster) (\<lambda>data.
     case find_free_slot data of
       None \<Rightarrow> Val (Inl NoSpaceInParent, fs1)
     | Some idx \<Rightarrow>
     rbind (write_directory_entry fs1 parent_cluster idx
              (new_file_entry short_name new_file_cluster)) (\<lambda>fs2.
     Val (Inr (), fs2))))))"

definition init_directory_cluster ::
    "Fat32FileSystem \<Rightarrow> u32 \<Rightarrow> u32 \<Rightarrow> Fat32FileSystem run" where
  "init_directory_cluster fs current_cluster parent_cluster =
     rbind (u32_mul (sectors_per_cluster fs) (bytes_per_sector fs)) (\<lambda>cs.
     let cluster_size = unat cs; d0 = replicate cluster_size 0 in
     rbind (copy_from_slice d0 0 (lit ''.          '')) (\<lambda>d1.
     rbind (copy_from_slice d1 11 [0x10]) (\<lambda>d2.
     rbind (copy_from_slice d2 20 (u16_to_le_bytes (ucast (drop_bit 16 current_cluster)))) (\<lambda>d3.
     rbind (copy_from_slice d3 26 (u16_to_le_bytes (ucast current_cluster))) (\<lambda>d4.
     rbind (copy_from_slice d4 32 (lit ''..         '')) (\<lambda>d5.
     rbind (copy_from_slice d5 43 [0x10]) (\<lambda>d6.
     let parent_val = (if parent_cluster = root_cluster fs then 0 else parent_cluster) in
     rbind (copy_from_slice d6 52 (u16_to_le_bytes (ucast (drop_bit 16 parent_val)))) (\<lambda>d7.
     rbind (copy_from_slice d7 58 (u16_to_le_bytes (ucast parent_val))) (\<lambda>d8.
     rbind (start_sector fs current_cluster) (\<lambda>start.
     rbind (u32_mul start (bytes_per_sector fs)) (\<lambda>offset_in_disk.
     rbind (copy_from_slice (disk fs) (unat offset_in_disk) d8) (\<lambda>d.
     Val (fs\<lparr>disk := d\<rparr>)))))))))))))"

definition new_dir_entry :: "u8 list \<Rightarrow> u32 \<Rightarrow> u8 list" where
  "new_dir_entry short_name new_folder_cluster =
     (let high = ucast (drop_bit 16 new_folder_cluster) :: u16;
          low = ucast (new_folder_cluster AND 0xFFFF) :: u16;
          e0 = replicate 32 0;
          e1 = blit e0 0 short_name;
          e2 = e1[11 := 0x10];
          e3 = blit e2 20 (u16_to_le_bytes high);
          e4 = blit e3 26 (u16_to_le_bytes low) in
      blit e4 28 (u32_to_le_bytes 0))"

definition mkdir ::
    "upper_table \<Rightarrow> Fat32FileSystem \<Rightarrow> str \<Rightarrow> str \<Rightarrow> (unit result \<times> Fat32FileSystem) run" where
  "mkdir uc fs parent_path folder_name =
     rbind (resolve_parent fs parent_path) (\<lambda>pc.
     case pc of
       None \<Rightarrow> Val (Inl ParentPathNotFound, fs)
     | Some parent_cluster \<Rightarrow>
     rbind (allocate_cluster fs) (\<lambda>(r, fs1).
     case r of
       Inl e \<Rightarrow> Val (Inl e, fs1)
     | Inr new_folder_cluster \<Rightarrow>
     rbind (init_directory_cluster fs1 new_folder_cluster parent_cluster) (\<lambda>fs2.
     case format_to_8_3 uc folder_name of
       Inl e \<Rightarrow> Val (Inl e, fs2)
     | Inr short_name \<Rightarrow>
     rbind (read_cluster fs2 parent_cluster) (\<lambda>data.
     case find_free_slot data of
       None \<Rightarrow> Val (Inl NoSpaceInParent, fs2)
     | Some idx \<Rightarrow>
     rbind (write_directory_entry fs2 parent_cluster idx
              (new_dir_entry short_name new_folder_cluster)) (\<lambda>fs3.
     Val (Inr (), fs3))))))"

text \<open>\<^verbatim>\<open>path.rfind('/')\<close> and the two slices around it.\<close>

definition split_path :: "str \<Rightarrow> str \<times> str" where
  "split_path path =
     (case str_rfind 0x2F path of
        Some pos \<Rightarrow> (take pos path, drop (pos + 1) path)
      | None \<Rightarrow> ([], path))"

definition update_file_size ::
    "upper_table \<Rightarrow> Fat32FileSystem \<Rightarrow> str \<Rightarrow> u32 \<Rightarrow> (unit result \<times> Fat32FileSystem) run" where
  "update_file_size uc fs path new_size =
     (let (parent_path, filename) = split_path path in
     rbind (resolve_parent fs parent_path) (\<lambda>pc.
     let parent_cluster = (case pc of Some c \<Rightarrow> c | None \<Rightarrow> root_cluster fs) in
     case format_to_8_3 uc filename of
       Inl e \<Rightarrow> Val (Inl e, fs)
     | Inr short_name \<Rightarrow>
     rbind (read_cluster fs parent_cluster) (\<lambda>data.
     case find_index (\<lambda>chunk. sub_list chunk 0 11 = short_name) (chunks_exact 32 data) of
       None \<Rightarrow> Val (Inl UpdateEntryNotFound, fs)
     | Some entry_idx \<Rightarrow>
     rbind (start_sector fs parent_cluster) (\<lambda>start.
     let byte_offset = entry_idx * 32 + 28 in
     rbind (u32_div (of_nat byte_offset) (bytes_per_sector fs)) (\<lambda>sector_offset.
     rbind (usize_mod byte_offset (unat (bytes_per_sector fs))) (\<lambda>offset_in_sector.
     rbind (u32_add start sector_offset) (\<lambda>s.
     rbind (u32_mul s (bytes_per_sector fs)) (\<lambda>g.
     let final_offset = unat g + offset_in_sector in
     rbind (copy_from_slice (disk fs) final_offset (u32_to_le_bytes new_size)) (\<lambda>d.
     Val (Inr (), fs\<lparr>disk := d\<rparr>))))))))))"

definition write_file ::
    "upper_table \<Rightarrow> Fat32FileSystem \<Rightarrow> str \<Rightarrow> u8 list \<Rightarrow> (unit result \<times> Fat32FileSystem) run" where
  "write_file uc fs path data =
     rbind (parse_path fs path None) (\<lambda>fi.
     case fi of
       None \<Rightarrow> Val (Inl WriteFileNotFound, fs)
     | Some file_info \<Rightarrow>
     if is_directory file_info then Val (Inl WriteToDirectory, fs)
     else
     rbind (u32_mul (sectors_per_cluster fs) (bytes_per_sector fs)) (\<lambda>cs.
     let cluster_size = unat cs;
         bytes_to_write = min (length data) cluster_size in
     rbind (start_sector fs (start_cluster file_info)) (\<lambda>start.
     rbind (u32_mul start (bytes_per_sector fs)) (\<lambda>g.
     let global_offset = unat g in
     rbind (copy_from_slice (disk fs) global_offset (take bytes_to_write data)) (\<lambda>d.
     update_file_size uc (fs\<lparr>disk := d\<rparr>) path (of_nat bytes_to_write))))))"

section \<open>Writing inside a cluster\<close>

lemma clusters_disjoint:
  assumes "valid_cluster fs c" "valid_cluster fs j" "j \<noteq> c"
  shows "cluster_off fs j + cluster_bytes fs \<le> cluster_off fs c
    \<or> cluster_off fs c + cluster_bytes fs \<le> cluster_off fs j"
proof -
  have step: "cluster_off fs a + cluster_bytes fs \<le> cluster_off fs b"
    if "2 \<le> unat a" "unat a < unat b" for a b
  proof -
    have "(unat (data_sector fs) + (unat a - 2) * spc fs + spc fs) * bps fs
        = (unat (data_sector fs) + (Suc (unat a) - 2) * spc fs) * bps fs"
    proof -
      have "Suc (unat a) - 2 = Suc (unat a - 2)" using that(1) by simp
      then show ?thesis by simp
    qed
    also have "\<dots> \<le> (unat (data_sector fs) + (unat b - 2) * spc fs) * bps fs"
      using that(2) by (intro mult_le_mono1 add_left_mono) simp
    finally show ?thesis by (simp add: cluster_off_def cluster_bytes_def algebra_simps)
  qed
  have "unat j \<noteq> unat c" using assms(3) by (simp add: word_unat_eq_iff)
  then show ?thesis
    using step valid_clusterD(1) [OF assms(1)] valid_clusterD(1) [OF assms(2)] by (meson nat_neq_iff)
qed

text \<open>The volume after some bytes of a cluster have been overwritten.\<close>

definition patch_cluster :: "Fat32FileSystem \<Rightarrow> u32 \<Rightarrow> nat \<Rightarrow> u8 list \<Rightarrow> Fat32FileSystem" where
  "patch_cluster fs c off xs = fs\<lparr>disk := blit (disk fs) (cluster_off fs c + off) xs\<rparr>"

lemma patch_cluster_geometry [simp]:
  assumes "valid_cluster fs c" "off + length xs \<le> cluster_bytes fs"
  shows "wf_fs (patch_cluster fs c off xs) = wf_fs fs"
    "valid_cluster (patch_cluster fs c off xs) j = valid_cluster fs j"
    "root_cluster (patch_cluster fs c off xs) = root_cluster fs"
    "cluster_bytes (patch_cluster fs c off xs) = cluster_bytes fs"
  using assms valid_clusterD [OF assms(1)] by (simp_all add: patch_cluster_def)

lemma cluster_data_patch [vol_simps]:
  assumes "valid_cluster fs c" "valid_cluster fs j" "off + length xs \<le> cluster_bytes fs"
  shows "cluster_data (patch_cluster fs c off xs) j =
    (if j = c then blit (cluster_data fs c) off xs else cluster_data fs j)"
proof (cases "j = c")
  case True
  with assms valid_clusterD [OF assms(1)] show ?thesis
    by (simp add: patch_cluster_def cluster_data_def sub_list_blit_inside)
next
  case False
  with clusters_disjoint [OF assms(1,2)] assms valid_clusterD [OF assms(1)]
  show ?thesis by (auto simp: patch_cluster_def cluster_data_def intro!: sub_list_blit_other)
qed

lemma fat_entry_patch [vol_simps]:
  assumes "valid_cluster fs c" "valid_cluster fs j" "off + length xs \<le> cluster_bytes fs"
  shows "fat_entry (patch_cluster fs c off xs) j = fat_entry fs j"
  using assms(3) valid_clusterD [OF assms(1)] valid_clusterD [OF assms(2)]
  by (simp add: patch_cluster_def fat_entry_def fat_raw_def sub_list_blit_other)

text \<open>The sector and the offset in it that the code computes for a byte of a cluster.\<close>

lemma cluster_position:
  assumes "wf_fs fs" "valid_cluster fs c" "off < cluster_bytes fs"
  obtains start q r s g where
    "start_sector fs c = Val start"
    "u32_div (of_nat off) (bytes_per_sector fs) = Val q"
    "usize_mod off (bps fs) = Val r"
    "u32_add start q = Val s" "u32_mul s (bytes_per_sector fs) = Val g"
    "unat g + r = cluster_off fs c + off"
proof -
  note wf = wf_fsD [OF assms(1)] and vc = valid_clusterD [OF assms(2)]
  obtain st where st: "start_sector fs c = Val st" "unat st * bps fs = cluster_off fs c"
    using start_sector_ok [OF assms(1,2)] by blast
  let ?q = "off div bps fs" and ?r = "off mod bps fs"
  have "off < 2 ^ 32" using assms(3) vc(2) wf(4) by linarith
  then have q: "unat (of_nat off div bytes_per_sector fs) = ?q"
    by (simp add: unat_div unat_u32_of_nat)
  have qr: "?q * bps fs + ?r = off" by (rule div_mult_mod_eq)
  then have eq: "(unat st + ?q) * bps fs + ?r = cluster_off fs c + off"
    using st(2) by (simp add: add_mult_distrib)
  then have lt: "(unat st + ?q) * bps fs < 2 ^ 32" using vc(2) wf(4) assms(3) by linarith
  have "(unat st + ?q) * 1 \<le> (unat st + ?q) * bps fs" using wf(1) by (intro mult_le_mono2) simp
  from le_less_trans [OF this lt] have lt': "unat st + ?q < 2 ^ 32" by simp
  let ?s = "st + of_nat off div bytes_per_sector fs"
  have s: "unat ?s = unat st + ?q" using lt' q unat_u32_add [of st "of_nat off div bytes_per_sector fs"]
    by simp
  have g: "unat (?s * bytes_per_sector fs) = (unat st + ?q) * bps fs"
    using lt s unat_u32_mul [of ?s "bytes_per_sector fs"] by simp
  have nz: "bytes_per_sector fs \<noteq> 0" using wf(1) by auto
  show thesis
    by (rule that [of st "of_nat off div bytes_per_sector fs" ?r ?s "?s * bytes_per_sector fs"])
       (use st nz lt lt' s g eq q wf(1) in \<open>simp_all add: u32_div_def usize_mod_def u32_add_Val u32_mul_Val\<close>)
qed

lemma write_directory_entry_ok [vol_simps]:
  assumes "wf_fs fs" "valid_cluster fs c" "i * 32 + 32 \<le> cluster_bytes fs" "length e = 32"
  shows "write_directory_entry fs c i e = Val (patch_cluster fs c (i * 32) e)"
proof -
  obtain start q r s g where p: "start_sector fs c = Val start"
    "u32_div (of_nat (i * 32)) (bytes_per_sector fs) = Val q" "usize_mod (i * 32) (bps fs) = Val r"
    "u32_add start q = Val s" "u32_mul s (bytes_per_sector fs) = Val g"
    "unat g + r = cluster_off fs c + i * 32"
    by (rule cluster_position [OF assms(1,2), of "i * 32"]) (use assms(3) in linarith)+
  then show ?thesis
    using valid_clusterD(2) [OF assms(2)] assms(3,4)
    by (simp add: write_directory_entry_def copy_from_slice_def patch_cluster_def Let_def)
qed

section \<open>Directory slots as a store\<close>

lemma chunks_exact_blit:
  assumes "0 < n" "length e = n" "i < length d div n"
  shows "chunks_exact n (blit d (i * n) e) = (chunks_exact n d)[i := e]"
proof (rule nth_equalityI)
  have b: "i * n + n \<le> length d" using assms chunk_bound by blast
  then have len: "length (blit d (i * n) e) = length d" using assms(2) by simp
  then show "length (chunks_exact n (blit d (i * n) e)) = length ((chunks_exact n d)[i := e])"
    using assms(1) by (simp add: length_chunks_exact)
  fix j assume "j < length (chunks_exact n (blit d (i * n) e))"
  then have j: "j < length d div n" using len assms(1) by (simp add: length_chunks_exact)
  then have jb: "j * n + n \<le> length d" using assms(1) chunk_bound by blast
  have dis: "j * n + n \<le> i * n \<or> i * n + n \<le> j * n" if "j \<noteq> i"
  proof (cases "j < i")
    case True
    then have "Suc j * n \<le> i * n" by (intro mult_le_mono1) simp
    then show ?thesis by simp
  next
    case False
    with that have "Suc i * n \<le> j * n" by (intro mult_le_mono1) simp
    then show ?thesis by simp
  qed
  show "chunks_exact n (blit d (i * n) e) ! j = (chunks_exact n d)[i := e] ! j"
    using assms j b jb dis len
    by (cases "j = i") (auto simp: nth_chunks_exact length_chunks_exact sub_list_blit_other
        sub_list_blit_same [where xs = e, simplified assms(2)])
qed

definition dir_slots :: "Fat32FileSystem \<Rightarrow> u32 \<Rightarrow> u8 list list" where
  "dir_slots fs c = chunks_exact 32 (cluster_data fs c)"

lemma dir_listing_slots: "dir_listing fs c = dir_scan (dir_slots fs c) ([], None)"
  by (simp add: dir_listing_def dir_slots_def)

lemma length_dir_slots [simp]: "valid_cluster fs c \<Longrightarrow> length (dir_slots fs c) = cluster_bytes fs div 32"
  by (simp add: dir_slots_def length_chunks_exact)

lemma dir_slots_length: "s \<in> set (dir_slots fs c) \<Longrightarrow> length s = 32"
  using length_chunk [of 32] by (auto simp: dir_slots_def)

text \<open>A slot of a directory, as the code reads it: through the cluster.\<close>

definition read_slot :: "Fat32FileSystem \<Rightarrow> u32 \<times> nat \<Rightarrow> u8 list run" where
  "read_slot fs k = rbind (read_cluster fs (fst k)) (\<lambda>d. index (chunks_exact 32 d) (snd k))"

definition write_slot :: "Fat32FileSystem \<Rightarrow> u32 \<times> nat \<Rightarrow> u8 list \<Rightarrow> Fat32FileSystem run" where
  "write_slot fs k e = write_directory_entry fs (fst k) (snd k) e"

definition slot_ok :: "Fat32FileSystem \<Rightarrow> u32 \<times> nat \<Rightarrow> bool" where
  "slot_ok fs k \<longleftrightarrow> wf_fs fs \<and> valid_cluster fs (fst k) \<and> snd k < cluster_bytes fs div 32"

definition slot_fits :: "u8 list \<Rightarrow> bool" where
  "slot_fits e \<longleftrightarrow> length e = 32"

definition slot_value :: "u8 list \<Rightarrow> u8 list" where
  "slot_value e = e"

lemma slot_bound: "i < m div 32 \<Longrightarrow> i * 32 + 32 \<le> m" for i m :: nat
  using chunk_bound [of 32 i m] by simp

lemma dir_slots_patch [vol_simps]:
  assumes "valid_cluster fs c" "valid_cluster fs j" "i < cluster_bytes fs div 32" "length e = 32"
  shows "dir_slots (patch_cluster fs c (i * 32) e) j =
    (if j = c then (dir_slots fs c)[i := e] else dir_slots fs j)"
  using assms slot_bound [OF assms(3)]
  by (simp add: dir_slots_def cluster_data_patch chunks_exact_blit)

interpretation slots: keyed_store read_slot write_slot slot_ok slot_fits slot_value
proof
  fix s :: Fat32FileSystem and k j e s'
  assume k: "slot_ok s k"
  then have wk: "wf_fs s" "valid_cluster s (fst k)" "snd k < cluster_bytes s div 32"
    by (simp_all add: slot_ok_def)
  have rd: "read_slot t i = Val (dir_slots t (fst i) ! snd i)" if "slot_ok t i" for t i
    using that by (simp add: slot_ok_def read_slot_def read_cluster_ok index_def dir_slots_def
        length_chunks_exact)
  show "returns (read_slot s k)" using rd [OF k] by simp
  assume e: "slot_fits e"
  then have wr: "write_slot s k e = Val (patch_cluster s (fst k) (snd k * 32) e)"
    using wk slot_bound [OF wk(3)] by (simp add: write_slot_def write_directory_entry_ok slot_fits_def)
  then show "returns (write_slot s k e)" by simp
  assume "write_slot s k e = Val s'"
  with wr have s': "s' = patch_cluster s (fst k) (snd k * 32) e" by simp
  show ok: "slot_ok s' j = slot_ok s j" for j
    using wk e slot_bound [OF wk(3)] by (simp add: s' slot_ok_def slot_fits_def)
  show "read_slot s' k = Val (slot_value e)"
    using rd [of s' k] ok k wk e by (simp add: s' dir_slots_patch slot_fits_def slot_value_def)
  assume j: "slot_ok s j" "j \<noteq> k"
  then have "dir_slots s' (fst j) ! snd j = dir_slots s (fst j) ! snd j"
    using wk e by (cases j; cases k) (auto simp: s' dir_slots_patch slot_ok_def slot_fits_def)
  with j ok rd show "read_slot s' j = read_slot s j" by simp
qed

section \<open>Adding an entry to a directory\<close>

text \<open>
  A tidy directory: nothing but end markers after the first one, and no long name left waiting at a
  slot that is free.  Both are needed for a new entry to appear under its own name and alone.
\<close>

primrec tidy :: "u8 list list \<Rightarrow> scan_st \<Rightarrow> bool" where
  "tidy [] st = True"
| "tidy (c # cs) st =
     (if c ! 0 = 0x00 then fst st = [] \<and> list_all (\<lambda>c. c ! 0 = 0x00) cs
      else (c ! 0 = 0xE5 \<longrightarrow> fst st = []) \<and> tidy cs (entry_state c st))"

definition tidy_dir :: "Fat32FileSystem \<Rightarrow> u32 \<Rightarrow> bool" where
  "tidy_dir fs c \<longleftrightarrow> tidy (dir_slots fs c) ([], None)"

definition short_entry :: "u8 list \<Rightarrow> FileInfo" where
  "short_entry e = entry_with_name e (entry_short_name e)"

lemma entry_state_nonlfn: "c ! 0 = 0xE5 \<or> c ! 11 \<noteq> 0x0F \<Longrightarrow> entry_state c st = ([], None)"
  by (auto simp: entry_state_def)

lemma tidy_zeros: "list_all (\<lambda>c. c ! 0 = 0x00) cs \<Longrightarrow> tidy cs ([], None)"
  by (cases cs) auto

lemma entry_files_short: "data_entry e \<Longrightarrow> fst st = [] \<Longrightarrow> entry_files e st = [short_entry e]"
  by (cases st) (simp add: entry_files_data short_entry_def)

lemma scan_insert:
  assumes "data_entry e" "tidy cs st" "i < length cs" "slot_free (cs ! i)"
    and "\<forall>j < i. \<not> slot_free (cs ! j)"
  shows "tidy (cs[i := e]) st \<and> (\<exists>xs ys. dir_scan cs st = xs @ ys
    \<and> dir_scan (cs[i := e]) st = xs @ short_entry e # ys)"
  using assms(2-5)
proof (induction cs arbitrary: st i)
  case Nil
  then show ?case by simp
next
  case (Cons c cs)
  have e0: "e ! 0 \<noteq> 0" "e ! 0 \<noteq> 0xE5" using assms(1) by (simp_all add: data_entry_def)
  show ?case
  proof (cases i)
    case 0
    show ?thesis
    proof (cases "c ! 0 = 0x00")
      case True
      with Cons.prems(1) have z: "fst st = []" "list_all (\<lambda>c. c ! 0 = 0x00) cs" by auto
      then have "dir_scan cs s = []" for s by (cases cs) (auto simp: list_all_iff)
      with True z 0 e0 show ?thesis
        by (simp add: entry_state_data [OF assms(1)] tidy_zeros entry_files_short [OF assms(1)])
    next
      case False
      with 0 Cons.prems(3) have E5: "c ! 0 = 0xE5" by (simp add: slot_free_def)
      with Cons.prems(1) False have "fst st = []" "tidy cs ([], None)"
        by (simp_all add: entry_state_nonlfn)
      with E5 False 0 e0 show ?thesis
        by (simp add: entry_state_data [OF assms(1)] entry_state_nonlfn entry_files_short [OF assms(1)]
            entry_files_def [of c]) (rule exI [of _ "[]"], simp)
    qed
  next
    case (Suc k)
    have c: "c ! 0 \<noteq> 0" "c ! 0 \<noteq> 0xE5"
      using Cons.prems(4) Suc by (auto simp: slot_free_def dest!: spec [of _ 0])
    have nf: "\<forall>j < k. \<not> slot_free (cs ! j)"
      using Cons.prems(4) Suc by fastforce
    have IH: "tidy (cs[k := e]) (entry_state c st) \<and> (\<exists>xs ys. dir_scan cs (entry_state c st) = xs @ ys
      \<and> dir_scan (cs[k := e]) (entry_state c st) = xs @ short_entry e # ys)"
      using Cons.IH [of "entry_state c st" k] Cons.prems(1-3) Suc c nf by simp
    then obtain xs ys where "dir_scan cs (entry_state c st) = xs @ ys"
        "dir_scan (cs[k := e]) (entry_state c st) = xs @ short_entry e # ys" by blast
    then have "dir_scan (c # cs) st = (entry_files c st @ xs) @ ys"
      "dir_scan ((c # cs)[i := e]) st = (entry_files c st @ xs) @ short_entry e # ys"
      using c Suc by simp_all
    moreover have "tidy ((c # cs)[i := e]) st" using IH c Suc by simp
    ultimately show ?thesis by blast
  qed
qed

lemma find_inserted:
  assumes "P e" "\<forall>x \<in> set xs. \<not> P x"
  shows "find P (xs @ e # ys) = Some e"
  using assms by (induction xs) auto

lemma find_not_inserted: "\<not> P e \<Longrightarrow> find P (xs @ e # ys) = find P (xs @ ys)"
  by (induction xs) auto

section \<open>The entries that are written\<close>

text \<open>An entry of 32 bytes with the given name, attribute, first cluster and size zero.\<close>

definition plain_entry :: "u8 list \<Rightarrow> u8 \<Rightarrow> u32 \<Rightarrow> u8 list" where
  "plain_entry sn attr n = sn @ [attr] @ replicate 8 0
    @ u16_to_le_bytes (ucast (drop_bit 16 n)) @ replicate 4 0
    @ u16_to_le_bytes (ucast (n AND 0xFFFF)) @ replicate 4 0"

lemma list_11: "length sn = 11 \<Longrightarrow> \<exists>a b c d e f g h i j k. sn = [a,b,c,d,e,f,g,h,i,j,k]"
  by (auto simp: eval_nat_numeral length_Suc_conv)

lemma new_file_entry_eq:
  assumes "length sn = 11"
  shows "new_file_entry sn n = plain_entry sn 0x20 n"
  using list_11 [OF assms]
  by (auto simp: new_file_entry_def plain_entry_def Let_def blit_def eval_nat_numeral)

lemma new_dir_entry_eq:
  assumes "length sn = 11"
  shows "new_dir_entry sn n = plain_entry sn 0x10 n"
  using list_11 [OF assms]
  by (auto simp: new_dir_entry_def plain_entry_def Let_def blit_def u32_to_le_bytes_def eval_nat_numeral)

lemma u16_low_half: "(ucast (n AND 0xFFFF) :: u16) = ucast n" for n :: u32
proof -
  have m: "(0xFFFF :: u32) = mask 16" by (simp add: mask_eq_exp_minus_1)
  show ?thesis unfolding m by (rule bit_word_eqI) (auto simp: bit_simps)
qed

lemma plain_entry_fields:
  assumes "length sn = 11"
  shows "length (plain_entry sn attr n) = 32" "plain_entry sn attr n ! 0 = sn ! 0"
    "plain_entry sn attr n ! 11 = attr" "sub_list (plain_entry sn attr n) 0 11 = sn"
    "entry_start (plain_entry sn attr n) = n"
    "u32_from_le_bytes (sub_list (plain_entry sn attr n) 28 4) = 0"
proof -
  show "length (plain_entry sn attr n) = 32" "plain_entry sn attr n ! 0 = sn ! 0"
    "plain_entry sn attr n ! 11 = attr" "sub_list (plain_entry sn attr n) 0 11 = sn"
    using assms by (simp_all add: plain_entry_def nth_append sub_list_def)
  have "sub_list (plain_entry sn attr n) 20 2 = u16_to_le_bytes (ucast (drop_bit 16 n))"
    "sub_list (plain_entry sn attr n) 26 2 = u16_to_le_bytes (ucast (n AND 0xFFFF))"
    "sub_list (plain_entry sn attr n) 28 4 = replicate 4 0"
    using assms by (simp_all add: plain_entry_def sub_list_def)
  moreover have "replicate 4 (0 :: u8) = [0, 0, 0, 0]" by (simp add: eval_nat_numeral)
  moreover have "u32_from_le_bytes [0, 0, 0, 0] = 0" by (simp add: u32_from_le_bytes_def)
  ultimately show "entry_start (plain_entry sn attr n) = n"
    "u32_from_le_bytes (sub_list (plain_entry sn attr n) 28 4) = 0"
    using u32_high_low_round_trip [of n]
    by (simp_all add: entry_start_def u16_low_half)
qed

lemma plain_entry_short:
  assumes "length sn = 11" "sn ! 0 \<noteq> 0x00" "sn ! 0 \<noteq> 0xE5" "attr \<noteq> 0x0F" "attr AND 0x08 = 0"
  shows "data_entry (plain_entry sn attr n)"
    "short_entry (plain_entry sn attr n) =
       FileInfo_new (short_name_to_string sn) (attr AND 0x10 \<noteq> 0) 0 n"
  using assms by (simp_all add: data_entry_def short_entry_def entry_with_name_def entry_short_name_def
      plain_entry_fields)

end
