(* ===== verification/File_Create.thy ===== *)
theory File_Create
  imports File_Ops
begin

text \<open>
  Correctness of \<^verbatim>\<open>create_file\<close> and \<^verbatim>\<open>mkdir\<close>: the cluster that is allocated, the entry that
  appears in the parent directory, the paths that keep resolving, the cluster of a new directory.
\<close>

section \<open>Allocation on a well-formed volume\<close>

text \<open>The lowest free cluster, when it lies inside the volume and below the scan's bound.\<close>

definition first_free :: "Fat32FileSystem \<Rightarrow> u32 \<Rightarrow> bool" where
  "first_free fs n \<longleftrightarrow>
     valid_cluster fs n \<and> n < 50000 \<and> fat_entry fs n = 0
     \<and> list_all (\<lambda>j. fat_entry fs (of_nat j) \<noteq> 0) [2..<unat n]"

lemma valid_cluster_below:
  assumes "valid_cluster fs n" "2 \<le> j" "j \<le> n"
  shows "valid_cluster fs j"
proof -
  have u: "2 \<le> unat j" "unat j \<le> unat n" using assms(2,3) by (simp_all add: word_le_nat_alt)
  then have "(unat (data_sector fs) + (unat j - 2) * spc fs) * bps fs
      \<le> (unat (data_sector fs) + (unat n - 2) * spc fs) * bps fs"
    by (intro mult_le_mono1 add_left_mono) simp
  then have "cluster_off fs j \<le> cluster_off fs n" by (simp add: cluster_off_def)
  moreover have "fat_off fs j \<le> fat_off fs n" using u by (simp add: fat_off_def)
  ultimately show ?thesis
    using assms(2) valid_clusterD [OF assms(1)] by (simp add: valid_cluster_def)
qed

definition mark_used :: "Fat32FileSystem \<Rightarrow> u32 \<Rightarrow> Fat32FileSystem" where
  "mark_used fs n = fs\<lparr>disk := fat_blit fs n 0x0FFFFFFF\<rparr>"

lemma allocate_cluster_ok:
  assumes "wf_fs fs" "first_free fs n"
  shows "allocate_cluster fs = Val (Inr n, mark_used fs n)"
proof -
  have n: "valid_cluster fs n" "n < 50000" "fat_entry fs n = 0"
    "\<forall>j \<in> {2..<unat n}. fat_entry fs (of_nat j) \<noteq> 0"
    using assms(2) by (simp_all add: first_free_def list_all_iff)
  have "fat_taken fs j" if "2 \<le> j" "j < n" for j
  proof -
    have "valid_cluster fs j" using valid_cluster_below [OF n(1) that(1)] that(2) by simp
    moreover have "unat j \<in> {2..<unat n}"
      using that by (simp add: word_le_nat_alt word_less_nat_alt)
    with n(4) have "fat_entry fs (of_nat (unat j)) \<noteq> 0" by blast
    ultimately show ?thesis using assms(1) by (simp add: fat_taken_def read_fat_entry_ok)
  qed
  moreover have "2 \<le> n" using n(1) by (simp add: valid_cluster_def)
  ultimately show ?thesis
    using assms(1) n by (simp add: allocate_cluster_def allocate_scan_Inr read_fat_entry_ok
        write_fat_entry_ok mark_used_def)
qed

lemma mark_used_simps [simp]:
  assumes "valid_cluster fs n"
  shows "wf_fs (mark_used fs n) = wf_fs fs" "valid_cluster (mark_used fs n) c = valid_cluster fs c"
    "root_cluster (mark_used fs n) = root_cluster fs" "cluster_bytes (mark_used fs n) = cluster_bytes fs"
    "valid_cluster fs c \<Longrightarrow> cluster_data (mark_used fs n) c = cluster_data fs c"
    "valid_cluster fs c \<Longrightarrow> dir_slots (mark_used fs n) c = dir_slots fs c"
    "valid_cluster fs c \<Longrightarrow>
       fat_entry (mark_used fs n) c = (if c = n then 0x0FFFFFFF else fat_entry fs c)"
  using assms by (simp_all add: mark_used_def cluster_data_fat_update fat_entry_update dir_slots_def)

section \<open>Creating a file\<close>

lemma find_free_slot_slots: "find_free_slot (cluster_data fs c) = find_index slot_free (dir_slots fs c)"
  by (simp add: find_free_slot_def dir_slots_def)

lemma format_to_8_3_length: "format_to_8_3 uc nm = Inr sn \<Longrightarrow> length sn = 11"
  by (auto simp: format_to_8_3_eq split: if_splits)

text \<open>The volume after an entry went to a slot of a directory.\<close>

definition add_entry :: "Fat32FileSystem \<Rightarrow> u32 \<Rightarrow> nat \<Rightarrow> u8 list \<Rightarrow> Fat32FileSystem" where
  "add_entry fs pc i e = patch_cluster fs pc (i * 32) e"

definition create_ready ::
    "upper_table \<Rightarrow> Fat32FileSystem \<Rightarrow> str \<Rightarrow> str \<Rightarrow> u32 \<Rightarrow> u8 list \<Rightarrow> u32 \<Rightarrow> nat \<Rightarrow> bool" where
  "create_ready uc fs parent_path nm pc sn n i \<longleftrightarrow>
     wf_fs fs \<and> valid_cluster fs pc \<and> resolve_parent fs parent_path = Val (Some pc)
     \<and> format_to_8_3 uc nm = Inr sn \<and> first_free fs n \<and> find_index slot_free (dir_slots fs pc) = Some i"

lemma create_readyD:
  assumes "create_ready uc fs pp nm pc sn n i"
  shows "wf_fs fs" "valid_cluster fs pc" "valid_cluster fs n" "length sn = 11"
    "i < cluster_bytes fs div 32" "i * 32 + 32 \<le> cluster_bytes fs" "i < length (dir_slots fs pc)"
    "slot_free (dir_slots fs pc ! i)" "\<forall>j < i. \<not> slot_free (dir_slots fs pc ! j)"
  using assms slot_bound [of i "cluster_bytes fs"] find_index_Some [of slot_free "dir_slots fs pc" i]
  by (auto simp: create_ready_def first_free_def format_to_8_3_length)

lemma create_file_ok:
  assumes "create_ready uc fs pp nm pc sn n i"
  shows "create_file uc fs pp nm = Val (Inr (), add_entry (mark_used fs n) pc i (plain_entry sn 0x20 n))"
proof -
  note r = create_readyD [OF assms]
  have s: "resolve_parent fs pp = Val (Some pc)" "format_to_8_3 uc nm = Inr sn" "first_free fs n"
      "find_index slot_free (dir_slots fs pc) = Some i"
    using assms by (simp_all add: create_ready_def)
  from s r show ?thesis
    by (simp add: create_file_def allocate_cluster_ok [OF r(1) s(3)] read_cluster_ok
        find_free_slot_slots new_file_entry_eq write_directory_entry_ok plain_entry_fields add_entry_def)
qed

lemma add_entry_simps:
  assumes "valid_cluster fs pc" "i < cluster_bytes fs div 32" "length e = 32"
  shows "wf_fs (add_entry fs pc i e) = wf_fs fs"
    "valid_cluster (add_entry fs pc i e) c = valid_cluster fs c"
    "root_cluster (add_entry fs pc i e) = root_cluster fs"
    "cluster_bytes (add_entry fs pc i e) = cluster_bytes fs"
    "valid_cluster fs c \<Longrightarrow> dir_slots (add_entry fs pc i e) c =
       (if c = pc then (dir_slots fs pc)[i := e] else dir_slots fs c)"
    "valid_cluster fs c \<Longrightarrow> c \<noteq> pc \<Longrightarrow> cluster_data (add_entry fs pc i e) c = cluster_data fs c"
    "valid_cluster fs c \<Longrightarrow> fat_entry (add_entry fs pc i e) c = fat_entry fs c"
  using assms slot_bound [OF assms(2)]
  by (simp_all add: add_entry_def dir_slots_patch cluster_data_patch fat_entry_patch)

text \<open>The conditions under which a new entry appears in a directory, alone and under its own name.\<close>

definition can_add :: "Fat32FileSystem \<Rightarrow> u32 \<Rightarrow> nat \<Rightarrow> u8 list \<Rightarrow> bool" where
  "can_add fs pc i e \<longleftrightarrow>
     wf_fs fs \<and> valid_cluster fs pc \<and> tidy_dir fs pc
     \<and> find_index slot_free (dir_slots fs pc) = Some i \<and> data_entry e"

lemma can_addD:
  assumes "can_add fs pc i e"
  shows "wf_fs fs" "valid_cluster fs pc" "tidy_dir fs pc" "i < cluster_bytes fs div 32" "length e = 32"
    "data_entry e" "i < length (dir_slots fs pc)" "slot_free (dir_slots fs pc ! i)"
    "\<forall>j < i. \<not> slot_free (dir_slots fs pc ! j)"
  using assms find_index_Some [of slot_free "dir_slots fs pc" i]
  by (auto simp: can_add_def data_entry_def)

lemma add_entry_listing:
  assumes "can_add fs pc i e"
  obtains xs ys where "dir_listing fs pc = xs @ ys"
    "dir_listing (add_entry fs pc i e) pc = xs @ short_entry e # ys"
    "tidy_dir (add_entry fs pc i e) pc"
proof -
  note r = can_addD [OF assms]
  from scan_insert [OF r(6) _ r(7-9)] r(3) show thesis
    using that by (auto simp: tidy_dir_def dir_listing_slots add_entry_simps(5) [OF r(2,4,5,2)])
qed

lemma add_entry_listing_other:
  assumes "can_add fs pc i e" "valid_cluster fs c" "c \<noteq> pc"
  shows "dir_listing (add_entry fs pc i e) c = dir_listing fs c"
    "tidy_dir (add_entry fs pc i e) c = tidy_dir fs c"
  using assms can_addD [OF assms(1)]
  by (simp_all add: dir_listing_slots tidy_dir_def add_entry_simps)

lemma add_entry_set:
  assumes "can_add fs pc i e" "valid_cluster fs c"
  shows "set (dir_listing (add_entry fs pc i e) c) =
    (if c = pc then insert (short_entry e) (set (dir_listing fs c)) else set (dir_listing fs c))"
  by (rule add_entry_listing [OF assms(1)]) (use add_entry_listing_other [OF assms] in auto)

lemma add_entry_lookup:
  assumes "can_add fs pc i e" "valid_cluster fs c"
    and "dir_lookup fs pc (fi_name (short_entry e)) = None"
  shows "dir_lookup (add_entry fs pc i e) c nm =
    (if c = pc \<and> nm = fi_name (short_entry e) then Some (short_entry e) else dir_lookup fs c nm)"
proof (cases "c = pc")
  case True
  obtain xs ys where l: "dir_listing fs pc = xs @ ys"
      "dir_listing (add_entry fs pc i e) pc = xs @ short_entry e # ys"
    by (rule add_entry_listing [OF assms(1)])
  have "\<forall>x \<in> set xs. fi_name x \<noteq> fi_name (short_entry e)"
    using assms(3) l(1) by (auto simp: dir_lookup_def find_None_iff)
  then show ?thesis
    using True l by (auto simp: dir_lookup_def find_inserted find_not_inserted)
next
  case False
  with add_entry_listing_other [OF assms(1,2)] show ?thesis by (simp add: dir_lookup_def)
qed

lemma add_entry_dirs_closed:
  assumes "can_add fs pc i e" "dirs_closed fs D"
    and "fi_name (short_entry e) \<noteq> lit ''..''"
    and "is_directory (short_entry e) \<Longrightarrow> start_cluster (short_entry e) \<in> set D"
  shows "dirs_closed (add_entry fs pc i e) D"
proof -
  note r = can_addD [OF assms(1)]
  have v: "valid_cluster fs c" if "c \<in> set D" for c using that assms(2) dirs_closedD(1) by blast
  show ?thesis
    using assms(2-4) v r(2,4,5)
    by (auto simp: dirs_closed_def list_all_iff add_entry_simps add_entry_set [OF assms(1)] split: if_splits)
qed

section \<open>Directories by path\<close>

text \<open>The directory a parent path names: the root for the empty path and \<^verbatim>\<open>/\<close>.\<close>

definition parent_dir :: "Fat32FileSystem \<Rightarrow> str \<Rightarrow> u32 option" where
  "parent_dir fs pp =
     (if pp = [] \<or> pp = lit ''/'' then Some (root_cluster fs)
      else case parse_path fs pp None of
        Val (Some d) \<Rightarrow> if is_directory d then Some (start_cluster d) else None
      | _ \<Rightarrow> None)"

lemma path_start_None [simp]: "path_start fs p None = root_cluster fs"
  by (simp add: path_start_def)

lemma parent_dir_resolve: "parent_dir fs pp = Some pc \<Longrightarrow> resolve_parent fs pp = Val (Some pc)"
  by (auto simp: parent_dir_def resolve_parent_def split: run.splits option.splits if_splits)

lemma parent_dir_in:
  assumes "wf_fs fs" "dirs_closed fs D" "parent_dir fs pp = Some pc"
  shows "pc \<in> set D"
  using assms(3) parse_path_resolves [OF assms(1,2), of None pp] dirs_closed_root [OF assms(2)]
  by (auto simp: parent_dir_def cur_in_def split: run.splits option.splits if_splits)

definition plain_name :: "str \<Rightarrow> bool" where
  "plain_name nm \<longleftrightarrow> nm \<noteq> [] \<and> 0x2F \<notin> set nm \<and> nm \<noteq> lit ''.'' \<and> nm \<noteq> lit ''..''"

lemma parse_path_loop_last:
  assumes "wf_fs fs" "dirs_closed fs D" "c \<in> set D" "parse_path_loop fs ps c = Val (Some f)"
  shows "ps \<noteq> []" "last ps \<noteq> lit ''.''"
proof -
  have "resolves fs c ps f"
    using parse_path_loop_resolves [OF assms(1-3), of ps] assms(4) by auto
  then have "ps \<noteq> [] \<and> last ps \<noteq> lit ''.''" by (induction rule: resolves.induct) auto
  then show "ps \<noteq> []" "last ps \<noteq> lit ''.''" by auto
qed

text \<open>A name below a directory path is looked up in that directory.\<close>

lemma parse_path_child:
  assumes "wf_fs fs" "dirs_closed fs D" "parent_dir fs pp = Some pc" "plain_name nm"
  shows "parse_path fs (pp @ 0x2F # nm) None = Val (dir_lookup fs pc nm)"
proof -
  have nm: "0x2F \<notin> set nm" "nm \<noteq> []" "nm \<noteq> lit ''.''" "nm \<noteq> lit ''..''"
    using assms(4) by (auto simp: plain_name_def)
  have pc: "pc \<in> set D" using parent_dir_in [OF assms(1-3)] .
  have look: "parse_path_loop fs [nm] c = Val (dir_lookup fs c nm)" if "c \<in> set D" for c
    using nm dirs_closedD(1) [OF assms(2) that]
    by (simp add: parse_path_loop_Cons [OF assms(1)] split: option.splits del: parse_path_loop.simps)
  note root = dirs_closed_root [OF assms(2)]
  show ?thesis
  proof (cases "pp = [] \<or> pp = lit ''/''")
    case True
    then have "path_parts (pp @ 0x2F # nm) = [nm]" "pc = root_cluster fs"
      using path_parts_file(2) [OF nm(1,2), of pp] assms(3)
      by (auto simp: path_parts_def lit_def parent_dir_def)
    with look root show ?thesis by (simp add: parse_path_eq)
  next
    case False
    then obtain d where d: "parse_path fs pp None = Val (Some d)" "is_directory d" "start_cluster d = pc"
      using assms(3) by (auto simp: parent_dir_def split: run.splits option.splits if_splits)
    have "parse_path_loop fs (path_parts pp) (root_cluster fs) = Val (Some d)"
      using d(1) by (simp add: parse_path_eq)
    note last = parse_path_loop_last [OF assms(1,2) root this] and this
    then show ?thesis
      using d(2,3) look [OF pc] by (simp add: parse_path_eq path_parts_file(2) [OF nm(1,2)]
          parse_path_loop_append [OF assms(1,2) root last])
  qed
qed

text \<open>Directory paths survive a change under which the lookups of the tree survive.\<close>

lemma parent_dir_mono:
  assumes "wf_fs fs" "wf_fs fs'" "dirs_closed fs D" "\<forall>c \<in> set D. valid_cluster fs' c"
    and "root_cluster fs' = root_cluster fs"
    and "\<And>c nm f. c \<in> set D \<Longrightarrow> dir_lookup fs c nm = Some f \<Longrightarrow>
      \<exists>f'. dir_lookup fs' c nm = Some f' \<and> is_directory f' = is_directory f
        \<and> start_cluster f' = start_cluster f"
    and "parent_dir fs pp = Some pc"
  shows "parent_dir fs' pp = Some pc"
proof (cases "pp = [] \<or> pp = lit ''/''")
  case True
  with assms(5,7) show ?thesis by (auto simp: parent_dir_def)
next
  case False
  then obtain d where d: "parse_path fs pp None = Val (Some d)" "is_directory d" "start_cluster d = pc"
    using assms(7) by (auto simp: parent_dir_def split: run.splits option.splits if_splits)
  let ?R = "\<lambda>f f'. is_directory f' = is_directory f \<and> start_cluster f' = start_cluster f"
  have "\<exists>f'. parse_path_loop fs' (path_parts pp) (root_cluster fs) = Val (Some f') \<and> ?R d f'"
    using assms(6) d(1) dirs_closed_root [OF assms(3)]
    by (intro parse_path_loop_mono [where R = ?R, OF assms(1-5)])
       (auto simp: parse_path_eq)
  with False d(2,3) assms(5) show ?thesis
    by (auto simp: parent_dir_def parse_path_eq)
qed

section \<open>After creating a file\<close>

lemma dirs_closed_same:
  assumes "root_cluster fs' = root_cluster fs" "\<And>c. valid_cluster fs' c = valid_cluster fs c"
    and "\<And>c. valid_cluster fs c \<Longrightarrow> c \<in> set D \<Longrightarrow> dir_listing fs' c = dir_listing fs c"
  shows "dirs_closed fs' D = dirs_closed fs D"
  unfolding dirs_closed_def list_all_iff assms(1,2)
  by (intro conj_cong ball_cong refl) (simp_all add: assms(3))

lemma mark_used_dirs:
  assumes "valid_cluster fs n"
  shows "valid_cluster fs c \<Longrightarrow> dir_listing (mark_used fs n) c = dir_listing fs c"
    "valid_cluster fs c \<Longrightarrow> dir_lookup (mark_used fs n) c nm = dir_lookup fs c nm"
    "valid_cluster fs c \<Longrightarrow> tidy_dir (mark_used fs n) c = tidy_dir fs c"
    "dirs_closed (mark_used fs n) D = dirs_closed fs D"
proof -
  show l: "valid_cluster fs c \<Longrightarrow> dir_listing (mark_used fs n) c = dir_listing fs c" for c
    using assms by (simp add: dir_listing_slots)
  then show "valid_cluster fs c \<Longrightarrow> dir_lookup (mark_used fs n) c nm = dir_lookup fs c nm"
    by (simp add: dir_lookup_def)
  show "valid_cluster fs c \<Longrightarrow> tidy_dir (mark_used fs n) c = tidy_dir fs c"
    using assms by (simp add: tidy_dir_def)
  show "dirs_closed (mark_used fs n) D = dirs_closed fs D"
    using assms l by (intro dirs_closed_same) simp_all
qed

lemma create_ready_can_add:
  assumes "create_ready uc fs pp nm pc sn n i" "tidy_dir fs pc" "sn ! 0 \<noteq> 0x00" "sn ! 0 \<noteq> 0xE5"
  shows "can_add (mark_used fs n) pc i (plain_entry sn 0x20 n)"
    "short_entry (plain_entry sn 0x20 n) = FileInfo_new (short_name_to_string sn) False 0 n"
  using assms create_readyD [OF assms(1)] plain_entry_short [of sn "0x20" n]
  by (auto simp: can_add_def create_ready_def mark_used_dirs)

section \<open>A new directory's cluster\<close>

text \<open>The entries \<^verbatim>\<open>.\<close> and \<^verbatim>\<open>..\<close> of a new directory, and its whole cluster.\<close>

definition dot_name :: "u8 list" where
  "dot_name = lit ''.          ''"

definition dotdot_name :: "u8 list" where
  "dotdot_name = lit ''..         ''"

definition dir_image :: "u32 \<Rightarrow> u32 \<Rightarrow> nat \<Rightarrow> u8 list" where
  "dir_image n pv sz =
     plain_entry dot_name 0x10 n @ plain_entry dotdot_name 0x10 pv @ replicate (sz - 64) 0"

lemma dot_names:
  "length dot_name = 11" "length dotdot_name = 11" "dot_name ! 0 = 0x2E" "dotdot_name ! 0 = 0x2E"
  "short_name_to_string dot_name = lit ''.''" "short_name_to_string dotdot_name = lit ''..''"
  by code_simp+

lemma copy_from_slice_ok:
  "off + length xs \<le> length d \<Longrightarrow> copy_from_slice d off xs = Val (blit d off xs)"
  by (simp add: copy_from_slice_def)

lemma blit_append_left:
  "off + length xs \<le> length a \<Longrightarrow> blit (a @ b) off xs = blit a off xs @ b"
  by (simp add: blit_def)

lemma dir_image_64:
  "blit (blit (blit (blit (blit (blit (blit (blit (replicate 64 0)
      0 (lit ''.          '')) 11 [0x10]) 20 (u16_to_le_bytes h)) 26 (u16_to_le_bytes l))
      32 (lit ''..         '')) 43 [0x10]) 52 (u16_to_le_bytes h')) 58 (u16_to_le_bytes l')
   = dot_name @ [0x10] @ replicate 8 0 @ u16_to_le_bytes h @ replicate 4 0 @ u16_to_le_bytes l
     @ replicate 4 0 @ dotdot_name @ [0x10] @ replicate 8 0 @ u16_to_le_bytes h' @ replicate 4 0
     @ u16_to_le_bytes l' @ replicate 4 0"
  by (simp add: blit_def dot_name_def dotdot_name_def lit_def u16_to_le_bytes_def eval_nat_numeral)

text \<open>
  \<^verbatim>\<open>init_directory_cluster\<close> replaces the whole cluster by that image; the parent is written as 0
  when it is the root.
\<close>

lemma init_directory_cluster_ok:
  assumes "wf_fs fs" "valid_cluster fs n" "64 \<le> cluster_bytes fs"
  shows "init_directory_cluster fs n pc = Val (patch_cluster fs n 0
    (dir_image n (if pc = root_cluster fs then 0 else pc) (cluster_bytes fs)))"
proof -
  note wf = wf_fsD [OF assms(1)] and vc = valid_clusterD [OF assms(2)]
  have "cluster_bytes fs < 2 ^ 32" using vc(2-4) wf(4) by linarith
  then have cs: "u32_mul (sectors_per_cluster fs) (bytes_per_sector fs)
      = Val (sectors_per_cluster fs * bytes_per_sector fs)"
    "unat (sectors_per_cluster fs * bytes_per_sector fs) = cluster_bytes fs"
    by (simp_all add: u32_mul_Val unat_u32_mul cluster_bytes_def)
  have rep: "replicate (cluster_bytes fs) (0 :: u8) = replicate 64 0 @ replicate (cluster_bytes fs - 64) 0"
    using assms(3) by (simp flip: replicate_add)
  obtain st where st: "start_sector fs n = Val st" "unat st * bps fs = cluster_off fs n"
    using start_sector_ok [OF assms(1,2)] by blast
  have "unat st * bps fs < 2 ^ 32" using st(2) vc(2) wf(4,5) by linarith
  then have g: "u32_mul st (bytes_per_sector fs) = Val (st * bytes_per_sector fs)"
    "unat (st * bytes_per_sector fs) = cluster_off fs n"
    using st(2) by (simp_all add: u32_mul_Val unat_u32_mul)
  have len: "length (lit ''.          '') = 11" "length (lit ''..         '') = 11"
    by (simp_all add: lit_def)
  show ?thesis
    using vc(2) assms(3)
    by (simp add: init_directory_cluster_def cs rep copy_from_slice_ok len blit_append_left
        dir_image_64 st(1) g Let_def patch_cluster_def dir_image_def plain_entry_def u16_low_half dot_names)
qed

lemma length_dir_image [simp]: "64 \<le> sz \<Longrightarrow> length (dir_image n pv sz) = sz"
  by (simp add: dir_image_def plain_entry_fields dot_names)

lemma chunks_exact_append:
  "length a = n \<Longrightarrow> 0 < n \<Longrightarrow> chunks_exact n (a @ b) = a # chunks_exact n b"
  by (subst chunks_exact.simps) simp

lemma chunks_exact_zeros: "\<forall>c \<in> set (chunks_exact n (replicate m (0 :: u8))). 0 < n \<longrightarrow> c ! 0 = 0"
proof (induction n "replicate m (0 :: u8)" arbitrary: m rule: chunks_exact.induct)
  case (1 n)
  show ?case
  proof (cases "0 < n \<and> n \<le> m")
    case True
    then have "chunks_exact n (replicate m (0 :: u8)) = replicate n 0 # chunks_exact n (replicate (m - n) 0)"
      by (subst chunks_exact.simps) (simp add: min_def)
    moreover have "\<forall>c \<in> set (chunks_exact n (replicate (m - n) (0 :: u8))). 0 < n \<longrightarrow> c ! 0 = 0"
      using 1 True by simp
    ultimately show ?thesis using True by simp
  next
    case False
    then show ?thesis by (subst chunks_exact.simps) auto
  qed
qed

text \<open>A new directory lists itself and its parent, and nothing else.\<close>

lemma dir_image_slots:
  assumes "64 \<le> sz"
  obtains zs where "chunks_exact 32 (dir_image n pv sz)
      = plain_entry dot_name 0x10 n # plain_entry dotdot_name 0x10 pv # zs"
    "list_all (\<lambda>c. c ! 0 = 0x00) zs"
  by (rule that [of "chunks_exact 32 (replicate (sz - 64) 0)"])
     (use chunks_exact_zeros [of 32 "sz - 64"] in
      \<open>simp_all add: dir_image_def chunks_exact_append plain_entry_fields dot_names list_all_iff\<close>)

lemma dir_image_scan:
  assumes "64 \<le> sz"
  shows "dir_scan (chunks_exact 32 (dir_image n pv sz)) ([], None) =
      [FileInfo_new (lit ''.'') True 0 n, FileInfo_new (lit ''..'') True 0 pv]"
    "tidy (chunks_exact 32 (dir_image n pv sz)) ([], None)"
proof -
  obtain zs where zs: "chunks_exact 32 (dir_image n pv sz)
      = plain_entry dot_name 0x10 n # plain_entry dotdot_name 0x10 pv # zs"
    "list_all (\<lambda>c. c ! 0 = 0x00) zs"
    by (rule dir_image_slots [OF assms])
  have d: "data_entry (plain_entry dot_name 0x10 n)" "data_entry (plain_entry dotdot_name 0x10 pv)"
    by (simp_all add: plain_entry_short dot_names)
  have z: "dir_scan zs st = []" for st using zs(2) dir_scan_end by (simp add: list_all_iff)
  show "dir_scan (chunks_exact 32 (dir_image n pv sz)) ([], None) =
      [FileInfo_new (lit ''.'') True 0 n, FileInfo_new (lit ''..'') True 0 pv]"
    by (simp add: zs(1) z d entry_files_short entry_state_data plain_entry_fields plain_entry_short dot_names)
  show "tidy (chunks_exact 32 (dir_image n pv sz)) ([], None)"
    by (simp add: zs d entry_state_data plain_entry_fields dot_names tidy_zeros)
qed

section \<open>Creating a directory\<close>

definition fresh_dir :: "Fat32FileSystem \<Rightarrow> u32 \<Rightarrow> u32 \<Rightarrow> Fat32FileSystem" where
  "fresh_dir fs n pc = patch_cluster (mark_used fs n) n 0
     (dir_image n (if pc = root_cluster fs then 0 else pc) (cluster_bytes fs))"

lemma fresh_dir_simps:
  assumes "valid_cluster fs n" "64 \<le> cluster_bytes fs"
  shows "wf_fs (fresh_dir fs n pc) = wf_fs fs" "valid_cluster (fresh_dir fs n pc) c = valid_cluster fs c"
    "root_cluster (fresh_dir fs n pc) = root_cluster fs"
    "cluster_bytes (fresh_dir fs n pc) = cluster_bytes fs"
    "valid_cluster fs c \<Longrightarrow> cluster_data (fresh_dir fs n pc) c =
       (if c = n then dir_image n (if pc = root_cluster fs then 0 else pc) (cluster_bytes fs)
        else cluster_data fs c)"
    "valid_cluster fs c \<Longrightarrow>
       fat_entry (fresh_dir fs n pc) c = (if c = n then 0x0FFFFFFF else fat_entry fs c)"
  using assms by (simp_all add: fresh_dir_def cluster_data_patch fat_entry_patch blit_def)

lemma fresh_dir_dirs:
  assumes "valid_cluster fs n" "64 \<le> cluster_bytes fs"
  shows "valid_cluster fs c \<Longrightarrow> c \<noteq> n \<Longrightarrow> dir_slots (fresh_dir fs n pc) c = dir_slots fs c"
    "valid_cluster fs c \<Longrightarrow> c \<noteq> n \<Longrightarrow> dir_listing (fresh_dir fs n pc) c = dir_listing fs c"
    "valid_cluster fs c \<Longrightarrow> c \<noteq> n \<Longrightarrow> dir_lookup (fresh_dir fs n pc) c nm = dir_lookup fs c nm"
    "valid_cluster fs c \<Longrightarrow> c \<noteq> n \<Longrightarrow> tidy_dir (fresh_dir fs n pc) c = tidy_dir fs c"
    "dir_listing (fresh_dir fs n pc) n = [FileInfo_new (lit ''.'') True 0 n,
       FileInfo_new (lit ''..'') True 0 (if pc = root_cluster fs then 0 else pc)]"
    "tidy_dir (fresh_dir fs n pc) n"
  using assms dir_image_scan [OF assms(2)]
  by (simp_all add: dir_slots_def dir_listing_slots dir_lookup_def tidy_dir_def fresh_dir_simps)

lemma mkdir_ok:
  assumes "create_ready uc fs pp nm pc sn n i" "pc \<noteq> n" "64 \<le> cluster_bytes fs"
  shows "mkdir uc fs pp nm = Val (Inr (), add_entry (fresh_dir fs n pc) pc i (plain_entry sn 0x10 n))"
proof -
  note r = create_readyD [OF assms(1)]
  have s: "resolve_parent fs pp = Val (Some pc)" "format_to_8_3 uc nm = Inr sn" "first_free fs n"
      "find_index slot_free (dir_slots fs pc) = Some i"
    using assms(1) by (simp_all add: create_ready_def)
  have i: "init_directory_cluster (mark_used fs n) n pc = Val (fresh_dir fs n pc)"
    using r assms(3) by (simp add: init_directory_cluster_ok fresh_dir_def)
  from s r assms(2,3) show ?thesis
    by (simp add: mkdir_def allocate_cluster_ok [OF r(1) s(3)] i read_cluster_ok fresh_dir_simps
        find_free_slot_slots new_dir_entry_eq write_directory_entry_ok plain_entry_fields add_entry_def)
qed

lemma mkdir_can_add:
  assumes "create_ready uc fs pp nm pc sn n i" "pc \<noteq> n" "64 \<le> cluster_bytes fs"
    and "tidy_dir fs pc" "sn ! 0 \<noteq> 0x00" "sn ! 0 \<noteq> 0xE5"
  shows "can_add (fresh_dir fs n pc) pc i (plain_entry sn 0x10 n)"
    "short_entry (plain_entry sn 0x10 n) = FileInfo_new (short_name_to_string sn) True 0 n"
  using assms create_readyD [OF assms(1)] plain_entry_short [of sn "0x10" n]
  by (auto simp: can_add_def create_ready_def fresh_dir_dirs fresh_dir_simps)

end
