(* ===== verification/File_Write.thy ===== *)
theory File_Write
  imports File_Create
begin

text \<open>
  Correctness of \<^verbatim>\<open>update_file_size\<close> and \<^verbatim>\<open>write_file\<close>: which slot a listed file comes from, what
  changing its size does to every listing, and that a file read after a write holds what was written.
\<close>

section \<open>Which slot a listed file comes from\<close>

primrec dir_scan_idx :: "nat \<Rightarrow> u8 list list \<Rightarrow> scan_st \<Rightarrow> (nat \<times> FileInfo) list" where
  "dir_scan_idx k [] st = []"
| "dir_scan_idx k (c # cs) st =
     (if c ! 0 = 0x00 then []
      else map (Pair k) (entry_files c st) @ dir_scan_idx (Suc k) cs (entry_state c st))"

definition lookup_slot :: "Fat32FileSystem \<Rightarrow> u32 \<Rightarrow> str \<Rightarrow> (nat \<times> FileInfo) option" where
  "lookup_slot fs c nm = find (\<lambda>p. fi_name (snd p) = nm) (dir_scan_idx 0 (dir_slots fs c) ([], None))"

lemma dir_scan_idx_snd: "map snd (dir_scan_idx k cs st) = dir_scan cs st"
  by (induction cs arbitrary: k st) (auto simp: comp_def)

lemma find_map: "find P (map f xs) = map_option f (find (P \<circ> f) xs)"
  by (induction xs) auto

lemma lookup_slot_lookup: "dir_lookup fs c nm = map_option snd (lookup_slot fs c nm)"
  by (simp add: dir_lookup_def lookup_slot_def dir_listing_slots
      flip: dir_scan_idx_snd [of 0]) (simp add: find_map comp_def)

lemma dir_scan_idx_ge: "p \<in> set (dir_scan_idx k cs st) \<Longrightarrow> k \<le> fst p"
proof (induction cs arbitrary: k st)
  case (Cons c cs)
  then show ?case by (fastforce split: if_splits dest: Suc_leD)
qed simp

lemma dir_scan_idx_entry:
  "p \<in> set (dir_scan_idx k cs st) \<Longrightarrow>
   \<exists>i < length cs. fst p = k + i \<and> cs ! i ! 11 \<noteq> 0x0F \<and> cs ! i ! 0 \<noteq> 0xE5 \<and> cs ! i ! 0 \<noteq> 0"
proof (induction cs arbitrary: k st)
  case (Cons c cs)
  then consider "p \<in> Pair k ` set (entry_files c st)" "c ! 0 \<noteq> 0"
    | "p \<in> set (dir_scan_idx (Suc k) cs (entry_state c st))"
    by (auto split: if_splits)
  then show ?case
  proof cases
    case 1
    then show ?thesis by (intro exI [of _ 0]) (auto simp: entry_files_def split: if_splits)
  next
    case 2
    from Cons.IH [OF this] obtain i where "i < length cs" "fst p = Suc k + i"
        "cs ! i ! 11 \<noteq> 0x0F" "cs ! i ! 0 \<noteq> 0xE5" "cs ! i ! 0 \<noteq> 0" by blast
    then show ?thesis by (intro exI [of _ "Suc i"]) simp
  qed
qed simp

lemma find_SomeD: "find P xs = Some x \<Longrightarrow> P x \<and> x \<in> set xs"
  by (induction xs) (auto split: if_splits)

lemma lookup_slot_Some:
  assumes "lookup_slot fs c nm = Some (i, f)"
  shows "i < length (dir_slots fs c)" "dir_slots fs c ! i ! 11 \<noteq> 0x0F" "dir_slots fs c ! i ! 0 \<noteq> 0xE5"
    "fi_name f = nm"
proof -
  from assms have "(i, f) \<in> set (dir_scan_idx 0 (dir_slots fs c) ([], None))" "fi_name f = nm"
    by (auto simp: lookup_slot_def dest: find_SomeD)
  with dir_scan_idx_entry [OF this(1)] show "i < length (dir_slots fs c)"
    "dir_slots fs c ! i ! 11 \<noteq> 0x0F" "dir_slots fs c ! i ! 0 \<noteq> 0xE5" "fi_name f = nm" by auto
qed

section \<open>Changing the size of an entry\<close>

definition set_size :: "u8 list \<Rightarrow> u32 \<Rightarrow> u8 list" where
  "set_size e sz = blit e 28 (u32_to_le_bytes sz)"

lemma set_size_fields:
  assumes "length e = 32"
  shows "length (set_size e sz) = 32" "set_size e sz ! 0 = e ! 0" "set_size e sz ! 11 = e ! 11"
    "sub_list (set_size e sz) 0 11 = sub_list e 0 11" "sub_list (set_size e sz) 20 2 = sub_list e 20 2"
    "sub_list (set_size e sz) 26 2 = sub_list e 26 2"
    "u32_from_le_bytes (sub_list (set_size e sz) 28 4) = sz"
  using assms sub_list_blit_same [of 28 "u32_to_le_bytes sz" e]
  by (simp_all add: set_size_def sub_list_blit_other nth_blit)

lemma entry_files_set_size:
  assumes "length e = 32"
  shows "entry_files (set_size e sz) st = map (\<lambda>f. f\<lparr>fi_size := sz\<rparr>) (entry_files e st)"
  using assms by (simp add: entry_files_def process_data_entry_def FatDir_new_ok set_size_fields Let_def
      FileInfo_new_def split: option.splits)

definition resized :: "nat \<Rightarrow> u32 \<Rightarrow> nat \<times> FileInfo \<Rightarrow> nat \<times> FileInfo" where
  "resized i sz p = (if fst p = i then (i, (snd p)\<lparr>fi_size := sz\<rparr>) else p)"

lemma resized_later: "\<forall>p \<in> set ps. i < fst p \<Longrightarrow> map (resized i sz) ps = ps"
  by (intro map_idI) (auto simp: resized_def)

lemma dir_scan_idx_resize:
  assumes "i < length cs" "length (cs ! i) = 32" "cs ! i ! 11 \<noteq> 0x0F"
  shows "dir_scan_idx k (cs[i := set_size (cs ! i) sz]) st = map (resized (k + i) sz) (dir_scan_idx k cs st)"
  using assms
proof (induction cs arbitrary: i k st)
  case (Cons c cs)
  show ?case
  proof (cases i)
    case 0
    with Cons.prems have c: "length c = 32" "c ! 11 \<noteq> 0x0F" by auto
    have "map (resized k sz) (dir_scan_idx (Suc k) cs s) = dir_scan_idx (Suc k) cs s" for s
      using dir_scan_idx_ge by (intro resized_later) fastforce
    moreover have "resized k sz (k, f) = (k, f\<lparr>fi_size := sz\<rparr>)" for f by (simp add: resized_def)
    ultimately show ?thesis
      using c 0 by (simp add: set_size_fields entry_files_set_size entry_state_nonlfn comp_def)
  next
    case (Suc j)
    have "map (resized (k + i) sz) (map (Pair k) fs) = map (Pair k) fs" for fs
      using Suc by (simp add: resized_def)
    with Cons Suc show ?thesis by simp
  qed
qed simp

lemma find_resized:
  "find (\<lambda>p. fi_name (snd p) = nm) (map (resized i sz) ps)
     = map_option (resized i sz) (find (\<lambda>p. fi_name (snd p) = nm) ps)"
  by (simp add: find_map comp_def resized_def if_distrib [of snd] if_distrib [of fi_name] cong: if_cong)

lemma chunks_exact_blit_in:
  assumes "0 < n" "i < length d div n" "k + length xs \<le> n"
  shows "chunks_exact n (blit d (i * n + k) xs) = (chunks_exact n d)[i := blit (chunks_exact n d ! i) k xs]"
proof -
  have b: "i * n + n \<le> length d" using assms chunk_bound by blast
  have ch: "chunks_exact n d ! i = sub_list d (i * n) n"
    using assms by (simp add: nth_chunks_exact length_chunks_exact)
  have "blit d (i * n + k) xs = blit d (i * n) (blit (sub_list d (i * n) n) k xs)"
    using b assms(3) by (intro nth_equalityI) (auto simp: nth_blit nth_sub_list length_sub_list)
  moreover have "length (blit (sub_list d (i * n) n) k xs) = n"
    using b assms(3) by (simp add: length_sub_list)
  ultimately show ?thesis using assms ch by (simp add: chunks_exact_blit)
qed

section \<open>Updating a size and writing a file\<close>

definition name_slot :: "Fat32FileSystem \<Rightarrow> u32 \<Rightarrow> u8 list \<Rightarrow> nat option" where
  "name_slot fs c sn = find_index (\<lambda>e. sub_list e 0 11 = sn) (dir_slots fs c)"

definition resize_slot :: "Fat32FileSystem \<Rightarrow> u32 \<Rightarrow> nat \<Rightarrow> u32 \<Rightarrow> Fat32FileSystem" where
  "resize_slot fs pc i sz = patch_cluster fs pc (i * 32 + 28) (u32_to_le_bytes sz)"

lemma update_file_size_ok:
  assumes "wf_fs fs" "valid_cluster fs pc" "split_path path = (pp, nm)"
    and "resolve_parent fs pp = Val (Some pc)" "format_to_8_3 uc nm = Inr sn"
    and "name_slot fs pc sn = Some i"
  shows "update_file_size uc fs path sz = Val (Inr (), resize_slot fs pc i sz)"
proof -
  have i: "i < cluster_bytes fs div 32"
    using assms(2,6) find_index_Some [of _ "dir_slots fs pc" i] by (auto simp: name_slot_def)
  note b = slot_bound [OF i]
  obtain start q r s g where p: "start_sector fs pc = Val start"
    "u32_div (of_nat (i * 32 + 28)) (bytes_per_sector fs) = Val q"
    "usize_mod (i * 32 + 28) (bps fs) = Val r"
    "u32_add start q = Val s" "u32_mul s (bytes_per_sector fs) = Val g"
    "unat g + r = cluster_off fs pc + (i * 32 + 28)"
    by (rule cluster_position [OF assms(1,2), of "i * 32 + 28"]) (use b in linarith)+
  have "cluster_off fs pc + (i * 32 + 28) + 4 \<le> length (disk fs)"
    using b valid_clusterD(2) [OF assms(2)] by linarith
  with assms p show ?thesis
    by (simp add: update_file_size_def read_cluster_ok name_slot_def dir_slots_def copy_from_slice_def
        resize_slot_def patch_cluster_def Let_def del: of_nat_add of_nat_mult)
qed

lemma resize_slot_simps:
  assumes "valid_cluster fs pc" "i < cluster_bytes fs div 32"
  shows "wf_fs (resize_slot fs pc i sz) = wf_fs fs"
    "valid_cluster (resize_slot fs pc i sz) c = valid_cluster fs c"
    "root_cluster (resize_slot fs pc i sz) = root_cluster fs"
    "cluster_bytes (resize_slot fs pc i sz) = cluster_bytes fs"
    "valid_cluster fs c \<Longrightarrow> c \<noteq> pc \<Longrightarrow> cluster_data (resize_slot fs pc i sz) c = cluster_data fs c"
    "valid_cluster fs c \<Longrightarrow> fat_entry (resize_slot fs pc i sz) c = fat_entry fs c"
    "valid_cluster fs c \<Longrightarrow> dir_slots (resize_slot fs pc i sz) c =
       (if c = pc then (dir_slots fs pc)[i := set_size (dir_slots fs pc ! i) sz] else dir_slots fs c)"
  using assms slot_bound [OF assms(2)] chunks_exact_blit_in [of 32 i "cluster_data fs pc" 28 "u32_to_le_bytes sz"]
  by (simp_all add: resize_slot_def cluster_data_patch fat_entry_patch dir_slots_def set_size_def)

text \<open>Only the size of the one entry changes, in every listing of the volume.\<close>

lemma resize_slot_lookup:
  assumes "valid_cluster fs pc" "lookup_slot fs pc nm0 = Some (i, f)" "valid_cluster fs c"
  shows "lookup_slot (resize_slot fs pc i sz) c nm =
    (if c = pc then map_option (resized i sz) (lookup_slot fs c nm) else lookup_slot fs c nm)"
proof -
  note l = lookup_slot_Some [OF assms(2)]
  have i: "i < cluster_bytes fs div 32" using l(1) assms(1) by simp
  have len: "length (dir_slots fs pc ! i) = 32" using l(1) dir_slots_length nth_mem by blast
  show ?thesis
    using dir_scan_idx_resize [OF l(1) len l(2), of 0 sz "([], None)"]
    by (simp add: lookup_slot_def resize_slot_simps [OF assms(1) i] assms(3) find_resized)
qed

text \<open>A path splits into a directory path and a name; the name is looked up in the directory.\<close>

lemma split_path_cases:
  assumes "split_path path = (pp, nm)"
  shows "path = pp @ 0x2F # nm \<and> 0x2F \<notin> set nm \<or> pp = [] \<and> path = nm \<and> 0x2F \<notin> set nm"
proof (cases "0x2F \<in> set path")
  case True
  then obtain a b where "path = a @ 0x2F # b" "0x2F \<notin> set b" by (metis split_list_last)
  with assms show ?thesis by (auto simp: split_path_def str_rfind_append)
next
  case False
  with assms show ?thesis by (auto simp: split_path_def str_rfind_None [THEN iffD2])
qed

lemma parse_path_split:
  assumes "wf_fs fs" "dirs_closed fs D" "split_path path = (pp, nm)" "parent_dir fs pp = Some pc"
    and "plain_name nm"
  shows "parse_path fs path None = Val (dir_lookup fs pc nm)"
proof -
  from split_path_cases [OF assms(3)]
  consider "path = pp @ 0x2F # nm" | "pp = []" "path = nm" "0x2F \<notin> set nm" by blast
  then show ?thesis
  proof cases
    case 1
    with parse_path_child [OF assms(1,2,4,5)] show ?thesis by simp
  next
    case 2
    then have "path_parts nm = path_parts (pp @ 0x2F # nm)"
      using assms(5) path_parts_file(1) [of nm] path_parts_file(2) [of nm pp] by (simp add: plain_name_def path_parts_def)
    with 2 parse_path_child [OF assms(1,2,4,5)] show ?thesis by (simp add: parse_path_eq)
  qed
qed

section \<open>Writing a file\<close>

text \<open>
  What a write needs: the path splits into a directory path and a plain name; the name is a file of
  that directory whose cluster is no directory; and the short form of the name finds the slot the
  file was listed from.
\<close>

definition write_ready ::
    "upper_table \<Rightarrow> Fat32FileSystem \<Rightarrow> u32 list \<Rightarrow> str \<Rightarrow> str \<Rightarrow> str \<Rightarrow> u32 \<Rightarrow> nat \<Rightarrow> FileInfo \<Rightarrow> bool" where
  "write_ready uc fs D path pp nm pc i f \<longleftrightarrow>
     wf_fs fs \<and> dirs_closed fs D \<and> split_path path = (pp, nm) \<and> plain_name nm
     \<and> parent_dir fs pp = Some pc \<and> lookup_slot fs pc nm = Some (i, f) \<and> \<not> is_directory f
     \<and> valid_cluster fs (start_cluster f) \<and> start_cluster f \<notin> set D
     \<and> (case format_to_8_3 uc nm of Inr sn \<Rightarrow> name_slot fs pc sn = Some i | Inl _ \<Rightarrow> False)"

definition written :: "Fat32FileSystem \<Rightarrow> u32 \<Rightarrow> nat \<Rightarrow> FileInfo \<Rightarrow> u8 list \<Rightarrow> Fat32FileSystem" where
  "written fs pc i f data =
     resize_slot (patch_cluster fs (start_cluster f) 0 (take (cluster_bytes fs) data)) pc i
       (of_nat (min (length data) (cluster_bytes fs)))"

lemma write_readyD:
  assumes "write_ready uc fs D path pp nm pc i f"
  shows "wf_fs fs" "dirs_closed fs D" "split_path path = (pp, nm)" "plain_name nm"
    "parent_dir fs pp = Some pc" "lookup_slot fs pc nm = Some (i, f)" "\<not> is_directory f"
    "valid_cluster fs (start_cluster f)" "start_cluster f \<notin> set D"
    "\<exists>sn. format_to_8_3 uc nm = Inr sn \<and> name_slot fs pc sn = Some i"
    "pc \<in> set D" "valid_cluster fs pc" "i < cluster_bytes fs div 32" "pc \<noteq> start_cluster f"
proof -
  show *: "wf_fs fs" "dirs_closed fs D" "split_path path = (pp, nm)" "plain_name nm"
    "parent_dir fs pp = Some pc" "lookup_slot fs pc nm = Some (i, f)" "\<not> is_directory f"
    "valid_cluster fs (start_cluster f)" "start_cluster f \<notin> set D"
    "\<exists>sn. format_to_8_3 uc nm = Inr sn \<and> name_slot fs pc sn = Some i"
    using assms by (auto simp: write_ready_def split: sum.splits)
  show pc: "pc \<in> set D" using parent_dir_in [OF *(1,2,5)] .
  show v: "valid_cluster fs pc" using dirs_closedD(1) [OF *(2) pc] .
  show "i < cluster_bytes fs div 32" using lookup_slot_Some(1) [OF *(6)] v by simp
  show "pc \<noteq> start_cluster f" using pc *(9) by auto
qed

text \<open>The data cluster is no directory, so overwriting it leaves the tree as it is.\<close>

lemma patch_file_dirs:
  assumes "valid_cluster fs dc" "length xs \<le> cluster_bytes fs" "dc \<notin> set D" "dirs_closed fs D"
  defines "fs1 \<equiv> patch_cluster fs dc 0 xs"
  shows "valid_cluster fs c \<Longrightarrow> c \<noteq> dc \<Longrightarrow> dir_slots fs1 c = dir_slots fs c"
    "valid_cluster fs c \<Longrightarrow> c \<noteq> dc \<Longrightarrow> lookup_slot fs1 c nm = lookup_slot fs c nm"
    "c \<in> set D \<Longrightarrow> lookup_slot fs1 c nm = lookup_slot fs c nm"
    "dirs_closed fs1 D"
proof -
  show sl: "valid_cluster fs c \<Longrightarrow> c \<noteq> dc \<Longrightarrow> dir_slots fs1 c = dir_slots fs c" for c
    using assms(1,2) by (simp add: fs1_def dir_slots_def cluster_data_patch)
  then show "valid_cluster fs c \<Longrightarrow> c \<noteq> dc \<Longrightarrow> lookup_slot fs1 c nm = lookup_slot fs c nm"
    by (simp add: lookup_slot_def)
  then show "c \<in> set D \<Longrightarrow> lookup_slot fs1 c nm = lookup_slot fs c nm"
    using assms(3) dirs_closedD(1) [OF assms(4)] by (cases "c = dc") simp_all
  have "c \<in> set D \<Longrightarrow> c \<noteq> dc" for c using assms(3) by auto
  then have "dirs_closed fs1 D = dirs_closed fs D"
    using assms(1-3) sl by (intro dirs_closed_same) (auto simp: fs1_def dir_listing_slots)
  with assms(4) show "dirs_closed fs1 D" by simp
qed

lemma u32_cluster_bytes:
  assumes "wf_fs fs" "valid_cluster fs c"
  shows "cluster_bytes fs < 2 ^ 32"
    "u32_mul (sectors_per_cluster fs) (bytes_per_sector fs)
      = Val (sectors_per_cluster fs * bytes_per_sector fs)"
    "unat (sectors_per_cluster fs * bytes_per_sector fs) = cluster_bytes fs"
proof -
  show "cluster_bytes fs < 2 ^ 32"
    using valid_clusterD(2-4) [OF assms(2)] wf_fsD(4) [OF assms(1)] by linarith
  then show "u32_mul (sectors_per_cluster fs) (bytes_per_sector fs)
      = Val (sectors_per_cluster fs * bytes_per_sector fs)"
    "unat (sectors_per_cluster fs * bytes_per_sector fs) = cluster_bytes fs"
    by (simp_all add: u32_mul_Val unat_u32_mul cluster_bytes_def)
qed

lemma start_offset:
  assumes "wf_fs fs" "valid_cluster fs c"
  obtains st g where "start_sector fs c = Val st" "u32_mul st (bytes_per_sector fs) = Val g"
    "unat g = cluster_off fs c"
proof -
  obtain st where st: "start_sector fs c = Val st" "unat st * bps fs = cluster_off fs c"
    using start_sector_ok [OF assms] by blast
  have "unat st * bps fs < 2 ^ 32"
    using st(2) valid_clusterD(2) [OF assms(2)] wf_fsD(4,5) [OF assms(1)] by linarith
  with st show thesis by (intro that [of st "st * bytes_per_sector fs"]) (simp_all add: u32_mul_Val unat_u32_mul)
qed

lemma write_file_ok:
  assumes "write_ready uc fs D path pp nm pc i f"
  shows "write_file uc fs path data = Val (Inr (), written fs pc i f data)"
proof -
  note r = write_readyD [OF assms]
  obtain sn where sn: "format_to_8_3 uc nm = Inr sn" "name_slot fs pc sn = Some i" using r(10) by blast
  let ?xs = "take (cluster_bytes fs) data" and ?dc = "start_cluster f"
  let ?fs1 = "patch_cluster fs ?dc 0 ?xs"
  have len: "0 + length ?xs \<le> cluster_bytes fs" "length ?xs \<le> cluster_bytes fs" by simp_all
  have xs: "take (min (length data) (cluster_bytes fs)) data = ?xs" by (simp add: min_def)
  note d1 = patch_file_dirs [OF r(8) len(2) r(9,2)]
  have par: "parent_dir ?fs1 pp = Some pc"
    using r(1,8) dirs_closedD(1) [OF r(2)] len(1)
    by (intro parent_dir_mono [OF _ _ r(2) _ _ _ r(5)]) (auto simp: lookup_slot_lookup d1(3))
  have upd: "update_file_size uc ?fs1 path sz = Val (Inr (), resize_slot ?fs1 pc i sz)" for sz
    using r sn d1(1) len parent_dir_resolve [OF par]
    by (intro update_file_size_ok) (auto simp: name_slot_def)
  obtain st g where g: "start_sector fs ?dc = Val st" "u32_mul st (bytes_per_sector fs) = Val g"
      "unat g = cluster_off fs ?dc"
    by (rule start_offset [OF r(1,8)])
  have cp: "copy_from_slice (disk fs) (cluster_off fs ?dc) ?xs
      = Val (blit (disk fs) (cluster_off fs ?dc) ?xs)"
    using valid_clusterD(2) [OF r(8)] len by (intro copy_from_slice_ok) linarith
  have "parse_path fs path None = Val (Some f)"
    using parse_path_split [OF r(1-3,5,4)] r(6) by (simp add: lookup_slot_lookup)
  then show ?thesis
    using r(7) u32_cluster_bytes [OF r(1,8)] g xs cp upd
    by (simp add: write_file_def written_def patch_cluster_def Let_def)
qed

section \<open>After writing a file\<close>

lemma resize_slot_listing:
  assumes "valid_cluster fs pc" "lookup_slot fs pc nm = Some (i, f)" "valid_cluster fs c"
    and "f' \<in> set (dir_listing (resize_slot fs pc i sz) c)"
  shows "\<exists>g \<in> set (dir_listing fs c). fi_name g = fi_name f' \<and> is_directory g = is_directory f'
      \<and> start_cluster g = start_cluster f'"
proof -
  note l = lookup_slot_Some [OF assms(2)]
  have i: "i < cluster_bytes fs div 32" using l(1) assms(1) by simp
  have len: "length (dir_slots fs pc ! i) = 32" using l(1) dir_slots_length nth_mem by blast
  note rs = resize_slot_simps [OF assms(1) i]
  have idx: "dir_listing (resize_slot fs pc i sz) pc
      = map snd (map (resized i sz) (dir_scan_idx 0 (dir_slots fs pc) ([], None)))"
    using dir_scan_idx_resize [OF l(1) len l(2), of 0 sz "([], None)"]
    by (simp add: dir_listing_slots rs assms(1) flip: dir_scan_idx_snd [of 0])
  show ?thesis
  proof (cases "c = pc")
    case True
    have "dir_listing fs pc = map snd (dir_scan_idx 0 (dir_slots fs pc) ([], None))"
      by (simp add: dir_scan_idx_snd dir_listing_slots)
    with True assms(4) idx show ?thesis by (auto simp: resized_def split: if_splits) force+
  next
    case False
    with assms(3,4) show ?thesis by (auto simp: dir_listing_slots rs)
  qed
qed

lemma resize_slot_dirs_closed:
  assumes "valid_cluster fs pc" "lookup_slot fs pc nm = Some (i, f)" "dirs_closed fs D"
  shows "dirs_closed (resize_slot fs pc i sz) D"
proof -
  have i: "i < cluster_bytes fs div 32" using lookup_slot_Some(1) [OF assms(2)] assms(1) by simp
  show ?thesis
    using assms(3) resize_slot_listing [OF assms(1,2)] unfolding dirs_closed_def list_all_iff
      resize_slot_simps(2,3) [OF assms(1) i] by (fastforce split: if_splits)
qed

text \<open>A size changes neither what is pending nor what is free: a tidy directory stays tidy.\<close>

lemma tidy_resize:
  assumes "i < length cs" "length (cs ! i) = 32" "cs ! i ! 11 \<noteq> 0x0F"
  shows "tidy (cs[i := set_size (cs ! i) sz]) st = tidy cs st"
  using assms
proof (induction cs arbitrary: i st)
  case (Cons c cs)
  show ?case
  proof (cases i)
    case 0
    with Cons.prems have c: "length c = 32" "c ! 11 \<noteq> 0x0F" by auto
    then have "entry_state (set_size c sz) st = entry_state c st"
      by (simp add: entry_state_nonlfn set_size_fields)
    with 0 c show ?thesis by (simp add: set_size_fields)
  next
    case (Suc j)
    with Cons.prems have j: "j < length cs" "length (cs ! j) = 32" "cs ! j ! 11 \<noteq> 0x0F" by auto
    have "list_all (\<lambda>c. c ! 0 = 0x00) (cs[j := set_size (cs ! j) sz]) = list_all (\<lambda>c. c ! 0 = 0x00) cs"
      using set_size_fields(2) [OF j(2), of sz] j(1) by (metis (no_types, lifting) list_all_length
          length_list_update nth_list_update_eq nth_list_update_neq)
    with Suc Cons.IH [OF j, of "entry_state c st"] show ?thesis by simp
  qed
qed simp

lemma resize_slot_tidy:
  assumes "valid_cluster fs pc" "lookup_slot fs pc nm = Some (i, f)" "valid_cluster fs c"
  shows "tidy_dir (resize_slot fs pc i sz) c = tidy_dir fs c"
proof -
  note l = lookup_slot_Some [OF assms(2)]
  have i: "i < cluster_bytes fs div 32" using l(1) assms(1) by simp
  have len: "length (dir_slots fs pc ! i) = 32" using l(1) dir_slots_length nth_mem by blast
  show ?thesis
    using tidy_resize [OF l(1) len l(2)] assms(3) by (simp add: tidy_dir_def resize_slot_simps [OF assms(1) i])
qed

lemma written_simps:
  assumes "write_ready uc fs D path pp nm pc i f"
  shows "wf_fs (written fs pc i f data)"
    "valid_cluster (written fs pc i f data) c = valid_cluster fs c"
    "root_cluster (written fs pc i f data) = root_cluster fs"
    "cluster_bytes (written fs pc i f data) = cluster_bytes fs"
    "valid_cluster fs c \<Longrightarrow> fat_entry (written fs pc i f data) c = fat_entry fs c"
    "valid_cluster fs c \<Longrightarrow> c \<noteq> pc \<Longrightarrow> cluster_data (written fs pc i f data) c =
       (if c = start_cluster f then blit (cluster_data fs c) 0 (take (cluster_bytes fs) data)
        else cluster_data fs c)"
    "c \<in> set D \<Longrightarrow> lookup_slot (written fs pc i f data) c nm' =
       (if c = pc then map_option (resized i (of_nat (min (length data) (cluster_bytes fs))))
          (lookup_slot fs c nm') else lookup_slot fs c nm')"
    "dirs_closed (written fs pc i f data) D"
proof -
  note r = write_readyD [OF assms]
  let ?xs = "take (cluster_bytes fs) data"
  let ?fs1 = "patch_cluster fs (start_cluster f) 0 ?xs"
  let ?n = "of_nat (min (length data) (cluster_bytes fs)) :: u32"
  have len: "0 + length ?xs \<le> cluster_bytes fs" "length ?xs \<le> cluster_bytes fs" by simp_all
  note d1 = patch_file_dirs [OF r(8) len(2) r(9,2)] and g = patch_cluster_geometry [OF r(8) len(1)]
  have v1: "valid_cluster ?fs1 pc" "i < cluster_bytes ?fs1 div 32" using r g by simp_all
  note rs = resize_slot_simps [OF v1, where sz = ?n]
  have lk: "lookup_slot ?fs1 pc nm = Some (i, f)" using d1(3) r(6,11) by simp
  note w = written_def [of fs pc i f data]
  show "wf_fs (written fs pc i f data)"
    "valid_cluster (written fs pc i f data) c = valid_cluster fs c"
    "root_cluster (written fs pc i f data) = root_cluster fs"
    "cluster_bytes (written fs pc i f data) = cluster_bytes fs"
    "valid_cluster fs c \<Longrightarrow> fat_entry (written fs pc i f data) c = fat_entry fs c"
    "valid_cluster fs c \<Longrightarrow> c \<noteq> pc \<Longrightarrow> cluster_data (written fs pc i f data) c =
       (if c = start_cluster f then blit (cluster_data fs c) 0 (take (cluster_bytes fs) data)
        else cluster_data fs c)"
    using r len by (simp_all add: w rs g fat_entry_patch cluster_data_patch)
  show "dirs_closed (written fs pc i f data) D"
    unfolding w by (rule resize_slot_dirs_closed [OF v1(1) lk d1(4)])
  show "c \<in> set D \<Longrightarrow> lookup_slot (written fs pc i f data) c nm' =
       (if c = pc then map_option (resized i ?n) (lookup_slot fs c nm') else lookup_slot fs c nm')"
    using resize_slot_lookup [OF v1(1) lk, of c ?n nm'] dirs_closedD(1) [OF r(2)] d1(3) r(11) g
    by (simp add: w)
qed

lemma resized_same:
  "is_directory (snd (resized i sz p)) = is_directory (snd p)"
  "start_cluster (snd (resized i sz p)) = start_cluster (snd p)"
  "fi_name (snd (resized i sz p)) = fi_name (snd p)"
  by (simp_all add: resized_def)

lemma written_lookup:
  assumes "write_ready uc fs D path pp nm pc i f" "c \<in> set D" "dir_lookup fs c nm' = Some g"
  shows "\<exists>g'. dir_lookup (written fs pc i f data) c nm' = Some g'
    \<and> is_directory g' = is_directory g \<and> start_cluster g' = start_cluster g"
proof -
  obtain p where p: "lookup_slot fs c nm' = Some p" "snd p = g"
    using assms(3) by (auto simp: lookup_slot_lookup)
  let ?n = "of_nat (min (length data) (cluster_bytes fs)) :: u32"
  have "dir_lookup (written fs pc i f data) c nm' = Some (snd (if c = pc then resized i ?n p else p))"
    using written_simps(7) [OF assms(1,2), of data nm'] p(1)
    unfolding lookup_slot_lookup by (simp only: option.map split: if_split) simp
  with p(2) resized_same show ?thesis by auto
qed

lemma written_parent_dir:
  assumes "write_ready uc fs D path pp nm pc i f" "parent_dir fs pp' = Some c"
  shows "parent_dir (written fs pc i f data) pp' = Some c"
proof -
  note r = write_readyD [OF assms(1)] and w = written_simps [OF assms(1)]
  have "\<forall>c \<in> set D. valid_cluster (written fs pc i f data) c"
    using dirs_closedD(1) [OF r(2)] w(2) by simp
  from parent_dir_mono [OF r(1) w(1) r(2) this w(3) written_lookup [OF assms(1)] assms(2)]
  show ?thesis .
qed

lemma written_parse_path:
  assumes "write_ready uc fs D path pp nm pc i f"
  shows "parse_path (written fs pc i f data) path None
    = Val (Some (f\<lparr>fi_size := of_nat (min (length data) (cluster_bytes fs))\<rparr>))"
proof -
  note r = write_readyD [OF assms] and w = written_simps [OF assms]
  have "dir_lookup (written fs pc i f data) pc nm
      = Some (f\<lparr>fi_size := of_nat (min (length data) (cluster_bytes fs))\<rparr>)"
    using w(7) [OF r(11)] r(6) by (simp add: lookup_slot_lookup resized_def)
  with parse_path_split [OF w(1,8) r(3) written_parent_dir [OF assms r(5)] r(4)] show ?thesis by simp
qed

lemma read_file_chain:
  assumes "parse_path fs path cur = Val (Some f)" "\<not> is_directory f" "wf_fs fs"
    and "\<forall>c \<in> set cs. valid_cluster fs c" "follows (read_fat_entry fs) chain_next (start_cluster f) cs"
  shows "read_file fs path cur = Some (Val (case from_utf8 (take (unat (fi_size f)) (chain_data fs cs)) of
      Some s \<Rightarrow> Inr s | None \<Rightarrow> Inl InvalidUtf8))"
  using assms(1,2) read_chain_follows [OF assms(3-5), of "[]"] by (simp add: read_file_def)

text \<open>A file read back after a write holds the bytes written, up to one cluster.\<close>

lemma read_written:
  assumes "write_ready uc fs D path pp nm pc i f"
    and "follows (read_fat_entry fs) chain_next (start_cluster f) cs" "\<forall>c \<in> set cs. valid_cluster fs c"
  shows "read_file (written fs pc i f data) path None =
    Some (Val (case from_utf8 (take (cluster_bytes fs) data) of Some s \<Rightarrow> Inr s | None \<Rightarrow> Inl InvalidUtf8))"
proof -
  note r = write_readyD [OF assms(1)] and w = written_simps [OF assms(1)]
  let ?w = "written fs pc i f data" and ?xs = "take (cluster_bytes fs) data"
  obtain xs where cs: "cs = start_cluster f # xs" using follows_head [OF assms(2)] by blast
  have "read_fat_entry ?w c = read_fat_entry fs c" if "c \<in> set cs" for c
    using that assms(3) r(1) w(1,2,5) by (simp add: read_fat_entry_ok)
  then have fol: "follows (read_fat_entry ?w) chain_next (start_cluster f) cs"
    using assms(2) follows_cong [of cs "read_fat_entry ?w" "read_fat_entry fs"] by blast
  have "cluster_bytes fs < 2 ^ 32" by (rule u32_cluster_bytes [OF r(1,8)])
  then have sz: "unat (of_nat (min (length data) (cluster_bytes fs)) :: u32) = length ?xs"
    by (subst unat_u32_of_nat) simp_all
  have "cluster_data ?w (start_cluster f) = ?xs @ drop (length ?xs) (cluster_data fs (start_cluster f))"
    using w(6) [OF r(8)] r(14) by (simp add: blit_def)
  then have "take (length ?xs) (chain_data ?w cs) = ?xs" by (simp add: chain_data_def cs min_def)
  moreover have "\<forall>c \<in> set cs. valid_cluster ?w c" using assms(3) w(2) by simp
  moreover let ?g = "f\<lparr>fi_size := of_nat (min (length data) (cluster_bytes fs))\<rparr>"
  have "\<not> is_directory ?g" "start_cluster ?g = start_cluster f" using r(7) by simp_all
  ultimately show ?thesis
    using read_file_chain [OF written_parse_path [OF assms(1), where data = data] _ w(1), of cs] fol sz by simp
qed

end
