(* ===== verification/Fs_Properties.thy ===== *)
theory Fs_Properties
  imports File_Write
begin

text \<open>
  The properties of the file system as a whole: paths, reading, creating files and directories,
  writing, and what the operations leave behind when they fail.  Each is a few steps over the lemmas
  of the component theories; the witnesses run the model on a small volume.
\<close>

section \<open>A volume with a directory and a file\<close>

text \<open>
  The small volume with a directory \<^verbatim>\<open>DOCS\<close> in the root (cluster 3) and an empty file \<^verbatim>\<open>A.TXT\<close> in
  it (cluster 4): what \<^verbatim>\<open>mkdir\<close> and \<^verbatim>\<open>create_file\<close> make of it, as the lemma below checks.  The
  names are ASCII, so the table for other characters is never consulted; \<open>no_table\<close> stands in for it.
\<close>

definition no_table :: upper_table where
  "no_table c = [c]"

definition demo_fat :: "u8 list" where
  "demo_fat = [0xF8, 0xFF, 0xFF, 0x0F, 0xFF, 0xFF, 0xFF, 0x0F, 0xFF, 0xFF, 0xFF, 0x0F,
     0xFF, 0xFF, 0xFF, 0x0F, 0xFF, 0xFF, 0xFF, 0x0F] @ replicate 44 0"

definition demo_docs :: "u8 list" where
  "demo_docs = plain_entry dot_name 0x10 3 @ plain_entry dotdot_name 0x10 0
     @ plain_entry (lit ''A       TXT'') 0x20 4 @ replicate 32 0"

definition demo_fs :: Fat32FileSystem where
  "demo_fs = \<lparr> disk = tiny_boot @ demo_fat @ plain_entry (lit ''DOCS       '') 0x10 3
       @ replicate 96 0 @ demo_docs @ replicate 256 0,
     bytes_per_sector = 64, sectors_per_cluster = 2, fat_sector = 1, data_sector = 2, root_cluster = 2 \<rparr>"

lemma demo_fs_built:
  "rbind (fs_new tiny_disk) (\<lambda>fs0.
   rbind (mkdir no_table fs0 (lit ''/'') (lit ''docs'')) (\<lambda>(r1, fs1).
   create_file no_table fs1 (lit ''/DOCS'') (lit ''a.txt''))) = Val (Inr (), demo_fs)"
  by code_simp

text \<open>What the component's functions say of this volume; the witnesses rest on these facts.\<close>

lemma demo_lengths: "length tiny_boot = 64" "length demo_fat = 64" "length demo_docs = 128"
  "length (plain_entry (lit ''DOCS       '') 0x10 3) = 32"
  by (simp_all add: tiny_boot_def demo_fat_def demo_docs_def plain_entry_fields dot_names lit_def)

lemma demo_fields:
  "bytes_per_sector demo_fs = 64" "sectors_per_cluster demo_fs = 2" "fat_sector demo_fs = 1"
  "data_sector demo_fs = 2" "root_cluster demo_fs = 2" "length (disk demo_fs) = 640"
  by (simp_all add: demo_fs_def demo_lengths)

lemma demo_geometry:
  "wf_fs demo_fs" "cluster_bytes demo_fs = 128"
  "valid_cluster demo_fs 2" "valid_cluster demo_fs 3" "valid_cluster demo_fs 4" "valid_cluster demo_fs 5"
  by (simp_all add: wf_fs_def cluster_bytes_def valid_cluster_def cluster_off_def fat_off_def demo_fields)

lemma demo_clusters:
  "cluster_data demo_fs 2 = plain_entry (lit ''DOCS       '') 0x10 3 @ replicate 96 0"
  "cluster_data demo_fs 3 = demo_docs" "cluster_data demo_fs 4 = replicate 128 0"
  "cluster_data demo_fs 5 = replicate 128 0"
  by (simp_all add: cluster_data_def cluster_off_def cluster_bytes_def demo_fields sub_list_def demo_fs_def
      demo_lengths)

lemma demo_fat_entries:
  "fat_entry demo_fs 2 = 0x0FFFFFFF" "fat_entry demo_fs 3 = 0x0FFFFFFF" "fat_entry demo_fs 4 = 0x0FFFFFFF"
  "fat_entry demo_fs 5 = 0"
proof -
  have "sub_list (disk demo_fs) (fat_off demo_fs c) 4 = sub_list demo_fat (4 * unat c) 4" if "unat c \<le> 15" for c
    using that by (simp add: fat_off_def demo_fields sub_list_def) (simp add: demo_fs_def demo_lengths)
  then have f: "fat_entry demo_fs c = u32_from_le_bytes (sub_list demo_fat (4 * unat c) 4) AND 0x0FFFFFFF"
    if "unat c \<le> 15" for c
    using that by (simp add: fat_entry_def fat_raw_def)
  show "fat_entry demo_fs 2 = 0x0FFFFFFF" "fat_entry demo_fs 3 = 0x0FFFFFFF" "fat_entry demo_fs 4 = 0x0FFFFFFF"
    "fat_entry demo_fs 5 = 0"
    by (simp add: f, code_simp)+
qed

lemma demo_slots:
  "dir_slots demo_fs 2 = plain_entry (lit ''DOCS       '') 0x10 3 # replicate 3 (replicate 32 0)"
  "dir_slots demo_fs 3 = [plain_entry dot_name 0x10 3, plain_entry dotdot_name 0x10 0,
     plain_entry (lit ''A       TXT'') 0x20 4, replicate 32 0]"
  unfolding dir_slots_def demo_clusters by code_simp+

lemma demo_listings:
  "dir_listing demo_fs 2 = [FileInfo_new (lit ''DOCS'') True 0 3]"
  "dir_listing demo_fs 3 = [FileInfo_new (lit ''.'') True 0 3, FileInfo_new (lit ''..'') True 0 0,
     FileInfo_new (lit ''A.TXT'') False 0 4]"
  unfolding dir_listing_slots demo_slots by code_simp+

lemma demo_lookups:
  "dir_lookup demo_fs 2 (lit ''DOCS'') = Some (FileInfo_new (lit ''DOCS'') True 0 3)"
  "dir_lookup demo_fs 3 (lit ''A.TXT'') = Some (FileInfo_new (lit ''A.TXT'') False 0 4)"
  "dir_lookup demo_fs 3 (lit ''..'') = Some (FileInfo_new (lit ''..'') True 0 0)"
  unfolding dir_lookup_def demo_listings by code_simp+

lemma demo_closed: "dirs_closed demo_fs [2, 3]"
  by (simp add: dirs_closed_def demo_fields demo_geometry demo_listings FileInfo_new_def lit_def)

lemma demo_tidy: "tidy_dir demo_fs 2" "tidy_dir demo_fs 3"
  unfolding tidy_dir_def demo_slots by code_simp+

lemma demo_first_free: "first_free demo_fs 5"
proof -
  have "[2..<unat (5 :: u32)] = [2, 3, 4]" "(5 :: u32) < 50000" by code_simp+
  then show ?thesis by (simp add: first_free_def demo_geometry demo_fat_entries)
qed

lemma demo_free_slot: "find_index slot_free (dir_slots demo_fs 2) = Some 1"
   "find_index slot_free (dir_slots demo_fs 3) = Some 3"
  unfolding demo_slots by code_simp+

lemma demo_parent_dir: "parent_dir demo_fs (lit ''/DOCS'') = Some 3" "parent_dir demo_fs (lit ''/'') = Some 2"
proof -
  have p: "path_parts (lit ''/DOCS'') = [lit ''DOCS'']" "lit ''DOCS'' \<noteq> lit ''.''" "lit ''DOCS'' \<noteq> lit ''..''"
    "lit ''/DOCS'' \<noteq> []" "lit ''/DOCS'' \<noteq> lit ''/''" by code_simp+
  then have "parse_path demo_fs (lit ''/DOCS'') None = Val (Some (FileInfo_new (lit ''DOCS'') True 0 3))"
    by (simp add: parse_path_eq demo_fields parse_path_loop_Cons demo_geometry demo_lookups del: parse_path_loop.simps(2))
  with p show "parent_dir demo_fs (lit ''/DOCS'') = Some 3" "parent_dir demo_fs (lit ''/'') = Some 2"
    by (simp_all add: parent_dir_def FileInfo_new_def demo_fields)
qed

definition demo_file :: FileInfo where
  "demo_file = FileInfo_new (lit ''A.TXT'') False 0 4"

lemma demo_chain: "follows (read_fat_entry demo_fs) chain_next 4 [4]"
  by (simp add: read_fat_entry_ok demo_geometry demo_fat_entries chain_next_def)

lemma demo_parse: "parse_path demo_fs (lit ''/DOCS/A.TXT'') None = Val (Some demo_file)"
proof -
  have "path_parts (lit ''/DOCS/A.TXT'') = [lit ''DOCS'', lit ''A.TXT'']"
    "lit ''DOCS'' \<noteq> lit ''.''" "lit ''DOCS'' \<noteq> lit ''..''" "lit ''A.TXT'' \<noteq> lit ''.''" "lit ''A.TXT'' \<noteq> lit ''..''"
    by code_simp+
  then show ?thesis
    by (simp add: parse_path_eq demo_fields parse_path_loop_Cons demo_geometry demo_lookups demo_file_def
        FileInfo_new_def del: parse_path_loop.simps(2))
qed

lemma demo_create_ready:
  "create_ready no_table demo_fs (lit ''/DOCS'') (lit ''b'') 3 (lit ''B          '') 5 3"
  "create_ready no_table demo_fs (lit ''/DOCS'') (lit ''sub'') 3 (lit ''SUB        '') 5 3"
proof -
  have "format_to_8_3 no_table (lit ''b'') = Inr (lit ''B          '')"
    "format_to_8_3 no_table (lit ''sub'') = Inr (lit ''SUB        '')" by code_simp+
  then show "create_ready no_table demo_fs (lit ''/DOCS'') (lit ''b'') 3 (lit ''B          '') 5 3"
    "create_ready no_table demo_fs (lit ''/DOCS'') (lit ''sub'') 3 (lit ''SUB        '') 5 3"
    using parent_dir_resolve [OF demo_parent_dir(1)]
    by (simp_all add: create_ready_def demo_geometry demo_first_free demo_free_slot)
qed

lemma demo_new_names:
  "lit ''B          '' ! 0 \<noteq> 0x00" "lit ''B          '' ! 0 \<noteq> 0xE5"
  "lit ''SUB        '' ! 0 \<noteq> 0x00" "lit ''SUB        '' ! 0 \<noteq> 0xE5"
  "plain_name (short_name_to_string (lit ''B          ''))" "plain_name (short_name_to_string (lit ''SUB        ''))"
  "dir_lookup demo_fs 3 (short_name_to_string (lit ''B          '')) = None"
  "dir_lookup demo_fs 3 (short_name_to_string (lit ''SUB        '')) = None"
  unfolding dir_lookup_def demo_listings by code_simp+

lemma demo_write_ready:
  "write_ready no_table demo_fs [2, 3] (lit ''/DOCS/A.TXT'') (lit ''/DOCS'') (lit ''A.TXT'') 3 2 demo_file"
proof -
  have "split_path (lit ''/DOCS/A.TXT'') = (lit ''/DOCS'', lit ''A.TXT'')" "plain_name (lit ''A.TXT'')"
    "format_to_8_3 no_table (lit ''A.TXT'') = Inr (lit ''A       TXT'')" by code_simp+
  moreover have "lookup_slot demo_fs 3 (lit ''A.TXT'') = Some (2, demo_file)"
    "name_slot demo_fs 3 (lit ''A       TXT'') = Some 2"
    unfolding lookup_slot_def name_slot_def demo_slots by code_simp+
  ultimately show ?thesis
    by (simp add: write_ready_def demo_geometry demo_closed demo_parent_dir demo_file_def FileInfo_new_def)
qed


section \<open>Paths\<close>

text \<open>
  C6: In an intact directory tree \<^verbatim>\<open>parse_path\<close> never panics, returns exactly the entry that the
  path names by the rules for \<^verbatim>\<open>.\<close>, \<^verbatim>\<open>..\<close> and names, and never leads out of the tree.
\<close>

theorem parse_path_refines:
  assumes "wf_fs fs" "dirs_closed fs D" "cur_in cur D"
  shows "\<exists>r. parse_path fs path cur = Val r
    \<and> (\<forall>f. r = Some f \<longleftrightarrow> resolves fs (path_start fs path cur) (path_parts path) f)
    \<and> (\<forall>f. r = Some f \<longrightarrow> is_directory f \<longrightarrow> start_cluster f \<in> set D)"
  using assms by (rule parse_path_resolves)

theorem parse_path_refines_witness:
  "\<exists>r. parse_path demo_fs (lit ''DOCS/../DOCS/A.TXT'') (Some 2) = Val r
    \<and> (\<forall>f. r = Some f \<longleftrightarrow> resolves demo_fs (path_start demo_fs (lit ''DOCS/../DOCS/A.TXT'') (Some 2))
             (path_parts (lit ''DOCS/../DOCS/A.TXT'')) f)
    \<and> (\<forall>f. r = Some f \<longrightarrow> is_directory f \<longrightarrow> start_cluster f \<in> set [2, 3])"
  by (rule parse_path_refines) (simp_all add: demo_geometry demo_closed cur_in_def)

text \<open>
  Repeated and trailing slashes do not change what a path names.
\<close>

theorem parse_path_slashes:
  "p \<noteq> [] \<Longrightarrow> parse_path fs (p @ replicate k 0x2F) cur = parse_path fs p cur
     \<and> parse_path fs (p @ replicate (Suc k) 0x2F @ q) cur = parse_path fs (p @ 0x2F # q) cur"
proof -
  have split: "str_split 0x2F (a @ 0x2F # b) = str_split 0x2F a @ str_split 0x2F b" for a b
    by (induction a) (auto split: list.splits)
  have parts: "path_parts (a @ 0x2F # b) = path_parts a @ path_parts b" for a b
    by (simp add: path_parts_def split)
  have nil: "path_parts [] = []" by (simp add: path_parts_def)
  have rep: "path_parts (replicate k 0x2F @ q) = path_parts q" for k q
    by (induction k) (auto simp: parts [of "[]", simplified] nil)
  assume p: "p \<noteq> []"
  have "path_parts (p @ replicate k 0x2F) = path_parts p"
  proof (cases k)
    case (Suc j)
    with rep [of j "[]"] show ?thesis by (simp add: parts nil)
  qed simp
  with p rep [of k q] show ?thesis
    by (simp add: parse_path_eq path_start_def parts hd_append2)
qed

theorem parse_path_slashes_witness:
  "parse_path demo_fs (lit ''/DOCS'' @ replicate 2 0x2F) None = parse_path demo_fs (lit ''/DOCS'') None
   \<and> parse_path demo_fs (lit ''/DOCS'' @ replicate (Suc 2) 0x2F @ lit ''A.TXT'') None
     = parse_path demo_fs (lit ''/DOCS'' @ 0x2F # lit ''A.TXT'') None"
  by (rule parse_path_slashes) code_simp

section \<open>Reading\<close>

text \<open>
  C10: Reading a file whose chain of clusters ends returns the first \<^verbatim>\<open>size\<close> bytes of the clusters
  joined in chain order, or the UTF-8 error if they are no string; a directory and a missing path
  are refused.
\<close>

theorem read_file_spec:
  assumes "wf_fs fs" "parse_path fs path cur = Val fo"
    and "\<And>f. fo = Some f \<Longrightarrow> \<not> is_directory f \<Longrightarrow>
      follows (read_fat_entry fs) chain_next (start_cluster f) cs \<and> list_all (valid_cluster fs) cs"
  shows "read_file fs path cur = Some (Val (case fo of
      None \<Rightarrow> Inl FileNotFound
    | Some f \<Rightarrow> if is_directory f then Inl NotAFile
        else if utf8_valid (take (unat (fi_size f)) (concat (map (cluster_data fs) cs)))
        then Inr (take (unat (fi_size f)) (concat (map (cluster_data fs) cs)))
        else Inl InvalidUtf8))"
proof (cases fo)
  case None
  with assms(2) show ?thesis by (simp add: read_file_def)
next
  case (Some f)
  show ?thesis
  proof (cases "is_directory f")
    case True
    with Some assms(2) show ?thesis by (simp add: read_file_def)
  next
    case False
    with assms(3) Some have "\<forall>c \<in> set cs. valid_cluster fs c"
        "follows (read_fat_entry fs) chain_next (start_cluster f) cs" by (auto simp: list_all_iff)
    from read_file_chain [OF _ False assms(1) this, of path cur] assms(2) Some False
    show ?thesis by (simp add: chain_data_def from_utf8_def)
  qed
qed

theorem read_file_spec_witness:
  "read_file demo_fs (lit ''/DOCS/A.TXT'') None = Some (Val (case Some demo_file of
      None \<Rightarrow> Inl FileNotFound
    | Some f \<Rightarrow> if is_directory f then Inl NotAFile
        else if utf8_valid (take (unat (fi_size f)) (concat (map (cluster_data demo_fs) [4])))
        then Inr (take (unat (fi_size f)) (concat (map (cluster_data demo_fs) [4])))
        else Inl InvalidUtf8))"
  using demo_chain
  by (intro read_file_spec)
     (auto simp: demo_geometry demo_parse demo_file_def FileInfo_new_def simp del: follows.simps)

lemma chain_next_cases:
  "0x0FFFFFF8 \<le> e \<Longrightarrow> chain_next e = None" "\<not> 0x0FFFFFF8 \<le> e \<Longrightarrow> chain_next e = Some e"
  by (simp_all add: chain_next_def)

text \<open>Inside a closed set of clusters reading a chain cannot panic.\<close>

lemma read_chain_no_panic:
  assumes "\<And>c. c \<in> S \<Longrightarrow> \<exists>d n. read_cluster fs c = Val d \<and> read_fat_entry fs c = Val n
      \<and> (n < 0x0FFFFFF8 \<longrightarrow> n \<in> S)" and "c \<in> S"
  shows "read_chain fs c d \<noteq> Some (Panic p)"
proof -
  have "fs0 = fs \<longrightarrow> c \<in> S \<longrightarrow> y \<noteq> Panic p" if "read_chain fs0 c d = Some y" for fs0 c d y
  proof (rule read_chain.raw_induct
      [where P = "\<lambda>fs0 c d y. fs0 = fs \<longrightarrow> c \<in> S \<longrightarrow> y \<noteq> Panic p", OF _ that], goal_cases)
    case (1 rc fs0 c d y)
    show ?case
    proof (intro impI)
      assume eq: "fs0 = fs" and "c \<in> S"
      then obtain d0 n where "read_cluster fs c = Val d0" "read_fat_entry fs c = Val n"
          "n < 0x0FFFFFF8 \<longrightarrow> n \<in> S"
        using assms(1) by blast
      with 1 eq show "y \<noteq> Panic p" by (auto simp: not_le split: if_splits)
    qed
  qed
  with assms(2) show ?thesis by blast
qed

text \<open>
  C11: In a set of valid clusters that the FAT does not leave, the loop of \<^verbatim>\<open>read_file\<close> returns the
  chain's bytes exactly when the chain ends, and runs for ever exactly when it does not.  The buffer
  the loop fills is a list here, without a bound on its length: in the kernel a chain that does not
  end fills the heap, and the loop then ends in the allocator's failure instead.
\<close>

theorem read_chain_terminates_iff:
  assumes "wf_fs fs" "c \<in> set S"
    and "list_all (\<lambda>c. valid_cluster fs c \<and> (fat_entry fs c < 0x0FFFFFF8 \<longrightarrow> fat_entry fs c \<in> set S)) S"
  shows "(read_chain fs c [] = None \<longleftrightarrow> (\<nexists>cs. follows (read_fat_entry fs) chain_next c cs))
    \<and> (\<forall>cs. follows (read_fat_entry fs) chain_next c cs \<longrightarrow>
         read_chain fs c [] = Some (Val (concat (map (cluster_data fs) cs))))"
proof -
  have S: "\<And>c. c \<in> set S \<Longrightarrow> valid_cluster fs c \<and> (fat_entry fs c < 0x0FFFFFF8 \<longrightarrow> fat_entry fs c \<in> set S)"
    using assms(3) by (simp add: list_all_iff)
  have val: "\<forall>x \<in> set cs. valid_cluster fs x"
    if "follows (read_fat_entry fs) chain_next k cs" "k \<in> set S" for k cs
    using that
  proof (induction cs arbitrary: k)
    case (Cons x xs)
    then have x: "k = x" "valid_cluster fs x" using S by auto
    show ?case
    proof (cases "0x0FFFFFF8 \<le> fat_entry fs x")
      case True
      with Cons.prems x assms(1) show ?thesis by (simp add: read_fat_entry_ok chain_next_cases)
    next
      case False
      with Cons.prems x assms(1) have "follows (read_fat_entry fs) chain_next (fat_entry fs x) xs"
        by (simp add: read_fat_entry_ok chain_next_cases)
      with Cons x S [of x] False show ?thesis by (auto simp: not_le)
    qed
  qed simp
  have ret: "read_chain fs c [] = Some (Val (concat (map (cluster_data fs) cs)))"
    if "follows (read_fat_entry fs) chain_next c cs" for cs
    using read_chain_follows [OF assms(1) val [OF that assms(2)] that, of "[]"] by (simp add: chain_data_def)
  have "read_chain fs c [] \<noteq> Some (Panic p)" for p
  proof (rule read_chain_no_panic [where S = "set S"])
    fix k assume "k \<in> set S"
    with S show "\<exists>d n. read_cluster fs k = Val d \<and> read_fat_entry fs k = Val n
        \<and> (n < 0x0FFFFFF8 \<longrightarrow> n \<in> set S)"
      using assms(1) by (auto simp: read_cluster_ok read_fat_entry_ok)
  qed (rule assms(2))
  then have "read_chain fs c [] = None \<or> (\<exists>x. read_chain fs c [] = Some (Val x))"
    by (metis not_None_eq run.exhaust)
  with ret read_chain_only_follows show ?thesis by (metis option.distinct(1))
qed

theorem read_chain_terminates_iff_witness:
  "read_chain demo_fs 4 [] = Some (Val (concat (map (cluster_data demo_fs) [4])))"
  using read_chain_terminates_iff [of demo_fs 4 "[4]"] demo_chain
  by (simp add: demo_geometry demo_fat_entries del: follows.simps)

section \<open>Creating files and directories\<close>

text \<open>
  C9: Allocating the lowest free cluster of a well-formed volume makes it a chain of its own, keeps
  every chain of valid clusters, none of which contained it, and changes no byte of any cluster.
\<close>

theorem allocate_keeps_chains:
  assumes "wf_fs fs" "first_free fs n"
  shows "\<exists>fs'. allocate_cluster fs = Val (Inr n, fs')
    \<and> follows (read_fat_entry fs') chain_next n [n]
    \<and> (\<forall>c cs. follows (read_fat_entry fs) chain_next c cs \<and> list_all (valid_cluster fs) cs \<longrightarrow>
         n \<notin> set cs \<and> follows (read_fat_entry fs') chain_next c cs)
    \<and> (\<forall>c. valid_cluster fs c \<longrightarrow> read_cluster fs' c = read_cluster fs c)"
proof -
  have n: "valid_cluster fs n" "fat_entry fs n = 0" using assms(2) by (simp_all add: first_free_def)
  then have ok: "fat_cell_ok fs n" and wr: "write_fat_entry fs n 0x0FFFFFFF = Val (mark_used fs n)"
    using assms(1) by (simp_all add: fat_cell_ok_def write_fat_entry_ok mark_used_def)
  have own: "follows (read_fat_entry (mark_used fs n)) chain_next n [n]"
    by (rule fat.follows_end [OF ok _ wr]) (simp_all add: fat_fits_def chain_next_def fat_value_def)
  have notin: "n \<notin> set cs"
    if f: "follows (read_fat_entry fs) chain_next c cs" and v: "list_all (valid_cluster fs) cs" for c cs
  proof
    assume "n \<in> set cs"
    then obtain xs ys where cs: "cs = xs @ n # ys" by (meson split_list)
    with follows_suffix f have "follows (read_fat_entry fs) chain_next n (n # ys)" by metis
    then have "follows (read_fat_entry fs) chain_next 0 ys"
      using n assms(1) by (simp add: read_fat_entry_ok chain_next_cases)
    then have "0 \<in> set cs" using follows_head cs by fastforce
    with v show False by (auto simp: list_all_iff valid_cluster_def)
  qed
  have keep: "follows (read_fat_entry (mark_used fs n)) chain_next c cs"
    if "follows (read_fat_entry fs) chain_next c cs" "list_all (valid_cluster fs) cs" for c cs
    using fat.follows_put [OF ok _ notin [OF that] _ wr] that assms(1)
    by (simp add: list_all_iff fat_cell_ok_def fat_fits_def)
  have "read_cluster (mark_used fs n) c = read_cluster fs c" if "valid_cluster fs c" for c
    using that n(1) assms(1) by (simp add: read_cluster_ok)
  with own notin keep allocate_cluster_ok [OF assms] show ?thesis by blast
qed

theorem allocate_keeps_chains_witness:
  "\<exists>fs'. allocate_cluster demo_fs = Val (Inr 5, fs') \<and> follows (read_fat_entry fs') chain_next 5 [5]
    \<and> (\<forall>c cs. follows (read_fat_entry demo_fs) chain_next c cs \<and> list_all (valid_cluster demo_fs) cs \<longrightarrow>
         5 \<notin> set cs \<and> follows (read_fat_entry fs') chain_next c cs)
    \<and> (\<forall>c. valid_cluster demo_fs c \<longrightarrow> read_cluster fs' c = read_cluster demo_fs c)"
  by (rule allocate_keeps_chains) (simp_all add: demo_geometry demo_first_free)

text \<open>Paths that resolved keep resolving, to the same entry, when no lookup is lost.\<close>

lemma parse_path_keeps:
  assumes "wf_fs fs" "wf_fs fs'" "dirs_closed fs D" "\<forall>c \<in> set D. valid_cluster fs' c"
    and "root_cluster fs' = root_cluster fs"
    and "\<And>c nm f. c \<in> set D \<Longrightarrow> dir_lookup fs c nm = Some f \<Longrightarrow> dir_lookup fs' c nm = Some f"
    and "cur_in cur D" "parse_path fs path cur = Val (Some f)"
  shows "parse_path fs' path cur = Val (Some f)"
proof -
  have st: "path_start fs' path cur = path_start fs path cur"
    using assms(5) by (simp add: path_start_def split: option.split)
  have "\<exists>f'. parse_path_loop fs' (path_parts path) (path_start fs path cur) = Val (Some f') \<and> f = f'"
    using assms(6,8) by (intro parse_path_loop_mono [where R = "(=)", OF assms(1-5) _ _ _
        path_start_in [OF assms(3,7)]]) (auto simp: parse_path_eq)
  with st show ?thesis by (auto simp: parse_path_eq)
qed

lemma dirs_closedI:
  assumes "root_cluster fs \<in> set D" "\<And>c. c \<in> set D \<Longrightarrow> valid_cluster fs c"
    and "\<And>c f. c \<in> set D \<Longrightarrow> f \<in> set (dir_listing fs c) \<Longrightarrow>
      if fi_name f = lit ''..'' then start_cluster f = 0 \<or> start_cluster f \<in> set D
      else is_directory f \<longrightarrow> start_cluster f \<in> set D"
  shows "dirs_closed fs D"
  using assms unfolding dirs_closed_def list_all_iff by blast

lemma dirs_closed_entry:
  assumes "dirs_closed fs D" "c \<in> set D" "f \<in> set (dir_listing fs c)"
  shows "if fi_name f = lit ''..'' then start_cluster f = 0 \<or> start_cluster f \<in> set D
      else is_directory f \<longrightarrow> start_cluster f \<in> set D"
  using assms unfolding dirs_closed_def list_all_iff by blast

text \<open>
  A tree in which an entry with a new name has been added to a directory: the path of the entry names
  it, every path that named something still does, and the tree is closed if the entry fits in.
\<close>

lemma add_entry_tree:
  assumes fs: "wf_fs fs" "dirs_closed fs D" "parent_dir fs pp = Some pc"
    and m: "\<And>c. valid_cluster m c = valid_cluster fs c" "root_cluster m = root_cluster fs"
      "\<And>c k. c \<in> set D \<Longrightarrow> dir_lookup m c k = dir_lookup fs c k" "dirs_closed m E" "set D \<subseteq> set E"
    and e: "can_add m pc i e" "fi_name (short_entry e) = nm" "plain_name nm" "dir_lookup fs pc nm = None"
      "is_directory (short_entry e) \<Longrightarrow> start_cluster (short_entry e) \<in> set E"
  shows "dirs_closed (add_entry m pc i e) E"
    and "parse_path (add_entry m pc i e) (pp @ 0x2F # nm) None = Val (Some (short_entry e))"
    and "cur_in cur D \<Longrightarrow> parse_path fs path cur = Val (Some f) \<Longrightarrow>
      parse_path (add_entry m pc i e) path cur = Val (Some f)"
proof -
  note ca = can_addD [OF e(1)]
  let ?w = "add_entry m pc i e"
  have w: "wf_fs ?w" "\<And>c. valid_cluster ?w c = valid_cluster fs c" "root_cluster ?w = root_cluster fs"
    using ca m by (simp_all add: add_entry_simps)
  have D: "valid_cluster fs c" if "c \<in> set D" for c using dirs_closedD(1) [OF fs(2) that] .
  have pc: "pc \<in> set D" using parent_dir_in [OF fs] .
  have fresh: "dir_lookup m pc (fi_name (short_entry e)) = None" using e m(3) pc by simp
  have look: "dir_lookup ?w c k = (if c = pc \<and> k = nm then Some (short_entry e) else dir_lookup fs c k)"
    if "c \<in> set D" for c k
    using add_entry_lookup [OF e(1) _ fresh, of c k] D [OF that] m(1,3) that e(2) by simp
  have keep: "dir_lookup ?w c k = Some f" if "c \<in> set D" "dir_lookup fs c k = Some f" for c k f
    using that look e(4) by auto
  have dotdot: "fi_name (short_entry e) \<noteq> lit ''..''" using e(2,3) by (simp add: plain_name_def)
  show closed: "dirs_closed ?w E" by (rule add_entry_dirs_closed [OF e(1) m(4) dotdot e(5)])
  have "parent_dir ?w pp = Some pc"
    using keep by (intro parent_dir_mono [OF fs(1) w(1) fs(2) _ w(3) _ fs(3)]) (auto simp: w(2) D)
  from parse_path_child [OF w(1) closed this e(3)] look [OF pc]
  show "parse_path ?w (pp @ 0x2F # nm) None = Val (Some (short_entry e))" by simp
  show "cur_in cur D \<Longrightarrow> parse_path fs path cur = Val (Some f) \<Longrightarrow> parse_path ?w path cur = Val (Some f)"
    using keep by (intro parse_path_keeps [OF fs(1) w(1) fs(2) _ w(3)]) (auto simp: w(2) D)
qed

text \<open>
  C12: Creating a file in a tidy directory with a free slot, on a volume with a free cluster, succeeds
  and adds exactly one entry to the listing of that directory: an empty file under its short name,
  with the lowest free cluster.  No other cluster changes, and of the FAT only the entry of the
  new cluster, which now ends a chain.
\<close>

theorem create_file_adds_entry:
  assumes "create_ready uc fs pp nm pc sn n i" "tidy_dir fs pc" "sn ! 0 \<noteq> 0x00" "sn ! 0 \<noteq> 0xE5"
  shows "\<exists>fs' xs ys. create_file uc fs pp nm = Val (Inr (), fs')
    \<and> list_directory_entries fs pc = Val (xs @ ys)
    \<and> list_directory_entries fs' pc = Val (xs @ FileInfo_new (short_name_to_string sn) False 0 n # ys)
    \<and> tidy_dir fs' pc
    \<and> (\<forall>c. valid_cluster fs c \<longrightarrow> c \<noteq> pc \<longrightarrow> read_cluster fs' c = read_cluster fs c)
    \<and> (\<forall>c. valid_cluster fs c \<longrightarrow>
         read_fat_entry fs' c = (if c = n then Val 0x0FFFFFFF else read_fat_entry fs c))"
proof -
  note r = create_readyD [OF assms(1)] and ca = create_ready_can_add [OF assms]
  let ?e = "plain_entry sn 0x20 n"
  let ?w = "add_entry (mark_used fs n) pc i ?e"
  have e: "length ?e = 32" using r(4) by (simp add: plain_entry_fields)
  note w = add_entry_simps [where fs = "mark_used fs n" and pc = pc and i = i and e = ?e]
  obtain xs ys where l: "dir_listing fs pc = xs @ ys" "dir_listing ?w pc = xs @ short_entry ?e # ys"
      "tidy_dir ?w pc"
    by (rule add_entry_listing [OF ca(1)]) (use r in \<open>simp add: mark_used_dirs\<close>)
  have "list_directory_entries fs pc = Val (xs @ ys)"
    "list_directory_entries ?w pc = Val (xs @ FileInfo_new (short_name_to_string sn) False 0 n # ys)"
    using r l e w by (simp_all add: list_directory_entries_ok ca(2))
  moreover have "\<forall>c. valid_cluster fs c \<longrightarrow> c \<noteq> pc \<longrightarrow> read_cluster ?w c = read_cluster fs c"
    "\<forall>c. valid_cluster fs c \<longrightarrow>
       read_fat_entry ?w c = (if c = n then Val 0x0FFFFFFF else read_fat_entry fs c)"
    using r e w by (simp_all add: read_cluster_ok read_fat_entry_ok)
  ultimately show ?thesis using create_file_ok [OF assms(1)] l(3) by blast
qed

theorem create_file_adds_entry_witness:
  "\<exists>fs' xs ys. create_file no_table demo_fs (lit ''/DOCS'') (lit ''b'') = Val (Inr (), fs')
    \<and> list_directory_entries demo_fs 3 = Val (xs @ ys)
    \<and> list_directory_entries fs' 3
        = Val (xs @ FileInfo_new (short_name_to_string (lit ''B          '')) False 0 5 # ys)
    \<and> tidy_dir fs' 3
    \<and> (\<forall>c. valid_cluster demo_fs c \<longrightarrow> c \<noteq> 3 \<longrightarrow> read_cluster fs' c = read_cluster demo_fs c)
    \<and> (\<forall>c. valid_cluster demo_fs c \<longrightarrow>
         read_fat_entry fs' c = (if c = 5 then Val 0x0FFFFFFF else read_fat_entry demo_fs c))"
  by (rule create_file_adds_entry [OF demo_create_ready(1) demo_tidy(2) demo_new_names(1,2)])

text \<open>
  C4: After a file with a name that is new in its directory has been created, its path names it, it
  reads as the empty string, every path that named something still names the same entry, and the
  directory tree is intact.
\<close>

theorem create_file_then_read:
  assumes "create_ready uc fs pp nm pc sn n i" "tidy_dir fs pc" "sn ! 0 \<noteq> 0x00" "sn ! 0 \<noteq> 0xE5"
    and "dirs_closed fs D" "parent_dir fs pp = Some pc" "plain_name (short_name_to_string sn)"
    and "dir_lookup fs pc (short_name_to_string sn) = None"
  shows "\<exists>fs'. create_file uc fs pp nm = Val (Inr (), fs') \<and> dirs_closed fs' D
    \<and> parse_path fs' (pp @ 0x2F # short_name_to_string sn) None
        = Val (Some (FileInfo_new (short_name_to_string sn) False 0 n))
    \<and> read_file fs' (pp @ 0x2F # short_name_to_string sn) None = Some (Val (Inr []))
    \<and> (\<forall>path cur f. cur_in cur D \<and> parse_path fs path cur = Val (Some f) \<longrightarrow>
         parse_path fs' path cur = Val (Some f))"
proof -
  note r = create_readyD [OF assms(1)] and ca = create_ready_can_add [OF assms(1-4)]
  let ?e = "plain_entry sn 0x20 n" and ?nm = "short_name_to_string sn" and ?m = "mark_used fs n"
  let ?w = "add_entry ?m pc i ?e"
  have D: "\<And>c. c \<in> set D \<Longrightarrow> valid_cluster fs c" using dirs_closedD(1) [OF assms(5)] .
  have e: "fi_name (short_entry ?e) = ?nm" "\<not> is_directory (short_entry ?e)" "length ?e = 32"
    using r(4) by (simp_all add: ca(2) FileInfo_new_def plain_entry_fields)
  have m: "\<And>c. valid_cluster ?m c = valid_cluster fs c" "root_cluster ?m = root_cluster fs"
    "\<And>c k. c \<in> set D \<Longrightarrow> dir_lookup ?m c k = dir_lookup fs c k" "dirs_closed ?m D"
    using r(3) D assms(5) by (simp_all add: mark_used_dirs)
  note tree = add_entry_tree [OF r(1) assms(5,6) m order_refl ca(1) e(1) assms(7,8)]
  have pf: "parse_path ?w (pp @ 0x2F # ?nm) None = Val (Some (FileInfo_new ?nm False 0 n))"
    using tree(2) e(2) ca(2) by simp
  have w: "wf_fs ?w" "valid_cluster ?w n" using r e by (simp_all add: add_entry_simps)
  moreover have "follows (read_fat_entry ?w) chain_next n [n]"
    using r e w by (simp add: read_fat_entry_ok add_entry_simps chain_next_def)
  ultimately have "read_file ?w (pp @ 0x2F # ?nm) None = Some (Val (Inr []))"
    using read_file_chain [OF pf _ w(1), of "[n]"] by (simp add: FileInfo_new_def from_utf8_def)
  with create_file_ok [OF assms(1)] tree(1,3) e(2) pf show ?thesis by blast
qed

theorem create_file_then_read_witness:
  "\<exists>fs'. create_file no_table demo_fs (lit ''/DOCS'') (lit ''b'') = Val (Inr (), fs') \<and> dirs_closed fs' [2, 3]
    \<and> parse_path fs' (lit ''/DOCS'' @ 0x2F # short_name_to_string (lit ''B          '')) None
        = Val (Some (FileInfo_new (short_name_to_string (lit ''B          '')) False 0 5))
    \<and> read_file fs' (lit ''/DOCS'' @ 0x2F # short_name_to_string (lit ''B          '')) None = Some (Val (Inr []))
    \<and> (\<forall>path cur f. cur_in cur [2, 3] \<and> parse_path demo_fs path cur = Val (Some f) \<longrightarrow>
         parse_path fs' path cur = Val (Some f))"
  by (rule create_file_then_read [OF demo_create_ready(1) demo_tidy(2) demo_new_names(1,2) demo_closed
        demo_parent_dir(1) demo_new_names(5,7)])

lemma fresh_dir_closed:
  assumes "valid_cluster fs n" "64 \<le> cluster_bytes fs" "dirs_closed fs D" "n \<notin> set D" "pc \<in> set D"
  shows "dirs_closed (fresh_dir fs n pc) (n # D)"
proof (rule dirs_closedI)
  note m = fresh_dir_simps [OF assms(1,2), of pc] and md = fresh_dir_dirs [OF assms(1,2)]
  have D: "\<And>c. c \<in> set D \<Longrightarrow> valid_cluster fs c" using dirs_closedD(1) [OF assms(3)] .
  show "root_cluster (fresh_dir fs n pc) \<in> set (n # D)" using dirs_closed_root [OF assms(3)] m by simp
  show "valid_cluster (fresh_dir fs n pc) c" if "c \<in> set (n # D)" for c using that D assms(1) m by auto
  show "if fi_name f = lit ''..'' then start_cluster f = 0 \<or> start_cluster f \<in> set (n # D)
      else is_directory f \<longrightarrow> start_cluster f \<in> set (n # D)"
    if "c \<in> set (n # D)" "f \<in> set (dir_listing (fresh_dir fs n pc) c)" for c f
  proof (cases "c = n")
    case True
    with that(2) assms(5) md(5) show ?thesis by (auto simp: FileInfo_new_def)
  next
    case False
    with that D md(2) have "c \<in> set D" "f \<in> set (dir_listing fs c)" by auto
    from dirs_closed_entry [OF assms(3) this] show ?thesis by auto
  qed
qed

text \<open>
  C5: Making a directory under a name that is new in its parent succeeds; the path names the new
  directory, which lists exactly \<^verbatim>\<open>.\<close> and \<^verbatim>\<open>..\<close> and whose parent is the directory it was made in; the
  tree, now with the new cluster, is intact, and every path that named something still does.
\<close>

theorem mkdir_adds_directory:
  assumes "create_ready uc fs pp nm pc sn n i" "tidy_dir fs pc" "sn ! 0 \<noteq> 0x00" "sn ! 0 \<noteq> 0xE5"
    and "dirs_closed fs D" "n \<notin> set D" "64 \<le> cluster_bytes fs" "parent_dir fs pp = Some pc"
    and "plain_name (short_name_to_string sn)" "dir_lookup fs pc (short_name_to_string sn) = None"
  shows "\<exists>fs'. mkdir uc fs pp nm = Val (Inr (), fs') \<and> dirs_closed fs' (n # D)
    \<and> parse_path fs' (pp @ 0x2F # short_name_to_string sn) None
        = Val (Some (FileInfo_new (short_name_to_string sn) True 0 n))
    \<and> map_option list_files_names (case list_directory_entries fs' n of Val l \<Rightarrow> Some l | Panic _ \<Rightarrow> None)
        = Some [lit ''.'', lit ''..'']
    \<and> find_parent_cluster fs' n = Val (Some pc)
    \<and> (\<forall>path cur f. cur_in cur D \<and> parse_path fs path cur = Val (Some f) \<longrightarrow>
         parse_path fs' path cur = Val (Some f))"
proof -
  note r = create_readyD [OF assms(1)]
  have pcD: "pc \<in> set D" using parent_dir_in [OF r(1) assms(5,8)] .
  have ne: "pc \<noteq> n" using pcD assms(6) by auto
  note ca = mkdir_can_add [OF assms(1) ne assms(7,2-4)]
  let ?e = "plain_entry sn 0x10 n" and ?nm = "short_name_to_string sn" and ?m = "fresh_dir fs n pc"
  let ?w = "add_entry ?m pc i ?e"
  note m = fresh_dir_simps [OF r(3) assms(7), of pc] and md = fresh_dir_dirs [OF r(3) assms(7)]
  have D: "\<And>c. c \<in> set D \<Longrightarrow> valid_cluster fs c \<and> c \<noteq> n"
    using dirs_closedD(1) [OF assms(5)] assms(6) by auto
  have e: "fi_name (short_entry ?e) = ?nm" "start_cluster (short_entry ?e) \<in> set (n # D)" "length ?e = 32"
    using r(4) by (simp_all add: ca(2) FileInfo_new_def plain_entry_fields)
  have lk: "\<And>c k. c \<in> set D \<Longrightarrow> dir_lookup ?m c k = dir_lookup fs c k" using D md(3) by simp
  note closed = fresh_dir_closed [OF r(3) assms(7,5,6) pcD]
  note tree = add_entry_tree [OF r(1) assms(5,8) m(2,3) lk closed set_subset_Cons ca(1) e(1) assms(9,10) e(2)]
  have w: "wf_fs ?w" "valid_cluster ?w n" using r e by (simp_all add: add_entry_simps m)
  have new: "dir_listing ?w n = [FileInfo_new (lit ''.'') True 0 n,
      FileInfo_new (lit ''..'') True 0 (if pc = root_cluster fs then 0 else pc)]"
    using add_entry_listing_other(1) [OF ca(1), of n] r(3) ne by (simp add: md m)
  have "root_cluster ?w = root_cluster fs" using r e by (simp add: add_entry_simps m)
  moreover have "pc \<noteq> 0" using valid_clusterD(1) [OF r(2)] by auto
  moreover have "n \<noteq> root_cluster fs" using assms(6) dirs_closed_root [OF assms(5)] by auto
  ultimately have "parent_of ?w n = Some pc" by (simp add: parent_of_def dir_lookup_def new FileInfo_new_def)
  then have "find_parent_cluster ?w n = Val (Some pc)" using find_parent_cluster_ok [OF w] by simp
  moreover have "list_directory_entries ?w n = Val (dir_listing ?w n)"
    using w by (rule list_directory_entries_ok)
  ultimately show ?thesis
    using mkdir_ok [OF assms(1) ne assms(7)] tree ca(2) new
    by (auto simp: list_files_names_def FileInfo_new_def)
qed

theorem mkdir_adds_directory_witness:
  "\<exists>fs'. mkdir no_table demo_fs (lit ''/DOCS'') (lit ''sub'') = Val (Inr (), fs') \<and> dirs_closed fs' (5 # [2, 3])
    \<and> parse_path fs' (lit ''/DOCS'' @ 0x2F # short_name_to_string (lit ''SUB        '')) None
        = Val (Some (FileInfo_new (short_name_to_string (lit ''SUB        '')) True 0 5))
    \<and> map_option list_files_names (case list_directory_entries fs' 5 of Val l \<Rightarrow> Some l | Panic _ \<Rightarrow> None)
        = Some [lit ''.'', lit ''..'']
    \<and> find_parent_cluster fs' 5 = Val (Some 3)
    \<and> (\<forall>path cur f. cur_in cur [2, 3] \<and> parse_path demo_fs path cur = Val (Some f) \<longrightarrow>
         parse_path fs' path cur = Val (Some f))"
  using demo_closed demo_parent_dir(1) demo_new_names
  by (intro mkdir_adds_directory [OF demo_create_ready(2) demo_tidy(2)]) (simp_all add: demo_geometry)

section \<open>Writing\<close>

text \<open>
  C2: Writing a file and reading it back returns the data written, if it is a string that fits a
  cluster; longer data is cut to one cluster, and bytes that are then no string read as the UTF-8 error.
\<close>

theorem write_then_read:
  assumes "write_ready uc fs D path pp nm pc i f"
    and "follows (read_fat_entry fs) chain_next (start_cluster f) cs" "list_all (valid_cluster fs) cs"
  shows "\<exists>fs'. write_file uc fs path data = Val (Inr (), fs')
    \<and> read_file fs' path None = Some (Val
        (if utf8_valid (take (cluster_bytes fs) data) then Inr (take (cluster_bytes fs) data)
         else Inl InvalidUtf8))"
  using write_file_ok [OF assms(1), of data] read_written [OF assms(1,2), of data] assms(3)
  by (auto simp: list_all_iff from_utf8_def)

theorem write_then_read_witness:
  "\<exists>fs'. write_file no_table demo_fs (lit ''/DOCS/A.TXT'') (lit ''hello'') = Val (Inr (), fs')
    \<and> read_file fs' (lit ''/DOCS/A.TXT'') None = Some (Val
        (if utf8_valid (take (cluster_bytes demo_fs) (lit ''hello''))
         then Inr (take (cluster_bytes demo_fs) (lit ''hello'')) else Inl InvalidUtf8))"
  by (rule write_then_read [OF demo_write_ready, of "[4]"])
     (use demo_chain in \<open>simp_all add: demo_geometry demo_file_def FileInfo_new_def del: follows.simps\<close>)

lemma written_disk:
  assumes "write_ready uc fs D path pp nm pc i f"
  shows "written fs pc i f data = fs\<lparr>disk :=
      blit (blit (disk fs) (cluster_off fs (start_cluster f)) (take (cluster_bytes fs) data))
        (cluster_off fs pc + (i * 32 + 28)) (u32_to_le_bytes (of_nat (min (length data) (cluster_bytes fs))))\<rparr>"
    "cluster_data (written fs pc i f data) pc = blit (cluster_data fs pc) (i * 32 + 28)
      (u32_to_le_bytes (of_nat (min (length data) (cluster_bytes fs))))"
proof -
  note r = write_readyD [OF assms]
  let ?fs1 = "patch_cluster fs (start_cluster f) 0 (take (cluster_bytes fs) data)"
  show "written fs pc i f data = fs\<lparr>disk :=
      blit (blit (disk fs) (cluster_off fs (start_cluster f)) (take (cluster_bytes fs) data))
        (cluster_off fs pc + (i * 32 + 28)) (u32_to_le_bytes (of_nat (min (length data) (cluster_bytes fs))))\<rparr>"
    by (simp add: written_def resize_slot_def patch_cluster_def)
  have "cluster_data ?fs1 pc = cluster_data fs pc" "valid_cluster ?fs1 pc" "cluster_bytes ?fs1 = cluster_bytes fs"
    using r by (auto simp: cluster_data_patch)
  with slot_bound [of i "cluster_bytes fs"] r
  show "cluster_data (written fs pc i f data) pc = blit (cluster_data fs pc) (i * 32 + 28)
      (u32_to_le_bytes (of_nat (min (length data) (cluster_bytes fs))))"
    by (simp add: written_def resize_slot_def cluster_data_patch)
qed

text \<open>
  C7: A write changes the first cluster of the file, the four bytes of the size field of the file's
  own entry, and no other byte of the disk: the disk after it is the disk before it with these two
  ranges overwritten.  So the file's cluster keeps what lies behind the data and the parent directory
  every other byte, the FAT and every other cluster and entry keep their contents, the tree is intact
  and every directory path names the directory it named.
\<close>

theorem write_file_frame:
  assumes "write_ready uc fs D path pp nm pc i f"
  shows "\<exists>fs'. write_file uc fs path data = Val (Inr (), fs') \<and> dirs_closed fs' D
    \<and> fs' = fs\<lparr>disk :=
        blit (blit (disk fs) (cluster_off fs (start_cluster f)) (take (cluster_bytes fs) data))
          (cluster_off fs pc + (i * 32 + 28)) (u32_to_le_bytes (of_nat (min (length data) (cluster_bytes fs))))\<rparr>
    \<and> read_cluster fs' (start_cluster f)
        = Val (take (cluster_bytes fs) data @ drop (length data) (cluster_data fs (start_cluster f)))
    \<and> read_cluster fs' pc = Val (blit (cluster_data fs pc) (i * 32 + 28)
        (u32_to_le_bytes (of_nat (min (length data) (cluster_bytes fs)))))
    \<and> (\<forall>c. valid_cluster fs c \<longrightarrow> read_fat_entry fs' c = read_fat_entry fs c)
    \<and> (\<forall>c. valid_cluster fs c \<longrightarrow> c \<noteq> pc \<longrightarrow> c \<noteq> start_cluster f \<longrightarrow> read_cluster fs' c = read_cluster fs c)
    \<and> (\<forall>c \<in> set D. \<forall>k j g. lookup_slot fs c k = Some (j, g) \<longrightarrow> lookup_slot fs' c k
         = Some (j, if c = pc \<and> j = i
             then g\<lparr>fi_size := of_nat (min (length data) (cluster_bytes fs))\<rparr> else g))
    \<and> (\<forall>q d. parent_dir fs q = Some d \<longrightarrow> parent_dir fs' q = Some d)"
proof (intro exI [of _ "written fs pc i f data"] conjI)
  note r = write_readyD [OF assms] and w = written_simps [OF assms] and d = written_disk [OF assms]
  let ?w = "written fs pc i f data"
  show "write_file uc fs path data = Val (Inr (), ?w)" "dirs_closed ?w D" by (rule write_file_ok [OF assms] w)+
  show "?w = fs\<lparr>disk :=
        blit (blit (disk fs) (cluster_off fs (start_cluster f)) (take (cluster_bytes fs) data))
          (cluster_off fs pc + (i * 32 + 28)) (u32_to_le_bytes (of_nat (min (length data) (cluster_bytes fs))))\<rparr>"
    by (rule d(1))
  have "start_cluster f \<noteq> pc" using r(9,11) by auto
  then show "read_cluster ?w (start_cluster f)
        = Val (take (cluster_bytes fs) data @ drop (length data) (cluster_data fs (start_cluster f)))"
    using r w by (simp add: read_cluster_ok blit_def min_def)
  show "read_cluster ?w pc = Val (blit (cluster_data fs pc) (i * 32 + 28)
        (u32_to_le_bytes (of_nat (min (length data) (cluster_bytes fs)))))"
    using r w d by (simp add: read_cluster_ok)
  show "\<forall>c. valid_cluster fs c \<longrightarrow> read_fat_entry ?w c = read_fat_entry fs c"
    using r(1) w by (simp add: read_fat_entry_ok)
  show "\<forall>c. valid_cluster fs c \<longrightarrow> c \<noteq> pc \<longrightarrow> c \<noteq> start_cluster f \<longrightarrow> read_cluster ?w c = read_cluster fs c"
    using r(1) w by (simp add: read_cluster_ok)
  show "\<forall>c \<in> set D. \<forall>k j g. lookup_slot fs c k = Some (j, g) \<longrightarrow> lookup_slot ?w c k = Some (j,
      if c = pc \<and> j = i then g\<lparr>fi_size := of_nat (min (length data) (cluster_bytes fs))\<rparr> else g)"
    using w(7) by (auto simp: resized_def)
  show "\<forall>q d. parent_dir fs q = Some d \<longrightarrow> parent_dir ?w q = Some d"
    using written_parent_dir [OF assms] by blast
qed

theorem write_file_frame_witness:
  "\<exists>fs'. write_file no_table demo_fs (lit ''/DOCS/A.TXT'') (lit ''hello'') = Val (Inr (), fs')
    \<and> read_cluster fs' 4 = Val (lit ''hello'' @ replicate 123 0)
    \<and> read_cluster fs' 3 = Val (blit (cluster_data demo_fs 3) 92 [5, 0, 0, 0])"
proof -
  have "take 128 (lit ''hello'') = lit ''hello''" "length (lit ''hello'') = 5"
    "u32_to_le_bytes (of_nat 5) = [5, 0, 0, 0]" by code_simp+
  with write_file_frame [OF demo_write_ready, of "lit ''hello''"] show ?thesis
    by (auto simp: demo_geometry demo_clusters demo_file_def FileInfo_new_def)
qed

end
