(* ===== verification/Fs_Failures.thy ===== *)
theory Fs_Failures
  imports Fs_Properties
begin

text \<open>
  What \<^verbatim>\<open>create_file\<close>, \<^verbatim>\<open>mkdir\<close> and \<^verbatim>\<open>write_file\<close> leave on the volume when they fail, and the inputs on
  which they succeed but do not do what their callers expect.
\<close>

lemma create_file_Inl:
  assumes "resolve_parent fs pp = Val (Some pc)" "format_to_8_3 uc nm = Inr sn"
  shows "create_file uc fs pp nm = Val (Inl e, fs') \<longleftrightarrow> allocate_cluster fs = Val (Inl e, fs')
    \<or> e = NoSpaceInParent \<and> (\<exists>n data. allocate_cluster fs = Val (Inr n, fs')
        \<and> read_cluster fs' pc = Val data \<and> list_all (\<lambda>s. \<not> slot_free s) (chunks_exact 32 data))"
proof (cases "allocate_cluster fs")
  case (Val rf)
  obtain r fs1 where rf: "rf = (r, fs1)" by (cases rf)
  show ?thesis
  proof (cases r)
    case (Inl x)
    with assms Val rf show ?thesis by (simp add: create_file_def)
  next
    case (Inr n)
    have full: "find_free_slot d = None \<longleftrightarrow> list_all (\<lambda>s. \<not> slot_free s) (chunks_exact 32 d)" for d
      by (simp add: find_free_slot_def find_index_None list_all_iff)
    have "create_file uc fs pp nm = Val (Inl e, fs') \<longleftrightarrow> e = NoSpaceInParent \<and> fs' = fs1
        \<and> (\<exists>data. read_cluster fs1 pc = Val data \<and> find_free_slot data = None)"
      using assms Val rf Inr by (auto simp: create_file_def rbind_Val_iff split: option.splits)
    then show ?thesis using Val rf Inr full by auto
  qed
qed (use assms in \<open>simp add: create_file_def\<close>)

lemma marked_taken:
  assumes "write_fat_entry fs n 0x0FFFFFFF = Val fs'" "wf_fs fs" "valid_cluster fs n"
  shows "read_fat_entry fs' n = Val 0x0FFFFFFF" "valid_cluster fs c \<Longrightarrow> read_cluster fs' c = read_cluster fs c"
  using assms by (auto simp: write_fat_entry_ok read_fat_entry_ok read_cluster_ok fat_entry_update cluster_data_fat_update)

text \<open>
  C28: \<^verbatim>\<open>create_file\<close> fails in exactly four ways.  The parent path names nothing, the name is invalid, or
  every FAT entry from 2 to 49999 is taken: then nothing has changed.  Or the parent has no free slot:
  then the lowest free cluster has been taken all the same, no cluster's bytes have changed, so that no
  new entry refers to it, and it stays taken.
\<close>

theorem create_file_failures:
  "create_file uc fs pp nm = Val (Inl e, fs') \<longleftrightarrow>
     resolve_parent fs pp = Val None \<and> e = ParentDirectoryNotFound \<and> fs' = fs
   \<or> (\<exists>pc. resolve_parent fs pp = Val (Some pc) \<and>
       (format_to_8_3 uc nm = Inl InvalidName \<and> e = InvalidName \<and> fs' = fs
        \<or> (\<exists>sn. format_to_8_3 uc nm = Inr sn) \<and>
          (e = DiskFull \<and> fs' = fs \<and> (\<forall>j. 2 \<le> j \<longrightarrow> j < 50000 \<longrightarrow> fat_taken fs j)
           \<or> e = NoSpaceInParent \<and> (\<exists>n data.
               2 \<le> n \<and> n < 50000 \<and> (\<forall>j. 2 \<le> j \<longrightarrow> j < n \<longrightarrow> fat_taken fs j) \<and> read_fat_entry fs n = Val 0
               \<and> write_fat_entry fs n 0x0FFFFFFF = Val fs'
               \<and> read_cluster fs' pc = Val data \<and> list_all (\<lambda>s. \<not> slot_free s) (chunks_exact 32 data)
               \<and> (wf_fs fs \<and> valid_cluster fs n \<longrightarrow> read_fat_entry fs' n = Val 0x0FFFFFFF
                   \<and> (\<forall>c. valid_cluster fs c \<longrightarrow> read_cluster fs' c = read_cluster fs c))))))"
proof (cases "resolve_parent fs pp")
  case (Val po)
  show ?thesis
  proof (cases po)
    case None
    with Val show ?thesis by (auto simp: create_file_def)
  next
    case (Some pc)
    have rp: "resolve_parent fs pp = Val (Some q) \<longleftrightarrow> q = pc" for q using Val Some by auto
    show ?thesis
    proof (cases "format_to_8_3 uc nm")
      case (Inl x)
      then have "x = InvalidName" by (auto simp: format_to_8_3_eq split: if_splits)
      with Val Some Inl show ?thesis by (auto simp: create_file_def)
    next
      case (Inr sn)
      have cf: "create_file uc fs pp nm = Val (Inl e, fs') \<longleftrightarrow> allocate_cluster fs = Val (Inl e, fs')
          \<or> e = NoSpaceInParent \<and> (\<exists>n data. allocate_cluster fs = Val (Inr n, fs')
            \<and> read_cluster fs' pc = Val data \<and> list_all (\<lambda>s. \<not> slot_free s) (chunks_exact 32 data))"
        using Val Some Inr by (simp add: create_file_Inl)
      have "allocate_cluster fs = Val (Inr n, fs') \<and> read_cluster fs' pc = Val data
            \<and> list_all (\<lambda>s. \<not> slot_free s) (chunks_exact 32 data) \<longleftrightarrow>
          2 \<le> n \<and> n < 50000 \<and> (\<forall>j. 2 \<le> j \<longrightarrow> j < n \<longrightarrow> fat_taken fs j) \<and> read_fat_entry fs n = Val 0
          \<and> write_fat_entry fs n 0x0FFFFFFF = Val fs'
          \<and> read_cluster fs' pc = Val data \<and> list_all (\<lambda>s. \<not> slot_free s) (chunks_exact 32 data)
          \<and> (wf_fs fs \<and> valid_cluster fs n \<longrightarrow> read_fat_entry fs' n = Val 0x0FFFFFFF
              \<and> (\<forall>c. valid_cluster fs c \<longrightarrow> read_cluster fs' c = read_cluster fs c))" for n data
        unfolding allocate_cluster_def allocate_scan_Inr using marked_taken [of fs n fs'] by blast
      moreover have "allocate_cluster fs = Val (Inl e, fs') \<longleftrightarrow>
          e = DiskFull \<and> fs' = fs \<and> (\<forall>j. 2 \<le> j \<longrightarrow> j < 50000 \<longrightarrow> fat_taken fs j)"
        unfolding allocate_cluster_def allocate_scan_Inl ..
      moreover have "resolve_parent fs pp \<noteq> Val None" "format_to_8_3 uc nm \<noteq> Inl InvalidName"
        "\<exists>sn. format_to_8_3 uc nm = Inr sn" using Val Some Inr by simp_all
      ultimately show ?thesis unfolding cf rp by (simp only: simp_thms ex_simps)
    qed
  qed
qed (simp add: create_file_def)

text \<open>The demonstration volume with its directory \<^verbatim>\<open>DOCS\<close> filled by a second file.\<close>

definition crowded_fs :: Fat32FileSystem where
  "crowded_fs = add_entry demo_fs 3 3 (plain_entry (lit ''B          '') 0x20 4)"

lemma crowded_facts:
  "wf_fs crowded_fs" "valid_cluster crowded_fs 3" "first_free crowded_fs 5"
  "resolve_parent crowded_fs (lit ''/DOCS'') = Val (Some 3)"
  "find_index slot_free (dir_slots crowded_fs 3) = None"
proof -
  let ?e = "plain_entry (lit ''B          '') 0x20 4"
  have len: "length ?e = 32" by (simp add: plain_entry_fields lit_def)
  note c = add_entry_simps [OF demo_geometry(4) _ len, of 3, folded crowded_fs_def, unfolded demo_geometry(2), simplified]
  show wf: "wf_fs crowded_fs" "valid_cluster crowded_fs 3" by (simp_all add: c demo_geometry)
  have "[2..<unat (5 :: u32)] = [2, 3, 4]" "(5 :: u32) < 50000" by code_simp+
  then show "first_free crowded_fs 5" by (simp add: first_free_def c demo_geometry demo_fat_entries)
  have "path_parts (lit ''/DOCS'') = [lit ''DOCS'']" "lit ''DOCS'' \<noteq> lit ''.''" "lit ''DOCS'' \<noteq> lit ''..''"
    "lit ''/DOCS'' \<noteq> []" "lit ''/DOCS'' \<noteq> lit ''/''" by code_simp+
  moreover have "dir_lookup crowded_fs 2 (lit ''DOCS'') = Some (FileInfo_new (lit ''DOCS'') True 0 3)"
    using demo_lookups(1) by (simp add: dir_lookup_def dir_listing_slots c demo_geometry)
  ultimately show "resolve_parent crowded_fs (lit ''/DOCS'') = Val (Some 3)"
    by (simp add: resolve_parent_def parse_path_eq c demo_fields parse_path_loop_Cons wf demo_geometry
        FileInfo_new_def del: parse_path_loop.simps(2))
  show "find_index slot_free (dir_slots crowded_fs 3) = None"
    by (simp add: c demo_geometry demo_slots) code_simp
qed

theorem create_file_failures_witness:
  "create_file no_table crowded_fs (lit ''/DOCS'') (lit ''c'') = Val (Inl NoSpaceInParent, mark_used crowded_fs 5)"
proof -
  note c = crowded_facts and n = crowded_facts(3) [unfolded first_free_def]
  have al: "allocate_cluster crowded_fs = Val (Inr 5, mark_used crowded_fs 5)" by (rule allocate_cluster_ok [OF c(1,3)])
  then have lowest: "2 \<le> (5 :: u32)" "(5 :: u32) < 50000" "\<forall>j. 2 \<le> j \<longrightarrow> j < 5 \<longrightarrow> fat_taken crowded_fs j"
    "read_fat_entry crowded_fs 5 = Val 0" "write_fat_entry crowded_fs 5 0x0FFFFFFF = Val (mark_used crowded_fs 5)"
    by (auto simp: allocate_cluster_def allocate_scan_Inr)
  have rd: "read_cluster (mark_used crowded_fs 5) 3 = Val (cluster_data crowded_fs 3)"
    using c n by (simp add: read_cluster_ok)
  have full: "list_all (\<lambda>s. \<not> slot_free s) (chunks_exact 32 (cluster_data crowded_fs 3))"
    using c(5) by (simp add: dir_slots_def find_index_None list_all_iff)
  have sn: "\<exists>sn. format_to_8_3 no_table (lit ''c'') = Inr sn"
    by (rule exI [of _ "lit ''C          ''"]) code_simp
  show ?thesis
    by (rule iffD2 [OF create_file_failures], rule disjI2, rule exI [of _ 3], rule conjI [OF c(4)], rule disjI2,
        rule conjI [OF sn], rule disjI2, rule conjI [OF refl], rule exI [of _ 5],
        rule exI [of _ "cluster_data crowded_fs 3"], intro conjI lowest rd full)
       (use marked_taken [OF lowest(5)] in blast)
qed

lemma dir_image_dots: "\<exists>dots. length dots = 64 \<and> dir_image n pv sz = dots @ replicate (sz - 64) 0"
  by (rule exI [of _ "take 64 (dir_image n pv sz)"]) (simp add: dir_image_def plain_entry_fields dot_names)

text \<open>
  C29: \<^verbatim>\<open>mkdir\<close> validates the name only after it has taken and initialised a cluster.  With an invalid
  name it reports the error, and the lowest free cluster is taken and holds an empty directory, of
  which every byte but the two entries is zero; no other cluster and no other FAT entry has changed, so
  that no entry refers to it.
\<close>

theorem mkdir_invalid_name_leaks:
  assumes "wf_fs fs" "resolve_parent fs pp = Val (Some pc)" "first_free fs n" "64 \<le> cluster_bytes fs"
    and "format_to_8_3 uc nm = Inl e"
  shows "\<exists>fs' dots. mkdir uc fs pp nm = Val (Inl e, fs')
    \<and> read_fat_entry fs n = Val 0 \<and> read_fat_entry fs' n = Val 0x0FFFFFFF
    \<and> read_cluster fs' n = Val (dots @ replicate (cluster_bytes fs - 64) 0) \<and> length dots = 64
    \<and> list_directory_entries fs' n = Val [FileInfo_new (lit ''.'') True 0 n,
        FileInfo_new (lit ''..'') True 0 (if pc = root_cluster fs then 0 else pc)]
    \<and> (\<forall>c. valid_cluster fs c \<longrightarrow> c \<noteq> n \<longrightarrow>
         read_cluster fs' c = read_cluster fs c \<and> read_fat_entry fs' c = read_fat_entry fs c)"
proof -
  have n: "valid_cluster fs n" "fat_entry fs n = 0" using assms(3) by (simp_all add: first_free_def)
  note m = fresh_dir_simps [OF n(1) assms(4)] and d = fresh_dir_dirs [OF n(1) assms(4)]
  have "init_directory_cluster (mark_used fs n) n pc = Val (fresh_dir fs n pc)"
    using n assms(1,4) by (simp add: init_directory_cluster_ok fresh_dir_def)
  then have "mkdir uc fs pp nm = Val (Inl e, fresh_dir fs n pc)"
    using assms by (simp add: mkdir_def allocate_cluster_ok [OF assms(1,3)])
  moreover obtain dots where "length dots = 64"
    "dir_image n (if pc = root_cluster fs then 0 else pc) (cluster_bytes fs) = dots @ replicate (cluster_bytes fs - 64) 0"
    using dir_image_dots by blast
  moreover have "read_cluster (fresh_dir fs n pc) c = Val (cluster_data (fresh_dir fs n pc) c)"
    "read_fat_entry (fresh_dir fs n pc) c = Val (fat_entry (fresh_dir fs n pc) c)"
    "list_directory_entries (fresh_dir fs n pc) c = Val (dir_listing (fresh_dir fs n pc) c)"
    "read_cluster fs c = Val (cluster_data fs c)" "read_fat_entry fs c = Val (fat_entry fs c)"
    if "valid_cluster fs c" for c
    using that assms(1) m(1,2) by (simp_all add: read_fat_entry_ok read_cluster_ok list_directory_entries_ok)
  ultimately show ?thesis using n m(5,6) d(5)
    by (intro exI [of _ "fresh_dir fs n pc"] exI [of _ dots]) simp
qed

theorem mkdir_invalid_name_leaks_witness:
  "\<exists>fs' dots. mkdir no_table demo_fs (lit ''/'') (lit ''.hidden'') = Val (Inl InvalidName, fs')
    \<and> read_fat_entry demo_fs 5 = Val 0 \<and> read_fat_entry fs' 5 = Val 0x0FFFFFFF
    \<and> read_cluster fs' 5 = Val (dots @ replicate (cluster_bytes demo_fs - 64) 0) \<and> length dots = 64
    \<and> list_directory_entries fs' 5 = Val [FileInfo_new (lit ''.'') True 0 5,
        FileInfo_new (lit ''..'') True 0 (if 2 = root_cluster demo_fs then 0 else 2)]
    \<and> (\<forall>c. valid_cluster demo_fs c \<longrightarrow> c \<noteq> 5 \<longrightarrow>
         read_cluster fs' c = read_cluster demo_fs c \<and> read_fat_entry fs' c = read_fat_entry demo_fs c)"
proof (rule mkdir_invalid_name_leaks)
  show "format_to_8_3 no_table (lit ''.hidden'') = Inl InvalidName" by code_simp
qed (simp_all add: demo_geometry demo_first_free parent_dir_resolve [OF demo_parent_dir(2)])

lemma update_file_size_error:
  "update_file_size uc fs path sz = Val (Inl e, fs') \<Longrightarrow> fs' = fs"
  by (cases "format_to_8_3 uc (snd (split_path path))")
     (auto simp: update_file_size_def rbind_Val_iff Let_def split: prod.splits option.splits)

text \<open>
  C30: Once \<^verbatim>\<open>write_file\<close> has found a file, an error it returns comes after the data has been stored: the
  file's cluster holds the new bytes, while the entry keeps the old size.
\<close>

theorem write_error_after_data:
  assumes "wf_fs fs" "parse_path fs path None = Val (Some f)" "\<not> is_directory f"
    and "valid_cluster fs (start_cluster f)" "write_file uc fs path data = Val (Inl e, fs')"
  shows "read_cluster fs' (start_cluster f) = Val (take (cluster_bytes fs) data
      @ drop (length data) (cluster_data fs (start_cluster f)))
    \<and> (\<forall>c. valid_cluster fs c \<longrightarrow> c \<noteq> start_cluster f \<longrightarrow> read_cluster fs' c = read_cluster fs c)"
proof -
  let ?xs = "take (cluster_bytes fs) data" and ?dc = "start_cluster f"
  obtain st g where g: "start_sector fs ?dc = Val st" "u32_mul st (bytes_per_sector fs) = Val g"
      "unat g = cluster_off fs ?dc"
    by (rule start_offset [OF assms(1,4)])
  have xs: "take (min (length data) (cluster_bytes fs)) data = ?xs" by (simp add: min_def)
  have cp: "copy_from_slice (disk fs) (cluster_off fs ?dc) ?xs = Val (blit (disk fs) (cluster_off fs ?dc) ?xs)"
    using valid_clusterD(2) [OF assms(4)] by (intro copy_from_slice_ok) simp
  have "\<exists>sz. update_file_size uc (patch_cluster fs ?dc 0 ?xs) path sz = Val (Inl e, fs')"
    using assms(2,3,5) u32_cluster_bytes [OF assms(1,4)] g xs cp
    by (auto simp: write_file_def patch_cluster_def Let_def)
  then have fs': "fs' = patch_cluster fs ?dc 0 ?xs" using update_file_size_error by blast
  have drop: "drop (min (length data) (cluster_bytes fs)) (cluster_data fs ?dc)
      = drop (length data) (cluster_data fs ?dc)"
    using assms(4) by (simp add: min_def)
  then show ?thesis
    using assms(1,4) by (simp add: fs' read_cluster_ok cluster_data_patch blit_def)
qed

text \<open>
  The witness: a \<^verbatim>\<open>.\<close> before the last component.  The path names the file, but the parent path then
  ends in \<^verbatim>\<open>.\<close>, names nothing, and the entry is searched in the root directory instead.
\<close>

lemma demo_dot_write:
  "parse_path demo_fs (lit ''/DOCS/./A.TXT'') None = Val (Some demo_file)"
  "write_file no_table demo_fs (lit ''/DOCS/./A.TXT'') (lit ''hi'')
     = Val (Inl UpdateEntryNotFound, patch_cluster demo_fs 4 0 (lit ''hi''))"
proof -
  let ?fs = "patch_cluster demo_fs 4 0 (lit ''hi'')"
  have p: "path_parts (lit ''/DOCS/./A.TXT'') = [lit ''DOCS'', lit ''.'', lit ''A.TXT'']"
    "path_parts (lit ''/DOCS/.'') = [lit ''DOCS'', lit ''.'']" "lit ''/DOCS/.'' \<noteq> lit ''/''" "lit ''/DOCS/.'' \<noteq> []"
    "lit ''DOCS'' \<noteq> lit ''.''" "lit ''DOCS'' \<noteq> lit ''..''" "lit ''A.TXT'' \<noteq> lit ''.''" "lit ''A.TXT'' \<noteq> lit ''..''"
    "split_path (lit ''/DOCS/./A.TXT'') = (lit ''/DOCS/.'', lit ''A.TXT'')"
    "format_to_8_3 no_table (lit ''A.TXT'') = Inr (lit ''A       TXT'')" "take 128 (lit ''hi'') = lit ''hi''"
    "length (lit ''hi'') = 2"
    by code_simp+
  show parse: "parse_path demo_fs (lit ''/DOCS/./A.TXT'') None = Val (Some demo_file)"
    using p by (simp add: parse_path_eq demo_fields parse_path_loop_Cons demo_geometry demo_lookups
        demo_file_def FileInfo_new_def del: parse_path_loop.simps(2))
  have len: "0 + length (lit ''hi'') \<le> cluster_bytes demo_fs" by (simp add: demo_geometry p)
  note g = patch_cluster_geometry [OF demo_geometry(5) len] and d = cluster_data_patch [OF demo_geometry(5) _ len]
  have lk: "dir_lookup ?fs c k = dir_lookup demo_fs c k" if "c = 2 \<or> c = 3" for c k
    using that by (auto simp: dir_lookup_def dir_listing_def d demo_geometry)
  have "resolve_parent ?fs (lit ''/DOCS/.'') = Val None"
    using p by (simp add: resolve_parent_def parse_path_eq g demo_fields parse_path_loop_Cons demo_geometry
        lk demo_lookups FileInfo_new_def del: parse_path_loop.simps(2))
  moreover have "find_index (\<lambda>c. sub_list c 0 11 = lit ''A       TXT'') (dir_slots demo_fs 2) = None"
    unfolding demo_slots by code_simp
  ultimately have upd: "update_file_size no_table ?fs (lit ''/DOCS/./A.TXT'') sz = Val (Inl UpdateEntryNotFound, ?fs)" for sz
    using p by (simp add: update_file_size_def g demo_fields read_cluster_ok demo_geometry d dir_slots_def)
  obtain st gg where o: "start_sector demo_fs 4 = Val st" "u32_mul st (bytes_per_sector demo_fs) = Val gg"
      "unat gg = cluster_off demo_fs 4"
    by (rule start_offset [OF demo_geometry(1,5)])
  have "copy_from_slice (disk demo_fs) (cluster_off demo_fs 4) (lit ''hi'')
      = Val (blit (disk demo_fs) (cluster_off demo_fs 4) (lit ''hi''))"
    by (intro copy_from_slice_ok) (simp add: p cluster_off_def demo_fields)
  with parse upd o u32_cluster_bytes [OF demo_geometry(1,5)] p
  show "write_file no_table demo_fs (lit ''/DOCS/./A.TXT'') (lit ''hi'') = Val (Inl UpdateEntryNotFound, ?fs)"
    by (simp add: write_file_def patch_cluster_def demo_geometry demo_file_def FileInfo_new_def Let_def)
qed

theorem write_error_after_data_witness:
  "\<exists>fs'. write_file no_table demo_fs (lit ''/DOCS/./A.TXT'') (lit ''hi'') = Val (Inl UpdateEntryNotFound, fs')
    \<and> read_cluster fs' 4 = Val (lit ''hi'' @ replicate 126 0)"
proof -
  have "read_cluster (patch_cluster demo_fs 4 0 (lit ''hi'')) (start_cluster demo_file)
      = Val (take (cluster_bytes demo_fs) (lit ''hi'')
          @ drop (length (lit ''hi'')) (cluster_data demo_fs (start_cluster demo_file)))"
    by (rule conjunct1 [OF write_error_after_data [OF demo_geometry(1) demo_dot_write(1) _ _ demo_dot_write(2)]])
       (simp_all add: demo_file_def FileInfo_new_def demo_geometry)
  then have "read_cluster (patch_cluster demo_fs 4 0 (lit ''hi'')) 4 = Val (lit ''hi'' @ replicate 126 0)"
    by (simp add: demo_file_def FileInfo_new_def demo_geometry demo_clusters lit_def)
  with demo_dot_write(2) show ?thesis by blast
qed

text \<open>
  C31: The parent of a new file need not be a directory: when the parent path names a plain file, the
  directory entry is written into that file's contents.
\<close>

theorem create_file_in_plain_file:
  assumes "parse_path fs pp None = Val (Some f)" "\<not> is_directory f"
    and "create_ready uc fs pp nm (start_cluster f) sn n i" "start_cluster f \<noteq> n"
  shows "\<exists>fs'. create_file uc fs pp nm = Val (Inr (), fs')
    \<and> read_cluster fs' (start_cluster f)
        = Val (blit (cluster_data fs (start_cluster f)) (i * 32) (plain_entry sn 0x20 n))"
proof -
  note r = create_readyD [OF assms(3)]
  have "length (plain_entry sn 0x20 n) = 32" using r(4) by (simp add: plain_entry_fields)
  then have "read_cluster (add_entry (mark_used fs n) (start_cluster f) i (plain_entry sn 0x20 n)) (start_cluster f)
      = Val (blit (cluster_data fs (start_cluster f)) (i * 32) (plain_entry sn 0x20 n))"
    using r by (simp add: read_cluster_ok add_entry_def cluster_data_patch)
  with create_file_ok [OF assms(3)] show ?thesis by blast
qed

theorem create_file_in_plain_file_witness:
  "\<exists>fs'. create_file no_table demo_fs (lit ''/DOCS/A.TXT'') (lit ''b'') = Val (Inr (), fs')
    \<and> read_cluster fs' (start_cluster demo_file)
        = Val (blit (cluster_data demo_fs (start_cluster demo_file)) (0 * 32) (plain_entry (lit ''B          '') 0x20 5))"
proof (rule create_file_in_plain_file)
  have "format_to_8_3 no_table (lit ''b'') = Inr (lit ''B          '')" "lit ''/DOCS/A.TXT'' \<noteq> []"
    "lit ''/DOCS/A.TXT'' \<noteq> lit ''/''" by code_simp+
  moreover have "find_index slot_free (dir_slots demo_fs 4) = Some 0"
    unfolding dir_slots_def demo_clusters by code_simp
  ultimately show "create_ready no_table demo_fs (lit ''/DOCS/A.TXT'') (lit ''b'') (start_cluster demo_file)
      (lit ''B          '') 5 0"
    using demo_parse by (simp add: create_ready_def resolve_parent_def demo_geometry demo_first_free
        demo_file_def FileInfo_new_def)
qed (simp_all add: demo_parse demo_file_def FileInfo_new_def)

lemma scan_insert_deleted:
  assumes "e ! 0 = 0xE5" "tidy cs st" "i < length cs" "slot_free (cs ! i)" "\<forall>j < i. \<not> slot_free (cs ! j)"
  shows "dir_scan (cs[i := e]) st = dir_scan cs st"
  using assms(2-5)
proof (induction cs arbitrary: st i)
  case (Cons c cs)
  show ?case
  proof (cases i)
    case 0
    have ent: "entry_state e st = ([], None)" "entry_files e st = []"
      using assms(1) by (simp_all add: entry_state_nonlfn entry_files_def)
    have "dir_scan cs s = []" if "c ! 0 = 0" for s
      using that Cons.prems(1) by (intro dir_scan_end) (simp add: list_all_iff)
    with 0 ent assms(1) Cons.prems(3) show ?thesis
      by (auto simp: slot_free_def entry_state_nonlfn entry_files_def)
  next
    case (Suc k)
    have "c ! 0 \<noteq> 0" using Cons.prems(4) Suc by (auto simp: slot_free_def dest!: spec [of _ 0])
    moreover have "\<forall>j < k. \<not> slot_free (cs ! j)" using Cons.prems(4) Suc by fastforce
    ultimately show ?thesis using Cons.IH [of "entry_state c st" k] Cons.prems(1-3) Suc by simp
  qed
qed simp

text \<open>
  C38: A name whose short name starts with the byte \<open>0xE5\<close>, as the characters from U+5000 to U+5FFF
  do in UTF-8, makes an entry that reads as deleted: \<^verbatim>\<open>create_file\<close> reports success and takes a cluster,
  and the listing of the directory is what it was.
\<close>

theorem create_file_deleted_marker:
  assumes "create_ready uc fs pp nm pc sn n i" "tidy_dir fs pc" "sn ! 0 = 0xE5"
  shows "\<exists>fs'. create_file uc fs pp nm = Val (Inr (), fs')
    \<and> list_directory_entries fs' pc = list_directory_entries fs pc
    \<and> read_fat_entry fs n = Val 0 \<and> read_fat_entry fs' n = Val 0x0FFFFFFF"
proof -
  note r = create_readyD [OF assms(1)]
  let ?e = "plain_entry sn 0x20 n"
  let ?w = "add_entry (mark_used fs n) pc i ?e"
  have e: "length ?e = 32" "?e ! 0 = 0xE5" using r(4) assms(3) by (simp_all add: plain_entry_fields)
  have "fat_entry fs n = 0" using assms(1) by (simp add: create_ready_def first_free_def)
  moreover have "dir_listing ?w pc = dir_listing fs pc"
    using r e scan_insert_deleted [OF e(2) _ r(7,8,9)] assms(2)
    by (simp add: dir_listing_slots add_entry_simps tidy_dir_def)
  ultimately show ?thesis
    using create_file_ok [OF assms(1)] r e
    by (simp add: list_directory_entries_ok read_fat_entry_ok add_entry_simps)
qed

theorem create_file_deleted_marker_witness:
  "\<exists>fs'. create_file no_table demo_fs (lit ''/DOCS'') [0xE5, 0xAD, 0x97] = Val (Inr (), fs')
    \<and> list_directory_entries fs' 3 = list_directory_entries demo_fs 3
    \<and> read_fat_entry demo_fs 5 = Val 0 \<and> read_fat_entry fs' 5 = Val 0x0FFFFFFF"
proof (rule create_file_deleted_marker)
  have "format_to_8_3 no_table [0xE5, 0xAD, 0x97] = Inr ([0xE5, 0xAD, 0x97] @ replicate 8 0x20)" by code_simp
  then show "create_ready no_table demo_fs (lit ''/DOCS'') [0xE5, 0xAD, 0x97] 3 ([0xE5, 0xAD, 0x97] @ replicate 8 0x20) 5 3"
    using parent_dir_resolve [OF demo_parent_dir(1)]
    by (simp add: create_ready_def demo_geometry demo_first_free demo_free_slot)
qed (simp_all add: demo_tidy)

end
