(* ===== verification/Shell.thy ===== *)
theory Shell
  imports Fs_Failures
begin

text \<open>
  The shell session of \<^verbatim>\<open>src/src/file_system/interface.rs\<close>.  A session holds the mounted volume
  (behind \<^verbatim>\<open>Rc<Mutex<..>>\<close> in the code: every method takes the lock once per statement, so its
  statements run one after the other on the same volume) and the current directory's cluster.
  Methods that print return the text they print next to their result.
\<close>

record ShellSession =
  shell_fs :: Fat32FileSystem
  current_cluster :: u32

definition Shell_new :: "Fat32FileSystem \<Rightarrow> ShellSession" where
  "Shell_new fs = \<lparr> shell_fs = fs, current_cluster = root_cluster fs \<rparr>"

definition hidden_name :: "str \<Rightarrow> bool" where
  "hidden_name n \<longleftrightarrow> n = lit ''.'' \<or> n = lit ''..''"

text \<open>\<^verbatim>\<open>print!("> ")\<close>, one \<^verbatim>\<open>print!("{} {} ", file_type, name)\<close> per visible entry, a newline.\<close>

primrec ls_lines :: "FileInfo list \<Rightarrow> str" where
  "ls_lines [] = []"
| "ls_lines (f # fs) =
     (if hidden_name (fi_name f) then ls_lines fs
      else (if is_directory f then lit ''[DIR]'' else lit ''[FILE]'') @ lit '' ''
           @ fi_name f @ lit '' '' @ ls_lines fs)"

definition ls_output :: "FileInfo list \<Rightarrow> str" where
  "ls_output files = lit ''> '' @ ls_lines files @ [0x0A]"

definition ls :: "ShellSession \<Rightarrow> str option \<Rightarrow> (unit result \<times> str) run" where
  "ls sh path =
     rbind (case path of
              Some p \<Rightarrow>
                rbind (parse_path (shell_fs sh) p (Some (current_cluster sh))) (\<lambda>f.
                Val (map_option start_cluster f))
            | None \<Rightarrow> Val (Some (current_cluster sh))) (\<lambda>c.
     case c of
       None \<Rightarrow> Val (Inl EntryNotFound, [])
     | Some cluster \<Rightarrow>
         rbind (list_directory_entries (shell_fs sh) cluster) (\<lambda>files.
         Val (Inr (), ls_output files)))"

definition cd :: "ShellSession \<Rightarrow> str \<Rightarrow> (unit result \<times> ShellSession) run" where
  "cd sh path =
     rbind (parse_path (shell_fs sh) path (Some (current_cluster sh))) (\<lambda>f.
     case f of
       None \<Rightarrow> Val (Inl EntryNotFound, sh)
     | Some file \<Rightarrow>
         if \<not> is_directory file then Val (Inl NotADirectory, sh)
         else Val (Inr (), sh\<lparr>current_cluster := start_cluster file\<rparr>))"

definition ls_entries :: "ShellSession \<Rightarrow> FileInfo list run" where
  "ls_entries sh =
     rbind (list_directory_entries (shell_fs sh) (current_cluster sh)) (\<lambda>files.
     Val (filter (\<lambda>f. fi_name f \<noteq> lit ''.'' \<and> fi_name f \<noteq> lit ''..'') files))"

text \<open>The messages \<^verbatim>\<open>cat\<close> prints for the errors of \<^verbatim>\<open>read_file\<close>.\<close>

definition read_error_message :: "fs_error \<Rightarrow> str" where
  "read_error_message e =
     (case e of
        FileNotFound \<Rightarrow> lit ''File not found''
      | NotAFile \<Rightarrow> lit ''Not a file''
      | InvalidUtf8 \<Rightarrow> lit ''Invalid UTF-8 content''
      | _ \<Rightarrow> [])"

definition cat :: "ShellSession \<Rightarrow> str \<Rightarrow> (unit result \<times> str) run option" where
  "cat sh path =
     (case read_file (shell_fs sh) path None of
        None \<Rightarrow> None
      | Some (Panic p) \<Rightarrow> Some (Panic p)
      | Some (Val r) \<Rightarrow>
          (let data = (case r of Inr content \<Rightarrow> content | Inl e \<Rightarrow> read_error_message e) in
           Some (Val (Inr (), data @ [0x0A]))))"

text \<open>The three writing commands keep the current directory and replace the volume.\<close>

definition with_fs ::
    "ShellSession \<Rightarrow> (unit result \<times> Fat32FileSystem) run \<Rightarrow> (unit result \<times> ShellSession) run" where
  "with_fs sh m = rbind m (\<lambda>(r, fs). Val (r, sh\<lparr>shell_fs := fs\<rparr>))"

definition shell_mkdir ::
    "upper_table \<Rightarrow> ShellSession \<Rightarrow> str \<Rightarrow> str \<Rightarrow> (unit result \<times> ShellSession) run" where
  "shell_mkdir uc sh parent_path folder_name =
     with_fs sh (mkdir uc (shell_fs sh) parent_path folder_name)"

definition touch ::
    "upper_table \<Rightarrow> ShellSession \<Rightarrow> str \<Rightarrow> str \<Rightarrow> (unit result \<times> ShellSession) run" where
  "touch uc sh parent_path file_name =
     with_fs sh (create_file uc (shell_fs sh) parent_path file_name)"

definition shell_write ::
    "upper_table \<Rightarrow> ShellSession \<Rightarrow> str \<Rightarrow> str \<Rightarrow> (unit result \<times> ShellSession) run" where
  "shell_write uc sh path contents = with_fs sh (write_file uc (shell_fs sh) path contents)"

end
