(* ===== verification/Session.thy ===== *)
theory Session
  imports Shell
begin

text \<open>
  Sequences of shell commands.  A volume invariant is kept by every command of the shell, so no
  sequence of covered commands makes it panic or loop.
\<close>

section \<open>The invariant of a session's volume\<close>

text \<open>
  \<open>D\<close> lists the clusters of the directories, \<open>F\<close> those of the files.  The tree is intact, every
  directory tidy, every file one cluster that ends its chain, and files and directories share none.
\<close>

definition fs_inv :: "Fat32FileSystem \<Rightarrow> u32 list \<Rightarrow> u32 list \<Rightarrow> bool" where
  "fs_inv fs D F \<longleftrightarrow>
     wf_fs fs \<and> 64 \<le> cluster_bytes fs \<and> dirs_closed fs D
     \<and> list_all (\<lambda>c. tidy_dir fs c \<and> fat_entry fs c \<noteq> 0 \<and> c \<notin> set F
         \<and> list_all (\<lambda>f. \<not> is_directory f \<longrightarrow> start_cluster f \<in> set F) (dir_listing fs c)) D
     \<and> list_all (\<lambda>c. valid_cluster fs c \<and> 0x0FFFFFF8 \<le> fat_entry fs c) F"

definition session_inv :: "ShellSession \<Rightarrow> u32 list \<Rightarrow> u32 list \<Rightarrow> bool" where
  "session_inv sh D F \<longleftrightarrow> fs_inv (shell_fs sh) D F \<and> current_cluster sh \<in> set D"

lemma fs_invD:
  assumes "fs_inv fs D F"
  shows "wf_fs fs" "64 \<le> cluster_bytes fs" "dirs_closed fs D"
    "c \<in> set D \<Longrightarrow> valid_cluster fs c" "c \<in> set D \<Longrightarrow> tidy_dir fs c" "c \<in> set D \<Longrightarrow> fat_entry fs c \<noteq> 0"
    "c \<in> set D \<Longrightarrow> c \<notin> set F"
    "c \<in> set D \<Longrightarrow> f \<in> set (dir_listing fs c) \<Longrightarrow> \<not> is_directory f \<Longrightarrow> start_cluster f \<in> set F"
    "c \<in> set F \<Longrightarrow> valid_cluster fs c" "c \<in> set F \<Longrightarrow> 0x0FFFFFF8 \<le> fat_entry fs c"
  using assms dirs_closedD(1) by (auto simp: fs_inv_def list_all_iff)

lemma fs_invI:
  assumes "wf_fs fs" "64 \<le> cluster_bytes fs" "dirs_closed fs D"
    and "\<And>c. c \<in> set D \<Longrightarrow> tidy_dir fs c \<and> fat_entry fs c \<noteq> 0 \<and> c \<notin> set F"
    and "\<And>c f. c \<in> set D \<Longrightarrow> f \<in> set (dir_listing fs c) \<Longrightarrow> \<not> is_directory f \<Longrightarrow> start_cluster f \<in> set F"
    and "\<And>c. c \<in> set F \<Longrightarrow> valid_cluster fs c \<and> 0x0FFFFFF8 \<le> fat_entry fs c"
  shows "fs_inv fs D F"
  using assms by (auto simp: fs_inv_def list_all_iff)

text \<open>A free cluster belongs to no file and no directory.\<close>

lemma first_free_unused:
  assumes "fs_inv fs D F" "first_free fs n"
  shows "n \<notin> set D" "n \<notin> set F" "valid_cluster fs n"
  using assms(2) fs_invD(6,10) [OF assms(1), of n] by (auto simp: first_free_def)

lemma fs_inv_mark_used:
  assumes "fs_inv fs D F" "first_free fs n"
  shows "fs_inv (mark_used fs n) D F" "fs_inv (mark_used fs n) D (n # F)"
proof -
  note i = fs_invD [OF assms(1)] and n = first_free_unused [OF assms]
  have m: "wf_fs (mark_used fs n)" "64 \<le> cluster_bytes (mark_used fs n)" "dirs_closed (mark_used fs n) D"
    using i(1-3) n(3) by (simp_all add: mark_used_dirs)
  have D: "tidy_dir (mark_used fs n) c" "fat_entry (mark_used fs n) c \<noteq> 0" "c \<noteq> n"
    "dir_listing (mark_used fs n) c = dir_listing fs c" if "c \<in> set D" for c
    using i(4-6) [OF that] n that by (auto simp: mark_used_dirs)
  have F: "valid_cluster (mark_used fs n) c" "0x0FFFFFF8 \<le> fat_entry (mark_used fs n) c"
    if "c \<in> set (n # F)" for c
    using i(9,10) n(3) that by auto
  show "fs_inv (mark_used fs n) D F" "fs_inv (mark_used fs n) D (n # F)"
    by (rule fs_invI [OF m]; use D F i(7,8) n(1) in \<open>auto simp del: mark_used_simps\<close>)+
qed

lemma fs_inv_fresh_dir:
  assumes "fs_inv fs D F" "first_free fs n" "pc \<in> set D"
  shows "fs_inv (fresh_dir fs n pc) (n # D) F"
proof -
  note i = fs_invD [OF assms(1)] and n = first_free_unused [OF assms(1,2)]
  note m = fresh_dir_simps [OF n(3) i(2)] and md = fresh_dir_dirs [OF n(3) i(2)]
  have closed: "dirs_closed (fresh_dir fs n pc) (n # D)" by (rule fresh_dir_closed [OF n(3) i(2,3) n(1) assms(3)])
  have D: "tidy_dir (fresh_dir fs n pc) c \<and> fat_entry (fresh_dir fs n pc) c \<noteq> 0 \<and> c \<notin> set F"
    if "c \<in> set (n # D)" for c
    using that i(4-7) n md(4,6) m(6) by (cases "c = n") auto
  have L: "start_cluster f \<in> set F"
    if "c \<in> set (n # D)" "f \<in> set (dir_listing (fresh_dir fs n pc) c)" "\<not> is_directory f" for c f
    using that i(4,8) md(2,5) by (cases "c = n") (auto simp: FileInfo_new_def)
  have F: "valid_cluster (fresh_dir fs n pc) c \<and> 0x0FFFFFF8 \<le> fat_entry (fresh_dir fs n pc) c" if "c \<in> set F" for c
    using that i(9,10) n m(2,6) by auto
  show ?thesis by (rule fs_invI [OF _ _ closed D L F]) (use i(1,2) m in simp_all)
qed

lemma fs_inv_add_entry:
  assumes "fs_inv fs D F" "can_add fs pc i e" "fi_name (short_entry e) \<noteq> lit ''..''"
    and "if is_directory (short_entry e) then start_cluster (short_entry e) \<in> set D
      else start_cluster (short_entry e) \<in> set F" "pc \<in> set D"
  shows "fs_inv (add_entry fs pc i e) D F"
proof -
  note v = fs_invD [OF assms(1)] and ca = can_addD [OF assms(2)]
  note a = add_entry_simps [OF ca(2,4,5)]
  have closed: "dirs_closed (add_entry fs pc i e) D"
    using add_entry_dirs_closed [OF assms(2) v(3) assms(3)] assms(4) by (simp split: if_splits)
  have tidy: "tidy_dir (add_entry fs pc i e) c" if "c \<in> set D" for c
    by (rule add_entry_listing [OF assms(2)])
       (use add_entry_listing_other(2) [OF assms(2) v(4) [OF that]] v(5) [OF that] in \<open>cases "c = pc"; simp\<close>)
  have L: "start_cluster f \<in> set F"
    if "c \<in> set D" "f \<in> set (dir_listing (add_entry fs pc i e) c)" "\<not> is_directory f" for c f
    using that add_entry_set [OF assms(2) v(4) [OF that(1)]] v(8) [OF that(1)] assms(4) by (auto split: if_splits)
  show ?thesis
    by (rule fs_invI [OF _ _ closed _ L]) (use v tidy a in auto)
qed

lemma fs_inv_written:
  assumes "fs_inv fs D F" "write_ready uc fs D path pp nm pc i f"
  shows "fs_inv (written fs pc i f data) D F"
proof -
  note v = fs_invD [OF assms(1)] and r = write_readyD [OF assms(2)] and w = written_simps [OF assms(2)]
  let ?xs = "take (cluster_bytes fs) data"
  let ?fs1 = "patch_cluster fs (start_cluster f) 0 ?xs" and ?n = "of_nat (min (length data) (cluster_bytes fs)) :: u32"
  have len: "0 + length ?xs \<le> cluster_bytes fs" "length ?xs \<le> cluster_bytes fs" by simp_all
  note d1 = patch_file_dirs [OF r(8) len(2) r(9,2)] and g = patch_cluster_geometry [OF r(8) len(1)]
  have v1: "valid_cluster ?fs1 pc" "lookup_slot ?fs1 pc nm = Some (i, f)" using r g d1(3) by simp_all
  have ne: "c \<noteq> start_cluster f" if "c \<in> set D" for c using that r(9) by auto
  have L: "start_cluster k \<in> set F"
    if c: "c \<in> set D" and k: "k \<in> set (dir_listing (written fs pc i f data) c)" "\<not> is_directory k" for c k
  proof -
    have vc: "valid_cluster ?fs1 c" using v(4) [OF c] g by simp
    obtain h where "h \<in> set (dir_listing ?fs1 c)" "is_directory h = is_directory k"
        "start_cluster h = start_cluster k"
      using resize_slot_listing [OF v1 vc] k(1) by (auto simp: written_def)
    moreover have "dir_listing ?fs1 c = dir_listing fs c"
      using d1(1) [OF v(4) [OF c] ne [OF c]] by (simp add: dir_listing_slots)
    ultimately show ?thesis using v(8) [OF c, of h] k(2) by simp
  qed
  have T: "tidy_dir (written fs pc i f data) c" if "c \<in> set D" for c
    using resize_slot_tidy [OF v1, of c ?n] v(4,5) [OF that] d1(1) [OF _ ne [OF that]] g
    by (simp add: written_def tidy_dir_def)
  show ?thesis
    by (rule fs_invI [OF w(1) _ w(8) _ L]) (use v T w(2,4,5) in auto)
qed

section \<open>Commands\<close>

text \<open>
  The commands a session can be given, and what running one does: \<open>None\<close> if it never returns,
  otherwise its result and the session after it.  What \<^verbatim>\<open>ls\<close> and \<^verbatim>\<open>cat\<close> print is dropped here.
\<close>

datatype shell_cmd =
    Ls "str option" | Cd str | Cat str | Mkdir str str | Touch str str | Write str str

primrec exec_cmd :: "upper_table \<Rightarrow> ShellSession \<Rightarrow> shell_cmd \<Rightarrow> (unit result \<times> ShellSession) run option" where
  "exec_cmd uc sh (Ls p) = Some (rbind (ls sh p) (\<lambda>(r, out). Val (r, sh)))"
| "exec_cmd uc sh (Cd p) = Some (cd sh p)"
| "exec_cmd uc sh (Cat p) = map_option (\<lambda>m. rbind m (\<lambda>(r, out). Val (r, sh))) (cat sh p)"
| "exec_cmd uc sh (Mkdir pp nm) = Some (shell_mkdir uc sh pp nm)"
| "exec_cmd uc sh (Touch pp nm) = Some (touch uc sh pp nm)"
| "exec_cmd uc sh (Write p d) = Some (shell_write uc sh p d)"

text \<open>
  The commands the invariant covers: new entries have an ASCII name of the form 8.3, their parent path
  names no plain file, and a cluster is free for them; a write names no file, or one whose entry its
  own name finds.
\<close>

definition new_name_ok :: "str \<Rightarrow> bool" where
  "new_name_ok nm \<longleftrightarrow>
     (\<exists>base ext. name_83 base ext \<and> hd base \<noteq> 0 \<and> nm = (if ext = [] then base else base @ 0x2E # ext))"

definition new_entry_ok :: "Fat32FileSystem \<Rightarrow> str \<Rightarrow> str \<Rightarrow> bool" where
  "new_entry_ok fs pp nm \<longleftrightarrow> new_name_ok nm \<and> (\<exists>n. first_free fs n)
     \<and> (\<forall>f. pp \<noteq> [] \<and> pp \<noteq> lit ''/'' \<and> parse_path fs pp None = Val (Some f) \<longrightarrow> is_directory f)"

definition write_ok :: "upper_table \<Rightarrow> Fat32FileSystem \<Rightarrow> str \<Rightarrow> bool" where
  "write_ok uc fs path \<longleftrightarrow>
     (\<forall>f. parse_path fs path None = Val (Some f) \<longrightarrow> is_directory f
        \<or> (\<exists>pp nm pc i sn. split_path path = (pp, nm) \<and> plain_name nm \<and> parent_dir fs pp = Some pc
             \<and> lookup_slot fs pc nm = Some (i, f) \<and> format_to_8_3 uc nm = Inr sn
             \<and> name_slot fs pc sn = Some i))"

primrec cmd_ok :: "upper_table \<Rightarrow> Fat32FileSystem \<Rightarrow> shell_cmd \<Rightarrow> bool" where
  "cmd_ok uc fs (Ls p) = True"
| "cmd_ok uc fs (Cd p) = True"
| "cmd_ok uc fs (Cat p) = True"
| "cmd_ok uc fs (Mkdir pp nm) = new_entry_ok fs pp nm"
| "cmd_ok uc fs (Touch pp nm) = new_entry_ok fs pp nm"
| "cmd_ok uc fs (Write p d) = write_ok uc fs p"

lemma name_83_short:
  assumes "name_83 base ext" "hd base \<noteq> 0"
  defines "nm \<equiv> (if ext = [] then base else base @ 0x2E # ext)"
  obtains sn where "format_to_8_3 uc nm = Inr sn" "length sn = 11" "sn ! 0 \<noteq> 0x00" "sn ! 0 \<noteq> 0xE5"
    "short_name_to_string sn = map ascii_upper nm" "short_name_to_string sn \<noteq> lit ''..''"
proof -
  obtain sn where sn: "format_to_8_3 uc nm = Inr sn" "length sn = 11" "short_name_to_string sn = map ascii_upper nm"
    using short_name_round_trip [OF assms(1), of uc] by (auto simp: nm_def)
  obtain b r where base: "base = b # r" "b < 0x80" "b \<noteq> 0x2E" "b \<noteq> 0" "\<forall>x \<in> set r. x < 0x80" "0x2E \<notin> set base" "0x2E \<notin> set ext"
    using assms(1,2) by (cases base) (auto simp: name_83_def list_all_iff)
  have "hd (str_split 0x2E nm) = base"
    using base(6,7) by (simp add: nm_def str_split_no_sep str_split_append)
  moreover have "to_uppercase uc base = ascii_upper b # map ascii_upper r"
    using base by (subst to_uppercase_ascii) auto
  ultimately have b0: "sn ! 0 = ascii_upper b"
    using sn(1) base(1) by (auto simp: format_to_8_3_eq pad_to_def nth_append split: if_splits)
  have "ascii_upper b < 0x80" using base(2) by (rule ascii_upper_ascii)
  then have "sn ! 0 \<noteq> 0xE5" using b0 by auto
  moreover have "sn ! 0 \<noteq> 0" using b0 base(4) ascii_upper_eq_iff [of 0 b] by simp
  moreover have "hd (short_name_to_string sn) = ascii_upper b" using sn(3) base(1) by (simp add: nm_def)
  then have "short_name_to_string sn \<noteq> lit ''..''"
    using base(3) ascii_upper_eq_iff [of "0x2E" b] by (auto simp: lit_def)
  ultimately show thesis using that sn by blast
qed

lemma new_name_short:
  assumes "new_name_ok nm"
  obtains sn where "format_to_8_3 uc nm = Inr sn" "length sn = 11" "sn ! 0 \<noteq> 0x00" "sn ! 0 \<noteq> 0xE5"
    "short_name_to_string sn \<noteq> lit ''..''"
proof -
  obtain base ext where b: "name_83 base ext" "hd base \<noteq> 0"
      "nm = (if ext = [] then base else base @ 0x2E # ext)"
    using assms unfolding new_name_ok_def by blast
  show thesis by (rule name_83_short [OF b(1,2), of uc, folded b(3)]) (rule that)
qed

text \<open>Where a path of an intact tree leads: a directory of the tree or a file it lists.\<close>

lemma resolves_listed:
  "resolves fs c ps f \<Longrightarrow> dirs_closed fs D \<Longrightarrow> c \<in> set D \<Longrightarrow>
   is_directory f \<or> (\<exists>d \<in> set D. f \<in> set (dir_listing fs d))"
proof (induction rule: resolves.induct)
  case (up c p rest f)
  then show ?case using dirs_closedD(2) by blast
next
  case (entry_end nm c f)
  then show ?case using dir_lookup_Some by blast
next
  case (entry nm c d rest f)
  then show ?case using dirs_closedD(3) by blast
qed (auto simp: FileInfo_new_def)

lemma parse_path_inv:
  assumes "fs_inv fs D F" "cur_in cur D"
  obtains "parse_path fs path cur = Val None"
  | f where "parse_path fs path cur = Val (Some f)" "is_directory f" "start_cluster f \<in> set D"
  | f where "parse_path fs path cur = Val (Some f)" "\<not> is_directory f" "start_cluster f \<in> set F"
proof -
  note v = fs_invD [OF assms(1)]
  obtain r where r: "parse_path fs path cur = Val r"
      "\<forall>f. r = Some f \<longleftrightarrow> resolves fs (path_start fs path cur) (path_parts path) f"
      "\<forall>f. r = Some f \<longrightarrow> is_directory f \<longrightarrow> start_cluster f \<in> set D"
    using parse_path_resolves [OF v(1,3) assms(2), of path] by blast
  show thesis
  proof (cases r)
    case None
    with r(1) that(1) show ?thesis by simp
  next
    case (Some f)
    with r(2) have "resolves fs (path_start fs path cur) (path_parts path) f" by blast
    from resolves_listed [OF this v(3) path_start_in [OF v(3) assms(2)]]
    have "\<not> is_directory f \<Longrightarrow> start_cluster f \<in> set F" using v(8) by blast
    with Some r that(2,3) show ?thesis by blast
  qed
qed

lemma resolve_parent_inv:
  assumes "fs_inv fs D F" "new_entry_ok fs pp nm"
  obtains "resolve_parent fs pp = Val None" | pc where "resolve_parent fs pp = Val (Some pc)" "pc \<in> set D"
proof (cases "pp = [] \<or> pp = lit ''/''")
  case True
  with dirs_closed_root [OF fs_invD(3) [OF assms(1)]] that(2) show thesis by (auto simp: resolve_parent_def)
next
  case False
  have "cur_in None D" by (simp add: cur_in_def)
  with assms(1) show thesis
  proof (rule parse_path_inv [where path = pp])
    assume "parse_path fs pp None = Val None"
    with False that(1) show thesis by (simp add: resolve_parent_def)
  next
    fix f assume "parse_path fs pp None = Val (Some f)" "start_cluster f \<in> set D"
    with False that(2) show thesis by (simp add: resolve_parent_def)
  next
    fix f assume "parse_path fs pp None = Val (Some f)" "\<not> is_directory f"
    with False assms(2) show thesis by (auto simp: new_entry_ok_def)
  qed
qed

section \<open>Every command keeps the invariant\<close>

lemma touch_inv:
  assumes "fs_inv fs D F" "new_entry_ok fs pp nm"
  shows "\<exists>r fs' F'. create_file uc fs pp nm = Val (r, fs') \<and> fs_inv fs' D F'"
proof -
  note v = fs_invD [OF assms(1)]
  obtain n where n: "first_free fs n" using assms(2) unfolding new_entry_ok_def by blast
  have "new_name_ok nm" using assms(2) by (simp add: new_entry_ok_def)
  then obtain sn where sn: "format_to_8_3 uc nm = Inr sn" "length sn = 11" "sn ! 0 \<noteq> 0x00"
      "sn ! 0 \<noteq> 0xE5" "short_name_to_string sn \<noteq> lit ''..''"
    by (rule new_name_short)
  from assms show ?thesis
  proof (rule resolve_parent_inv)
    assume "resolve_parent fs pp = Val None"
    with assms(1) show ?thesis by (auto simp: create_file_def)
  next
    fix pc assume pc: "resolve_parent fs pp = Val (Some pc)" "pc \<in> set D"
    show ?thesis
    proof (cases "find_index slot_free (dir_slots fs pc)")
      case None
      have "create_file uc fs pp nm = Val (Inl NoSpaceInParent, mark_used fs n)"
        using v(1,4) pc sn None first_free_unused(3) [OF assms(1) n]
        by (simp add: create_file_def allocate_cluster_ok [OF v(1) n] read_cluster_ok find_free_slot_slots)
      with fs_inv_mark_used(1) [OF assms(1) n] show ?thesis by blast
    next
      case (Some i)
      have cr: "create_ready uc fs pp nm pc sn n i"
        using v(1,4) pc sn(1) n Some by (simp add: create_ready_def)
      note ca = create_ready_can_add [OF cr v(5) [OF pc(2)] sn(3,4)]
      have "fs_inv (add_entry (mark_used fs n) pc i (plain_entry sn 0x20 n)) D (n # F)"
        by (rule fs_inv_add_entry [OF fs_inv_mark_used(2) [OF assms(1) n] ca(1) _ _ pc(2)])
           (use sn(5) in \<open>simp_all add: ca(2) FileInfo_new_def\<close>)
      with create_file_ok [OF cr] show ?thesis by blast
    qed
  qed
qed

lemma mkdir_inv:
  assumes "fs_inv fs D F" "new_entry_ok fs pp nm"
  shows "\<exists>r fs' D'. mkdir uc fs pp nm = Val (r, fs') \<and> fs_inv fs' D' F \<and> set D \<subseteq> set D'"
proof -
  note v = fs_invD [OF assms(1)]
  obtain n where n: "first_free fs n" using assms(2) unfolding new_entry_ok_def by blast
  have "new_name_ok nm" using assms(2) by (simp add: new_entry_ok_def)
  then obtain sn where sn: "format_to_8_3 uc nm = Inr sn" "length sn = 11" "sn ! 0 \<noteq> 0x00"
      "sn ! 0 \<noteq> 0xE5" "short_name_to_string sn \<noteq> lit ''..''"
    by (rule new_name_short)
  note u = first_free_unused [OF assms(1) n]
  from assms show ?thesis
  proof (rule resolve_parent_inv)
    assume "resolve_parent fs pp = Val None"
    with assms(1) show ?thesis by (auto simp: mkdir_def)
  next
    fix pc assume pc: "resolve_parent fs pp = Val (Some pc)" "pc \<in> set D"
    note inv1 = fs_inv_fresh_dir [OF assms(1) n pc(2)]
    have ne: "pc \<noteq> n" using pc(2) u(1) by auto
    show ?thesis
    proof (cases "find_index slot_free (dir_slots fs pc)")
      case None
      have "init_directory_cluster (mark_used fs n) n pc = Val (fresh_dir fs n pc)"
        using u v(1,2) by (simp add: init_directory_cluster_ok fresh_dir_def)
      then have "mkdir uc fs pp nm = Val (Inl NoSpaceInParent, fresh_dir fs n pc)"
        using v(1,2,4) pc sn None u ne
        by (simp add: mkdir_def allocate_cluster_ok [OF v(1) n] read_cluster_ok fresh_dir_simps
            find_free_slot_slots fresh_dir_dirs)
      with inv1 show ?thesis by (metis set_subset_Cons)
    next
      case (Some i)
      have cr: "create_ready uc fs pp nm pc sn n i"
        using v(1,4) pc sn(1) n Some by (simp add: create_ready_def)
      note ca = mkdir_can_add [OF cr ne v(2) v(5) [OF pc(2)] sn(3,4)]
      have "fs_inv (add_entry (fresh_dir fs n pc) pc i (plain_entry sn 0x10 n)) (n # D) F"
        by (rule fs_inv_add_entry [OF inv1 ca(1)])
           (use sn(5) pc(2) in \<open>simp_all add: ca(2) FileInfo_new_def\<close>)
      with mkdir_ok [OF cr ne v(2)] show ?thesis by (metis set_subset_Cons)
    qed
  qed
qed

lemma write_inv:
  assumes "fs_inv fs D F" "write_ok uc fs path"
  shows "\<exists>r fs'. write_file uc fs path data = Val (r, fs') \<and> fs_inv fs' D F"
proof -
  have "cur_in None D" by (simp add: cur_in_def)
  with assms(1) show ?thesis
  proof (rule parse_path_inv [where path = path])
    fix f assume f: "parse_path fs path None = Val (Some f)" "\<not> is_directory f" "start_cluster f \<in> set F"
    then obtain pp nm pc i sn where p: "split_path path = (pp, nm)" "plain_name nm" "parent_dir fs pp = Some pc"
        "lookup_slot fs pc nm = Some (i, f)" "format_to_8_3 uc nm = Inr sn" "name_slot fs pc sn = Some i"
      using assms(2) unfolding write_ok_def by blast
    have wr: "write_ready uc fs D path pp nm pc i f"
      using p f(2,3) fs_invD(1,3) [OF assms(1)] fs_invD(7,9) [OF assms(1), of "start_cluster f"]
      by (auto simp: write_ready_def)
    from write_file_ok [OF wr] fs_inv_written [OF assms(1) wr] show ?thesis by blast
  qed (use assms(1) in \<open>auto simp: write_file_def\<close>)
qed

text \<open>Reading a file of the tree returns: its one cluster ends its chain.\<close>

lemma cat_returns:
  assumes "session_inv sh D F"
  shows "\<exists>r out. cat sh p = Some (Val (r, out))"
proof -
  have i: "fs_inv (shell_fs sh) D F" using assms by (simp add: session_inv_def)
  note v = fs_invD [OF i]
  have "cur_in None D" by (simp add: cur_in_def)
  with i show ?thesis
  proof (rule parse_path_inv [where path = p])
    fix f assume f: "parse_path (shell_fs sh) p None = Val (Some f)" "\<not> is_directory f" "start_cluster f \<in> set F"
    have "follows (read_fat_entry (shell_fs sh)) chain_next (start_cluster f) [start_cluster f]"
      using v(1,9,10) f(3) by (simp add: read_fat_entry_ok chain_next_def)
    with read_file_chain [OF f(1,2) v(1), of "[start_cluster f]"] v(9) [OF f(3)]
    show ?thesis by (auto simp: cat_def Let_def)
  qed (auto simp: cat_def read_file_def Let_def)
qed

lemma ls_returns:
  assumes "session_inv sh D F"
  shows "\<exists>r out. ls sh p = Val (r, out)"
proof -
  have i: "fs_inv (shell_fs sh) D F" and cur: "current_cluster sh \<in> set D"
    using assms by (simp_all add: session_inv_def)
  note v = fs_invD [OF i]
  have list: "\<exists>files. list_directory_entries (shell_fs sh) c = Val files" if "c \<in> set D \<or> c \<in> set F" for c
    using that v(1,4,9) list_directory_entries_ok by blast
  show ?thesis
  proof (cases p)
    case None
    with list cur show ?thesis by (fastforce simp: ls_def)
  next
    case (Some q)
    have "cur_in (Some (current_cluster sh)) D" using cur by (simp add: cur_in_def)
    with i show ?thesis
    proof (rule parse_path_inv [where path = q])
      assume "parse_path (shell_fs sh) q (Some (current_cluster sh)) = Val None"
      with Some show ?thesis by (simp add: ls_def)
    next
      fix f assume "parse_path (shell_fs sh) q (Some (current_cluster sh)) = Val (Some f)" "start_cluster f \<in> set D"
      with Some list show ?thesis by (fastforce simp: ls_def)
    next
      fix f assume "parse_path (shell_fs sh) q (Some (current_cluster sh)) = Val (Some f)" "start_cluster f \<in> set F"
      with Some list show ?thesis by (fastforce simp: ls_def)
    qed
  qed
qed

lemma cd_inv:
  assumes "session_inv sh D F"
  shows "\<exists>r sh'. cd sh p = Val (r, sh') \<and> session_inv sh' D F"
proof -
  have i: "fs_inv (shell_fs sh) D F" and "cur_in (Some (current_cluster sh)) D"
    using assms by (simp_all add: session_inv_def cur_in_def)
  then show ?thesis
    by (rule parse_path_inv [where path = p]) (use assms in \<open>auto simp: cd_def session_inv_def\<close>)
qed

lemma exec_cmd_inv:
  assumes "session_inv sh D F" "cmd_ok uc (shell_fs sh) cmd"
  shows "\<exists>r sh' D' F'. exec_cmd uc sh cmd = Some (Val (r, sh')) \<and> session_inv sh' D' F' \<and> set D \<subseteq> set D'"
proof -
  have i: "fs_inv (shell_fs sh) D F" using assms(1) by (simp add: session_inv_def)
  have upd: "session_inv (sh\<lparr>shell_fs := fs'\<rparr>) D' F'" if "fs_inv fs' D' F'" "set D \<subseteq> set D'" for fs' D' F'
    using that assms(1) by (auto simp: session_inv_def)
  show ?thesis
  proof (cases cmd)
    case (Ls p)
    with ls_returns [OF assms(1), of p] obtain r out where "ls sh p = Val (r, out)" by blast
    with Ls have "exec_cmd uc sh cmd = Some (Val (r, sh))" by simp
    with assms(1) show ?thesis by blast
  next
    case (Cd p)
    with cd_inv [OF assms(1), of p] show ?thesis by (simp only: exec_cmd.simps) blast
  next
    case (Cat p)
    with cat_returns [OF assms(1), of p] obtain r out where "cat sh p = Some (Val (r, out))" by blast
    with Cat have "exec_cmd uc sh cmd = Some (Val (r, sh))" by simp
    with assms(1) show ?thesis by blast
  next
    case (Mkdir pp nm)
    with mkdir_inv [OF i] assms(2) obtain r fs' D' where m: "mkdir uc (shell_fs sh) pp nm = Val (r, fs')"
        "fs_inv fs' D' F" "set D \<subseteq> set D'" by (metis cmd_ok.simps(4))
    then have "exec_cmd uc sh cmd = Some (Val (r, sh\<lparr>shell_fs := fs'\<rparr>))"
      by (simp add: Mkdir shell_mkdir_def with_fs_def)
    with upd [OF m(2,3)] m(3) show ?thesis by blast
  next
    case (Touch pp nm)
    with touch_inv [OF i] assms(2) obtain r fs' F' where m: "create_file uc (shell_fs sh) pp nm = Val (r, fs')"
        "fs_inv fs' D F'" by (metis cmd_ok.simps(5))
    then have "exec_cmd uc sh cmd = Some (Val (r, sh\<lparr>shell_fs := fs'\<rparr>))"
      by (simp add: Touch touch_def with_fs_def)
    with upd [OF m(2)] show ?thesis by blast
  next
    case (Write p d)
    with write_inv [OF i] assms(2) obtain r fs' where m: "write_file uc (shell_fs sh) p d = Val (r, fs')"
        "fs_inv fs' D F" by (metis cmd_ok.simps(6))
    then have "exec_cmd uc sh cmd = Some (Val (r, sh\<lparr>shell_fs := fs'\<rparr>))"
      by (simp add: Write shell_write_def with_fs_def)
    with upd [OF m(2)] show ?thesis by blast
  qed
qed

section \<open>Sessions\<close>

text \<open>
  The sessions reached by a sequence of covered commands, each of which has returned: the rules
  follow the order in which the commands are given.
\<close>

inductive session_run :: "upper_table \<Rightarrow> ShellSession \<Rightarrow> shell_cmd list \<Rightarrow> ShellSession \<Rightarrow> bool" for uc where
  nil: "session_run uc sh [] sh"
| cons: "cmd_ok uc (shell_fs sh) c \<Longrightarrow> exec_cmd uc sh c = Some (Val (r, sh1)) \<Longrightarrow>
    session_run uc sh1 cs sh2 \<Longrightarrow> session_run uc sh (c # cs) sh2"

inductive_cases session_run_nilE: "session_run uc sh [] sh'"
inductive_cases session_run_consE: "session_run uc sh (c # cs) sh'"

lemma session_run_inv:
  "session_run uc sh cs sh' \<Longrightarrow> session_inv sh D F \<Longrightarrow> \<exists>D' F'. session_inv sh' D' F' \<and> set D \<subseteq> set D'"
proof (induction arbitrary: D F rule: session_run.induct)
  case (nil sh)
  then show ?case by blast
next
  case (cons sh c r sh1 cs sh2)
  obtain r' sh' D1 F1 where "exec_cmd uc sh c = Some (Val (r', sh'))" "session_inv sh' D1 F1" "set D \<subseteq> set D1"
    using exec_cmd_inv [OF cons.prems cons.hyps(1)] by blast
  with cons.hyps(2) have "session_inv sh1 D1 F1" by simp
  from cons.IH [OF this] \<open>set D \<subseteq> set D1\<close> show ?case by blast
qed

section \<open>Properties of the shell\<close>

text \<open>
  C1: From a volume that satisfies the invariant, no sequence of covered commands makes the shell
  panic or loop: after any such sequence every further covered command returns, and the volume still
  satisfies the invariant, with every directory cluster of the start still a directory.
\<close>

theorem session_never_stuck:
  assumes "fs_inv fs D F" "session_run uc (Shell_new fs) cs sh" "cmd_ok uc (shell_fs sh) c"
  shows "\<exists>r sh' D' F'. exec_cmd uc sh c = Some (Val (r, sh')) \<and> session_inv sh' D' F' \<and> set D \<subseteq> set D'"
proof -
  have "session_inv (Shell_new fs) D F"
    using assms(1) dirs_closed_root [OF fs_invD(3) [OF assms(1)]] by (simp add: session_inv_def Shell_new_def)
  from session_run_inv [OF assms(2) this] obtain D1 F1 where "session_inv sh D1 F1" "set D \<subseteq> set D1" by blast
  with exec_cmd_inv [OF this(1) assms(3)] show ?thesis by blast
qed

text \<open>The demonstration volume satisfies the invariant; the session makes a file in \<^verbatim>\<open>DOCS\<close>.\<close>

lemma demo_inv: "fs_inv demo_fs [2, 3] [4]"
  by (simp add: fs_inv_def demo_geometry demo_closed demo_tidy demo_fat_entries demo_listings FileInfo_new_def)

lemma demo_touch_ok: "cmd_ok no_table demo_fs (Touch (lit ''/DOCS'') (lit ''b''))"
proof -
  have "name_83 (lit ''b'') [] \<and> hd (lit ''b'') \<noteq> 0" by code_simp
  then have "new_name_ok (lit ''b'')" unfolding new_name_ok_def by (intro exI [of _ "lit ''b''"] exI [of _ "[]"]) simp
  moreover have "lit ''/DOCS'' \<noteq> []" "lit ''/DOCS'' \<noteq> lit ''/''" by code_simp+
  then have "is_directory f" if "parse_path demo_fs (lit ''/DOCS'') None = Val (Some f)" for f
    using demo_parent_dir(1) that by (simp add: parent_dir_def split: if_splits)
  ultimately show ?thesis using demo_first_free by (auto simp: new_entry_ok_def)
qed

theorem session_never_stuck_witness:
  "\<exists>r sh' D' F'. exec_cmd no_table (Shell_new demo_fs) (Touch (lit ''/DOCS'') (lit ''b'')) = Some (Val (r, sh'))
     \<and> session_inv sh' D' F' \<and> set [2, 3] \<subseteq> set D'"
  by (rule session_never_stuck [OF demo_inv session_run.nil]) (use demo_touch_ok in \<open>simp add: Shell_new_def\<close>)

text \<open>
  Changing to a directory and listing the current one shows what listing that path would have
  shown; a failed change leaves the session as it was.
\<close>

theorem cd_then_ls:
  assumes "cd sh p = Val (r, sh')"
  shows "if r = Inr () then ls sh' None = ls sh (Some p) else sh' = sh"
  using assms by (auto simp: cd_def ls_def rbind_Val_iff split: option.splits if_splits)

theorem cd_then_ls_witness:
  "ls (Shell_new demo_fs\<lparr>current_cluster := 3\<rparr>) None = ls (Shell_new demo_fs) (Some (lit ''/DOCS''))"
proof -
  have "lit ''/DOCS'' \<noteq> []" "lit ''/DOCS'' \<noteq> lit ''/''" "hd (lit ''/DOCS'') = 0x2F" by code_simp+
  then have "parse_path demo_fs (lit ''/DOCS'') (Some 2) = parse_path demo_fs (lit ''/DOCS'') None"
    by (simp add: parse_path_eq path_start_def)
  with demo_parent_dir(1) \<open>lit ''/DOCS'' \<noteq> []\<close> \<open>lit ''/DOCS'' \<noteq> lit ''/''\<close>
  have "cd (Shell_new demo_fs) (lit ''/DOCS'') = Val (Inr (), Shell_new demo_fs\<lparr>current_cluster := 3\<rparr>)"
    by (auto simp: cd_def Shell_new_def demo_fields parent_dir_def split: run.splits option.splits if_splits)
  from cd_then_ls [OF this] show ?thesis by simp
qed

text \<open>Only \<^verbatim>\<open>cd\<close> and \<^verbatim>\<open>ls\<close> know the current directory; the other commands pass \<^verbatim>\<open>None\<close>.\<close>

lemma file_commands_ignore_cd:
  "cat (sh\<lparr>current_cluster := c\<rparr>) p = cat sh p"
  "shell_mkdir uc (sh\<lparr>current_cluster := c\<rparr>) pp nm
     = rbind (shell_mkdir uc sh pp nm) (\<lambda>(r, sh'). Val (r, sh'\<lparr>current_cluster := c\<rparr>))"
  "touch uc (sh\<lparr>current_cluster := c\<rparr>) pp nm
     = rbind (touch uc sh pp nm) (\<lambda>(r, sh'). Val (r, sh'\<lparr>current_cluster := c\<rparr>))"
  "shell_write uc (sh\<lparr>current_cluster := c\<rparr>) p d
     = rbind (shell_write uc sh p d) (\<lambda>(r, sh'). Val (r, sh'\<lparr>current_cluster := c\<rparr>))"
  by (cases sh; simp add: cat_def shell_mkdir_def touch_def shell_write_def with_fs_def rbind_assoc split_def)+

text \<open>
  C36: A path with no component, or whose last component is \<^verbatim>\<open>.\<close>, names nothing in an intact tree,
  whatever directories it goes through: \<^verbatim>\<open>cd\<close> and \<^verbatim>\<open>ls\<close> of the empty path, of \<^verbatim>\<open>/\<close>, of \<^verbatim>\<open>.\<close> or of
  \<^verbatim>\<open>DOCS/.\<close> report that the entry was not found, the session stays where it was, and \<^verbatim>\<open>read_file\<close>
  finds no file.
\<close>

theorem final_dot_not_found:
  assumes "wf_fs (shell_fs sh)" "dirs_closed (shell_fs sh) D" "current_cluster sh \<in> set D"
    and "path_parts p = [] \<or> last (path_parts p) = lit ''.''"
  shows "cd sh p = Val (Inl EntryNotFound, sh) \<and> ls sh (Some p) = Val (Inl EntryNotFound, [])
    \<and> read_file (shell_fs sh) p (Some (current_cluster sh)) = Some (Val (Inl FileNotFound))"
proof -
  let ?fs = "shell_fs sh" and ?cur = "Some (current_cluster sh)"
  have cur: "cur_in ?cur D" using assms(3) by (simp add: cur_in_def)
  obtain r where r: "parse_path ?fs p ?cur = Val r" using parse_path_resolves [OF assms(1,2) cur] by blast
  have "r = None"
  proof (rule ccontr)
    assume "r \<noteq> None"
    then obtain f where "parse_path_loop ?fs (path_parts p) (path_start ?fs p ?cur) = Val (Some f)"
      using r by (auto simp: parse_path_eq)
    from parse_path_loop_last [OF assms(1,2) path_start_in [OF assms(2) cur] this] assms(4) show False by blast
  qed
  with r show ?thesis by (simp add: cd_def ls_def read_file_def)
qed

theorem final_dot_not_found_witness:
  "cd (Shell_new demo_fs) (lit ''DOCS/.'') = Val (Inl EntryNotFound, Shell_new demo_fs)
    \<and> ls (Shell_new demo_fs) (Some (lit ''DOCS/.'')) = Val (Inl EntryNotFound, [])
    \<and> read_file (shell_fs (Shell_new demo_fs)) (lit ''DOCS/.'') (Some (current_cluster (Shell_new demo_fs)))
        = Some (Val (Inl FileNotFound))"
proof (rule final_dot_not_found [where D = "[2, 3]"])
  have "path_parts (lit ''DOCS/.'') = [lit ''DOCS'', lit ''.'']" by code_simp
  then show "path_parts (lit ''DOCS/.'') = [] \<or> last (path_parts (lit ''DOCS/.'')) = lit ''.''" by simp
qed (simp_all add: Shell_new_def demo_geometry demo_closed demo_fields)

end
