(* ===== verification/Allocator.thy ===== *)
theory Allocator
  imports Fat_Prelude
begin

text \<open>
  What the allocators of \<^verbatim>\<open>src/src/allocator\<close> share: addresses, \<^verbatim>\<open>Layout\<close>, \<^verbatim>\<open>align_up\<close> of
  \<^verbatim>\<open>src/src/allocator.rs\<close>, and the contract of \<^verbatim>\<open>GlobalAlloc\<close> as a locale with what a client may
  conclude from it.

  A \<^verbatim>\<open>usize\<close> is an integer in the range of 64 bits; sums and differences check the range, as the
  \<^verbatim>\<open>dev\<close> profile does.  A null pointer is \<open>None\<close>.
\<close>

section \<open>Addresses and layouts\<close>

type_synonym addr = int

definition usize_add :: "addr \<Rightarrow> addr \<Rightarrow> addr run" where
  "usize_add a b = (if a + b < 0x10000000000000000 then Val (a + b) else Panic ArithOverflow)"

definition usize_sub :: "addr \<Rightarrow> addr \<Rightarrow> addr run" where
  "usize_sub a b = (if b \<le> a then Val (a - b) else Panic ArithOverflow)"

definition usize_mul :: "addr \<Rightarrow> addr \<Rightarrow> addr run" where
  "usize_mul a b = (if a * b < 0x10000000000000000 then Val (a * b) else Panic ArithOverflow)"

definition checked_add :: "addr \<Rightarrow> addr \<Rightarrow> addr option" where
  "checked_add a b = (if a + b < 0x10000000000000000 then Some (a + b) else None)"

record Layout =
  lay_size :: addr
  lay_align :: addr

text \<open>
  What \<^verbatim>\<open>Layout\<close> guarantees (a power of two, and a size that stays below \<open>2^63\<close> when rounded up
  to it) and what \<^verbatim>\<open>GlobalAlloc::alloc\<close> asks of its caller (a size that is not zero).
\<close>

definition layout_ok :: "Layout \<Rightarrow> bool" where
  "layout_ok l \<longleftrightarrow> lay_align l \<in> set (map (\<lambda>k. 2 ^ k) [0..<63]) \<and> 0 < lay_size l
     \<and> lay_size l + (lay_align l - 1) < 0x8000000000000000"

definition align_up :: "addr \<Rightarrow> addr \<Rightarrow> addr run" where
  "align_up a align =
     (if align = 0 then Panic DivisionByZero
      else
        let remainder = a mod align in
        if remainder = 0 then Val a
        else rbind (usize_sub a remainder) (\<lambda>d. usize_add d align))"

lemma layout_okD:
  assumes "layout_ok l"
  shows "0 < lay_align l" "0 < lay_size l" "lay_size l + lay_align l \<le> 0x8000000000000000"
    "\<exists>k < 63. lay_align l = 2 ^ k"
  using assms by (auto simp: layout_ok_def)

lemma align_up_ok:
  assumes "0 \<le> a" "0 < n" "a + n \<le> 0x10000000000000000"
  obtains b where "align_up a n = Val b" "a \<le> b" "b < a + n" "n dvd b" "\<And>c. a \<le> c \<Longrightarrow> n dvd c \<Longrightarrow> b \<le> c"
proof (cases "a mod n = 0")
  case True
  with assms(2) have "align_up a n = Val a" "n dvd a" by (auto simp: align_up_def)
  with assms(2) that [of a] show thesis by simp
next
  case False
  let ?b = "a - a mod n + n"
  have r: "0 \<le> a mod n" "a mod n < n" using assms(2) by simp_all
  with False have pos: "0 < a mod n" by simp
  have le: "a mod n \<le> a" using assms(1) by (simp add: zmod_le_nonneg_dividend)
  have "align_up a n = Val ?b"
    using False assms(2,3) le pos by (simp add: align_up_def Let_def usize_sub_def usize_add_def)
  moreover have dvd: "n dvd ?b" by (simp add: minus_mod_eq_mult_div)
  moreover have "?b \<le> c" if "a \<le> c" "n dvd c" for c
  proof (rule ccontr)
    assume "\<not> ?b \<le> c"
    with that(1) r have "0 < ?b - c" "?b - c \<le> n - a mod n" by simp_all
    moreover have "n dvd ?b - c" using dvd that(2) by simp
    ultimately have "n \<le> ?b - c" by (simp add: zdvd_imp_le)
    with \<open>?b - c \<le> n - a mod n\<close> pos show False by simp
  qed
  ultimately show thesis using that [of ?b] r pos by simp
qed

lemma round_up_bounds:
  assumes "0 < (a :: int)" "0 < n"
  shows "n \<le> (n + a - 1) div a * a" "(n + a - 1) div a * a < n + a" "a dvd (n + a - 1) div a * a"
proof -
  have "(n + a - 1) div a * a = n + a - 1 - (n + a - 1) mod a" by (simp add: minus_mod_eq_div_mult)
  moreover have "0 \<le> (n + a - 1) mod a" "(n + a - 1) mod a < a" using assms by simp_all
  ultimately show "n \<le> (n + a - 1) div a * a" "(n + a - 1) div a * a < n + a" by simp_all
qed simp

section \<open>The contract of an allocator\<close>

type_synonym block = "addr \<times> Layout"

definition apart :: "block \<Rightarrow> block \<Rightarrow> bool" where
  "apart b c \<longleftrightarrow> fst b + lay_size (snd b) \<le> fst c \<or> fst c + lay_size (snd c) \<le> fst b"

text \<open>Blocks a client may hold: aligned, inside the heap, and pairwise apart.\<close>

definition blocks_ok :: "addr \<Rightarrow> addr \<Rightarrow> block set \<Rightarrow> bool" where
  "blocks_ok lo hi L \<longleftrightarrow>
     (\<forall>b \<in> L. lay_align (snd b) dvd fst b \<and> lo \<le> fst b \<and> fst b + lay_size (snd b) \<le> hi)
     \<and> (\<forall>b \<in> L. \<forall>c \<in> L. b \<noteq> c \<longrightarrow> apart b c)"

lemma blocks_ok_mono: "blocks_ok lo n L \<Longrightarrow> n \<le> hi \<Longrightarrow> blocks_ok lo hi L"
  unfolding blocks_ok_def by (meson order_trans)

lemma blocks_ok_subset: "blocks_ok lo hi L \<Longrightarrow> M \<subseteq> L \<Longrightarrow> blocks_ok lo hi M"
  unfolding blocks_ok_def by (meson subset_iff)

text \<open>
  What a client does with an allocator: it asks for blocks and gives back blocks it holds.  A null
  pointer is \<open>None\<close>; the address 0 as \<open>Some 0\<close> can only be handed out of a heap that starts there, which
  no caller of the code sets up.
\<close>

datatype heap_op = Alloc Layout | Free addr Layout

primrec run_ops ::
    "('s \<Rightarrow> Layout \<Rightarrow> (addr option \<times> 's) run) \<Rightarrow> ('s \<Rightarrow> addr \<Rightarrow> Layout \<Rightarrow> 's run) \<Rightarrow>
     's \<Rightarrow> block set \<Rightarrow> heap_op list \<Rightarrow> ('s \<times> block set) run" where
  "run_ops al de s L [] = Val (s, L)"
| "run_ops al de s L (x # xs) =
     (case x of
        Alloc l \<Rightarrow> rbind (al s l) (\<lambda>(p, s').
          run_ops al de s' (case p of Some a \<Rightarrow> insert (a, l) L | None \<Rightarrow> L) xs)
      | Free p l \<Rightarrow>
          (if (p, l) \<in> L then rbind (de s p l) (\<lambda>s'. run_ops al de s' (L - {(p, l)}) xs)
           else run_ops al de s L xs))"

text \<open>
  The same with a client that, before each step, also writes into memory: \<open>wr k L s\<close> is the state after
  the client has written, when it holds \<open>L\<close> and has \<open>k\<close> more steps to come.
\<close>

primrec client_ops ::
    "('s \<Rightarrow> Layout \<Rightarrow> (addr option \<times> 's) run) \<Rightarrow> ('s \<Rightarrow> addr \<Rightarrow> Layout \<Rightarrow> 's run) \<Rightarrow> (nat \<Rightarrow> block set \<Rightarrow> 's \<Rightarrow> 's) \<Rightarrow>
     's \<Rightarrow> block set \<Rightarrow> heap_op list \<Rightarrow> ('s \<times> block set) run" where
  "client_ops al de wr s L [] = Val (s, L)"
| "client_ops al de wr s L (x # xs) =
     rbind (run_ops al de (wr (length xs) L s) L [x]) (\<lambda>(s, L). client_ops al de wr s L xs)"

definition op_ok :: "(Layout \<Rightarrow> bool) \<Rightarrow> heap_op \<Rightarrow> bool" where
  "op_ok ok x = (case x of Alloc l \<Rightarrow> ok l | Free _ _ \<Rightarrow> True)"

text \<open>
  The contract: \<open>inv s L\<close> says that the allocator is in a good state and has handed out the blocks
  \<open>L\<close>.  The blocks handed out are then good; a request with an acceptable layout that returns gives
  either a block that can join them or nothing and them unchanged; giving back a block that was
  handed out returns and removes it.
\<close>

locale heap_safety =
  fixes al :: "'s \<Rightarrow> Layout \<Rightarrow> (addr option \<times> 's) run"
    and de :: "'s \<Rightarrow> addr \<Rightarrow> Layout \<Rightarrow> 's run"
    and inv :: "'s \<Rightarrow> block set \<Rightarrow> bool"
    and ok :: "Layout \<Rightarrow> bool"
    and lo :: addr and hi :: addr
  assumes blocks: "inv s L \<Longrightarrow> blocks_ok lo hi L"
    and alloc_null: "inv s L \<Longrightarrow> ok l \<Longrightarrow> al s l = Val (None, s') \<Longrightarrow> inv s' L"
    and alloc_block: "inv s L \<Longrightarrow> ok l \<Longrightarrow> al s l = Val (Some p, s') \<Longrightarrow>
      (p, l) \<notin> L \<and> inv s' (insert (p, l) L)"
    and dealloc_block: "inv s L \<Longrightarrow> (p, l) \<in> L \<Longrightarrow> \<exists>s'. de s p l = Val s' \<and> inv s' (L - {(p, l)})"
begin

text \<open>A block just handed out overlaps none of those already held.\<close>

lemma alloc_apart:
  assumes "inv s L" "ok l" "al s l = Val (Some p, s')" "b \<in> L"
  shows "apart (p, l) b"
proof -
  from alloc_block [OF assms(1-3)] have "(p, l) \<notin> L" "inv s' (insert (p, l) L)" by auto
  with blocks [OF this(2)] assms(4) show ?thesis by (auto simp: blocks_ok_def)
qed

lemma alloc_inv:
  assumes "inv s L" "ok l" "al s l = Val (p, s')"
  shows "inv s' (case p of Some a \<Rightarrow> insert (a, l) L | None \<Rightarrow> L)"
  using alloc_null [OF assms(1,2)] alloc_block [OF assms(1,2)] assms(3) by (auto split: option.split)

text \<open>A history of requests and returns that ends leaves the client with good blocks.\<close>

lemma run_ops_inv:
  assumes "inv s L" "list_all (op_ok ok) xs" "run_ops al de s L xs = Val (s', L')"
  shows "inv s' L'"
  using assms
proof (induction xs arbitrary: s L)
  case Nil
  then show ?case by simp
next
  case (Cons x xs)
  show ?case
  proof (cases x)
    case (Alloc l)
    with Cons.prems obtain p s1 where "ok l" "al s l = Val (p, s1)"
      "run_ops al de s1 (case p of Some a \<Rightarrow> insert (a, l) L | None \<Rightarrow> L) xs = Val (s', L')"
      by (auto simp: op_ok_def run_simps)
    with Cons.IH [OF alloc_inv [OF Cons.prems(1)]] Cons.prems(2) show ?thesis by simp
  next
    case (Free p l)
    show ?thesis
    proof (cases "(p, l) \<in> L")
      case True
      with Cons Free dealloc_block [OF Cons.prems(1) True] show ?thesis by auto
    next
      case False
      with Cons Free show ?thesis by simp
    qed
  qed
qed

end

text \<open>
  An allocator that also answers every request: it returns a null pointer when it has no room,
  and does not panic.
\<close>

locale heap_allocator = heap_safety +
  assumes alloc_returns: "inv s L \<Longrightarrow> ok l \<Longrightarrow> returns (al s l)"
begin

lemma run_ops_returns:
  assumes "inv s L" "list_all (op_ok ok) xs"
  shows "returns (run_ops al de s L xs)"
  using assms
proof (induction xs arbitrary: s L)
  case Nil
  then show ?case by simp
next
  case (Cons x xs)
  show ?case
  proof (cases x)
    case (Alloc l)
    with Cons.prems have l: "ok l" by (simp add: op_ok_def)
    obtain p s' where al: "al s l = Val (p, s')"
      using alloc_returns [OF Cons.prems(1) l] by (auto simp: returns_iff)
    from Cons.IH [OF alloc_inv [OF Cons.prems(1) l al]] Cons.prems(2) Alloc al show ?thesis by simp
  next
    case (Free p l)
    with Cons dealloc_block [OF Cons.prems(1)] show ?thesis by fastforce
  qed
qed

lemma run_ops_blocks:
  assumes "inv s L" "list_all (op_ok ok) xs"
  shows "\<exists>s' L'. run_ops al de s L xs = Val (s', L') \<and> blocks_ok lo hi L'"
  using run_ops_returns [OF assms] run_ops_inv [OF assms] blocks by (fastforce simp: returns_iff)

end

end
