(* ===== verification/Bump.thy ===== *)
theory Bump
  imports Allocator
begin

text \<open>
  The bump allocator, \<^verbatim>\<open>src/src/allocator/bump.rs\<close>: its state, \<^verbatim>\<open>new\<close>, \<^verbatim>\<open>init\<close>, \<^verbatim>\<open>alloc\<close> and
  \<^verbatim>\<open>dealloc\<close>, and that it meets the contract of an allocator.
\<close>

record BumpAllocator =
  bump_heap_start :: addr
  bump_heap_end :: addr
  bump_next :: addr
  bump_allocations :: addr

definition bump_new :: BumpAllocator where
  "bump_new = \<lparr>bump_heap_start = 0, bump_heap_end = 0, bump_next = 0, bump_allocations = 0\<rparr>"

definition bump_init :: "BumpAllocator \<Rightarrow> addr \<Rightarrow> addr \<Rightarrow> BumpAllocator run" where
  "bump_init s heap_start heap_size =
     rbind (usize_add heap_start heap_size) (\<lambda>e.
       Val (s\<lparr>bump_heap_start := heap_start, bump_heap_end := e, bump_next := heap_start\<rparr>))"

definition bump_alloc :: "BumpAllocator \<Rightarrow> Layout \<Rightarrow> (addr option \<times> BumpAllocator) run" where
  "bump_alloc s layout =
     rbind (align_up (bump_next s) (lay_align layout)) (\<lambda>alloc_start.
       case checked_add alloc_start (lay_size layout) of
         None \<Rightarrow> Val (None, s)
       | Some alloc_end \<Rightarrow>
           if alloc_end > bump_heap_end s then Val (None, s)
           else rbind (usize_add (bump_allocations s) 1) (\<lambda>n.
             Val (Some alloc_start, s\<lparr>bump_next := alloc_end, bump_allocations := n\<rparr>)))"

definition bump_dealloc :: "BumpAllocator \<Rightarrow> addr \<Rightarrow> Layout \<Rightarrow> BumpAllocator run" where
  "bump_dealloc s p layout =
     rbind (usize_sub (bump_allocations s) 1) (\<lambda>n.
       Val (if n = 0 then s\<lparr>bump_allocations := n, bump_next := bump_heap_start s\<rparr>
            else s\<lparr>bump_allocations := n\<rparr>))"

section \<open>Invariant\<close>

text \<open>
  Everything handed out lies below \<^verbatim>\<open>next\<close>, and the counter counts it; nothing is handed out
  only when the whole heap is free again.  The heap ends below \<open>2^63\<close>,
  so that \<^verbatim>\<open>align_up\<close> cannot overflow.
\<close>

definition bump_inv :: "addr \<Rightarrow> addr \<Rightarrow> BumpAllocator \<Rightarrow> block set \<Rightarrow> bool" where
  "bump_inv lo hi s L \<longleftrightarrow>
     bump_heap_start s = lo \<and> bump_heap_end s = hi \<and> 0 \<le> lo \<and> hi \<le> 0x8000000000000000
     \<and> bump_next s \<le> hi \<and> lo + bump_allocations s \<le> bump_next s
     \<and> finite L \<and> bump_allocations s = int (card L) \<and> (L = {} \<longrightarrow> bump_next s = lo)
     \<and> blocks_ok lo (bump_next s) L \<and> (\<forall>b \<in> L. layout_ok (snd b))"

lemma bump_init_inv:
  assumes "0 \<le> lo" "0 \<le> n" "lo + n \<le> 0x8000000000000000"
  obtains s where "bump_init bump_new lo n = Val s" "bump_inv lo (lo + n) s {}"
proof
  show "bump_init bump_new lo n =
    Val \<lparr>bump_heap_start = lo, bump_heap_end = lo + n, bump_next = lo, bump_allocations = 0\<rparr>"
    using assms by (simp add: bump_init_def bump_new_def usize_add_def)
qed (use assms in \<open>simp add: bump_inv_def blocks_ok_def\<close>)

text \<open>The exact outcome of a request: the next aligned address, if the block ends inside the heap.\<close>

lemma bump_alloc_cases:
  assumes "bump_inv lo hi s L" "layout_ok l"
  obtains (full) b where "bump_alloc s l = Val (None, s)" "align_up (bump_next s) (lay_align l) = Val b"
      "hi < b + lay_size l"
    | (room) b where "bump_alloc s l = Val (Some b,
        s\<lparr>bump_next := b + lay_size l, bump_allocations := bump_allocations s + 1\<rparr>)"
      "bump_next s \<le> b" "lay_align l dvd b" "b + lay_size l \<le> hi"
proof -
  have b: "0 \<le> bump_next s" "bump_next s \<le> hi" "hi \<le> 0x8000000000000000" "bump_heap_end s = hi"
    "0 \<le> bump_allocations s" "bump_allocations s \<le> bump_next s"
    using assms(1) by (auto simp: bump_inv_def)
  note l = layout_okD(1-3) [OF assms(2)]
  obtain a where a: "align_up (bump_next s) (lay_align l) = Val a" "bump_next s \<le> a" "lay_align l dvd a"
    by (rule align_up_ok [of "bump_next s" "lay_align l"]) (use b l in auto)
  show thesis
  proof (cases "a + lay_size l \<le> hi")
    case True
    with room [of a] show thesis using a b l by (simp add: bump_alloc_def checked_add_def usize_add_def)
  next
    case False
    with full [of a] show thesis using a b l by (simp add: bump_alloc_def checked_add_def)
  qed
qed

lemma bump_alloc_block:
  assumes "bump_inv lo hi s L" "layout_ok l" "bump_alloc s l = Val (Some p, s')"
  shows "(p, l) \<notin> L \<and> bump_inv lo hi s' (insert (p, l) L)"
  using assms(1,2)
proof (cases rule: bump_alloc_cases)
  case full
  with assms(3) show ?thesis by simp
next
  case (room b)
  note l = layout_okD(2) [OF assms(2)]
  from room(1) assms(3) have p: "p = b"
    and s': "s' = s\<lparr>bump_next := b + lay_size l, bump_allocations := bump_allocations s + 1\<rparr>" by auto
  have ok: "blocks_ok lo (bump_next s) L" and lo: "lo \<le> bump_next s" "finite L" "bump_allocations s = int (card L)"
    using assms(1) by (auto simp: bump_inv_def)
  have below: "fst c + lay_size (snd c) \<le> p" "c \<noteq> (p, l)" if "c \<in> L" for c
    using ok that room(2) p l unfolding blocks_ok_def by force+
  then have new: "(p, l) \<notin> L" by blast
  have "blocks_ok lo (bump_next s') L" by (rule blocks_ok_mono [OF ok]) (use s' room(2) l in simp)
  then have "blocks_ok lo (bump_next s') (insert (p, l) L)"
    using below room(2,3) lo p s' unfolding blocks_ok_def by (auto simp: apart_def)
  with new assms(1,2) room lo s' p l show ?thesis by (auto simp: bump_inv_def)
qed

lemma bump_dealloc_block:
  assumes "bump_inv lo hi s L" "(p, l) \<in> L"
  shows "\<exists>s'. bump_dealloc s p l = Val s' \<and> bump_inv lo hi s' (L - {(p, l)})"
proof -
  have c: "finite L" "bump_allocations s = int (card L)" "0 < card L"
    using assms by (auto simp: bump_inv_def card_gt_0_iff)
  then have card: "int (card (L - {(p, l)})) = bump_allocations s - 1" using assms(2) by simp
  have ok: "blocks_ok lo (bump_next s) (L - {(p, l)})"
    using assms(1) by (auto simp: bump_inv_def intro: blocks_ok_subset)
  let ?s = "if bump_allocations s = 1 then s\<lparr>bump_allocations := 0, bump_next := bump_heap_start s\<rparr>
            else s\<lparr>bump_allocations := bump_allocations s - 1\<rparr>"
  have d: "bump_dealloc s p l = Val ?s" using c by (simp add: bump_dealloc_def usize_sub_def)
  have "bump_inv lo hi ?s (L - {(p, l)})"
  proof (cases "bump_allocations s = 1")
    case True
    with card c have "L - {(p, l)} = {}" by (simp add: card_eq_0_iff)
    with True assms(1) show ?thesis by (auto simp: bump_inv_def blocks_ok_def)
  next
    case False
    with card c(2) have "card (L - {(p, l)}) \<noteq> 0" by linarith
    then have "L - {(p, l)} \<noteq> {}" by force
    with False assms(1) card ok show ?thesis by (simp add: bump_inv_def)
  qed
  with d show ?thesis by blast
qed

interpretation bump: heap_allocator bump_alloc bump_dealloc "bump_inv lo hi" layout_ok lo hi for lo hi
proof unfold_locales
  fix s L l s' p
  show "blocks_ok lo hi L" if "bump_inv lo hi s L"
    using that by (auto simp: bump_inv_def intro: blocks_ok_mono)
  show "bump_inv lo hi s' L" if "bump_inv lo hi s L" "layout_ok l" "bump_alloc s l = Val (None, s')"
    using that(1,2) by (cases rule: bump_alloc_cases) (use that in auto)
  show "returns (bump_alloc s l)" if "bump_inv lo hi s L" "layout_ok l"
    using that by (cases rule: bump_alloc_cases) auto
qed (simp_all add: bump_alloc_block bump_dealloc_block)

section \<open>Properties\<close>

text \<open>
  C15: From \<^verbatim>\<open>init\<close> on, no history of requests with valid layouts and of returns of blocks still held
  panics.  The blocks held are aligned as asked, inside the heap and pairwise disjoint, and once all
  are given back the next request starts at the beginning of the heap again.
\<close>

theorem bump_histories:
  assumes "0 \<le> lo" "0 \<le> n" "lo + n \<le> 0x8000000000000000" "list_all (op_ok layout_ok) xs"
  shows "\<exists>s s' L. bump_init bump_new lo n = Val s
    \<and> run_ops bump_alloc bump_dealloc s {} xs = Val (s', L)
    \<and> blocks_ok lo (lo + n) L \<and> (if L = {} then bump_next s' = lo else bump_next s' \<le> lo + n)"
proof -
  obtain s where s: "bump_init bump_new lo n = Val s" "bump_inv lo (lo + n) s {}"
    using bump_init_inv [OF assms(1-3)] .
  obtain s' L where r: "run_ops bump_alloc bump_dealloc s {} xs = Val (s', L)" "blocks_ok lo (lo + n) L"
    using bump.run_ops_blocks [OF s(2) assms(4)] by blast
  have "bump_inv lo (lo + n) s' L" using bump.run_ops_inv [OF s(2) assms(4) r(1)] .
  with s r show ?thesis by (auto simp: bump_inv_def)
qed

theorem bump_histories_witness:
  "\<exists>s s' L. bump_init bump_new 4096 64 = Val s
    \<and> run_ops bump_alloc bump_dealloc s {}
        [Alloc \<lparr>lay_size = 3, lay_align = 1\<rparr>, Alloc \<lparr>lay_size = 8, lay_align = 8\<rparr>,
         Alloc \<lparr>lay_size = 100, lay_align = 1\<rparr>, Free 4096 \<lparr>lay_size = 3, lay_align = 1\<rparr>] = Val (s', L)
    \<and> blocks_ok 4096 (4096 + 64) L \<and> (if L = {} then bump_next s' = 4096 else bump_next s' \<le> 4096 + 64)"
  by (rule bump_histories) (simp_all add: op_ok_def layout_ok_def upt_rec)

end
