(* ===== verification/Linked_List.thy ===== *)
theory Linked_List
  imports Allocator
begin

text \<open>
  The linked-list allocator, \<^verbatim>\<open>src/src/allocator/linked_list.rs\<close>: the free list, \<^verbatim>\<open>add_free_region\<close>,
  \<^verbatim>\<open>find_region\<close>, \<^verbatim>\<open>alloc_from_region\<close>, \<^verbatim>\<open>size_align\<close>, \<^verbatim>\<open>alloc\<close> and \<^verbatim>\<open>dealloc\<close>; that it meets
  the contract of an allocator; and what it does to the amount of free memory.

  The nodes are owned by their predecessors (\<^verbatim>\<open>Option<&'static mut ListNode>\<close>), so the list from
  \<^verbatim>\<open>head.next\<close> on is a list of nodes, each with the address it is stored at.  A \<^verbatim>\<open>ListNode\<close> has
  size 16 and alignment 8.
\<close>

record ListNode =
  node_addr :: addr
  node_size :: addr

record LinkedListAllocator =
  head_next :: "ListNode list"

definition end_addr :: "ListNode \<Rightarrow> addr run" where
  "end_addr r = usize_add (node_addr r) (node_size r)"

definition ll_new :: LinkedListAllocator where
  "ll_new = \<lparr>head_next = []\<rparr>"

definition add_free_region :: "LinkedListAllocator \<Rightarrow> addr \<Rightarrow> addr \<Rightarrow> LinkedListAllocator run" where
  "add_free_region s a n =
     rbind (align_up a 8) (\<lambda>b.
       if b \<noteq> a then Panic AssertFailed
       else if n < 16 then Panic AssertFailed
       else Val (s\<lparr>head_next := \<lparr>node_addr = a, node_size = n\<rparr> # head_next s\<rparr>))"

definition ll_init :: "LinkedListAllocator \<Rightarrow> addr \<Rightarrow> addr \<Rightarrow> LinkedListAllocator run" where
  "ll_init s heap_start heap_size = add_free_region s heap_start heap_size"

definition alloc_from_region :: "ListNode \<Rightarrow> addr \<Rightarrow> addr \<Rightarrow> addr option run" where
  "alloc_from_region region n align =
     rbind (align_up (node_addr region) align) (\<lambda>alloc_start.
       case checked_add alloc_start n of
         None \<Rightarrow> Val None
       | Some alloc_end \<Rightarrow>
           rbind (end_addr region) (\<lambda>e.
             if alloc_end > e then Val None
             else rbind (usize_sub e alloc_end) (\<lambda>excess_size.
               if excess_size > 0 \<and> excess_size < 16 then Val None else Val (Some alloc_start))))"

fun find_region :: "ListNode list \<Rightarrow> addr \<Rightarrow> addr \<Rightarrow> ((ListNode \<times> addr) option \<times> ListNode list) run" where
  "find_region [] n align = Val (None, [])"
| "find_region (region # rest) n align =
     rbind (alloc_from_region region n align) (\<lambda>found.
       case found of
         Some alloc_start \<Rightarrow> Val (Some (region, alloc_start), rest)
       | None \<Rightarrow> rbind (find_region rest n align) (\<lambda>(ret, rest'). Val (ret, region # rest')))"

text \<open>\<^verbatim>\<open>Layout::align_to\<close> fails when the size no longer fits the larger alignment.\<close>

definition size_align :: "Layout \<Rightarrow> (addr \<times> addr) run" where
  "size_align layout =
     (let align = max (lay_align layout) 8 in
      if lay_size layout > 0x8000000000000000 - align
      then Panic (ExplicitPanic ''adjusting alignment failed'')
      else
        let padded = (lay_size layout + align - 1) div align * align in
        Val (max padded 16, align))"

definition ll_alloc :: "LinkedListAllocator \<Rightarrow> Layout \<Rightarrow> (addr option \<times> LinkedListAllocator) run" where
  "ll_alloc s layout =
     rbind (size_align layout) (\<lambda>(n, align).
     rbind (find_region (head_next s) n align) (\<lambda>(found, rest).
       let s = s\<lparr>head_next := rest\<rparr> in
       case found of
         Some (region, alloc_start) \<Rightarrow>
           (case checked_add alloc_start n of
              None \<Rightarrow> Panic (ExplicitPanic ''overflow'')
            | Some alloc_end \<Rightarrow>
                rbind (end_addr region) (\<lambda>e.
                rbind (usize_sub e alloc_end) (\<lambda>excess_size.
                  if excess_size > 0
                  then rbind (add_free_region s alloc_end excess_size) (\<lambda>s. Val (Some alloc_start, s))
                  else Val (Some alloc_start, s))))
       | None \<Rightarrow> Val (None, s)))"

definition ll_dealloc :: "LinkedListAllocator \<Rightarrow> addr \<Rightarrow> Layout \<Rightarrow> LinkedListAllocator run" where
  "ll_dealloc s p layout = rbind (size_align layout) (\<lambda>(n, _). add_free_region s p n)"

section \<open>Sizes and regions\<close>

text \<open>The space a layout takes: rounded up to its alignment (at least 8), at least a node.\<close>

definition ll_align :: "Layout \<Rightarrow> addr" where
  "ll_align l = max (lay_align l) 8"

definition ll_size :: "Layout \<Rightarrow> addr" where
  "ll_size l = max ((lay_size l + ll_align l - 1) div ll_align l * ll_align l) 16"

text \<open>
  A layout the allocator can handle: the size still fits when rounded up to the alignment of a node.  Only
  sizes within 8 bytes of \<open>2^63\<close> do not.
\<close>

definition ll_layout_ok :: "Layout \<Rightarrow> bool" where
  "ll_layout_ok l \<longleftrightarrow> layout_ok l \<and> lay_size l + 8 \<le> 0x8000000000000000"

lemma ll_align_props:
  assumes "layout_ok l"
  shows "lay_align l dvd ll_align l" "8 dvd ll_align l" "8 \<le> ll_align l" "ll_align l \<le> 0x4000000000000000"
proof -
  obtain k where k: "k < 63" "lay_align l = 2 ^ k" using layout_okD(4) [OF assms] by blast
  show "ll_align l \<le> 0x4000000000000000"
    using k power_increasing [of k 62 "2 :: int"] by (simp add: ll_align_def)
  show "8 \<le> ll_align l" by (simp add: ll_align_def)
  have "lay_align l dvd ll_align l \<and> 8 dvd ll_align l"
  proof (cases "3 \<le> k")
    case True
    then have "(2 :: int) ^ 3 dvd 2 ^ k" by (rule le_imp_power_dvd)
    moreover from True power_increasing [of 3 k "2 :: int"] have "8 \<le> lay_align l" using k by simp
    ultimately show ?thesis using k by (simp add: ll_align_def)
  next
    case False
    then have "(2 :: int) ^ k dvd 2 ^ 3" by (intro le_imp_power_dvd) simp
    moreover from False power_increasing [of k 3 "2 :: int"] have "lay_align l \<le> 8" using k by simp
    ultimately show ?thesis using k by (simp add: ll_align_def max_def)
  qed
  then show "lay_align l dvd ll_align l" "8 dvd ll_align l" by simp_all
qed

lemma size_align_ok:
  assumes "ll_layout_ok l"
  shows "size_align l = Val (ll_size l, ll_align l)"
  using assms layout_okD(3) [of l]
  by (auto simp: size_align_def ll_layout_ok_def ll_size_def ll_align_def Let_def max_def)

lemma ll_size_props:
  assumes "ll_layout_ok l"
  shows "lay_size l \<le> ll_size l" "16 \<le> ll_size l" "ll_size l < 0x8000000000000000" "8 dvd ll_size l"
proof -
  have l: "layout_ok l" "0 < lay_size l" "lay_size l + ll_align l \<le> 0x8000000000000000"
    using assms layout_okD [of l] by (auto simp: ll_layout_ok_def ll_align_def max_def)
  note a = ll_align_props [OF l(1)]
  note r = round_up_bounds [of "ll_align l" "lay_size l"]
  show "lay_size l \<le> ll_size l" "16 \<le> ll_size l" "ll_size l < 0x8000000000000000"
    using r a l by (auto simp: ll_size_def)
  have "8 dvd (lay_size l + ll_align l - 1) div ll_align l * ll_align l" using a(2) by simp
  then show "8 dvd ll_size l" by (simp add: ll_size_def max_def)
qed

text \<open>A region is suitable when the block fits and what is left over is nothing or can hold a node.\<close>

definition region_ok :: "addr \<Rightarrow> addr \<Rightarrow> ListNode \<Rightarrow> bool" where
  "region_ok lo hi r \<longleftrightarrow> 8 dvd node_addr r \<and> 16 \<le> node_size r \<and> lo \<le> node_addr r
     \<and> node_addr r + node_size r \<le> hi"

definition suits :: "Layout \<Rightarrow> addr \<Rightarrow> ListNode \<Rightarrow> bool" where
  "suits l a r \<longleftrightarrow> align_up (node_addr r) (ll_align l) = Val a
     \<and> (a + ll_size l = node_addr r + node_size r \<or> a + ll_size l + 16 \<le> node_addr r + node_size r)"

lemma region_start:
  assumes "ll_layout_ok l" "region_ok lo hi r" "0 \<le> lo" "hi \<le> 0x8000000000000000"
  obtains a where "align_up (node_addr r) (ll_align l) = Val a" "node_addr r \<le> a" "a < node_addr r + ll_align l"
    "ll_align l dvd a"
proof -
  have "layout_ok l" using assms(1) by (simp add: ll_layout_ok_def)
  note ll_align_props [OF this]
  then show thesis
    by - (rule align_up_ok [of "node_addr r" "ll_align l"], use assms in \<open>auto simp: region_ok_def intro: that\<close>)
qed

lemma alloc_from_region_ok:
  assumes "ll_layout_ok l" "region_ok lo hi r" "0 \<le> lo" "hi \<le> 0x8000000000000000"
  shows "\<exists>a. align_up (node_addr r) (ll_align l) = Val a
    \<and> alloc_from_region r (ll_size l) (ll_align l) = Val (if suits l a r then Some a else None)"
proof -
  obtain a where a: "align_up (node_addr r) (ll_align l) = Val a" "node_addr r \<le> a"
    "a < node_addr r + ll_align l"
    using region_start [OF assms] by metis
  have "layout_ok l" using assms(1) by (simp add: ll_layout_ok_def)
  from ll_align_props(4) [OF this] ll_size_props [OF assms(1)] a assms(2-4)
  have "alloc_from_region r (ll_size l) (ll_align l) = Val (if suits l a r then Some a else None)"
    by (auto simp: alloc_from_region_def checked_add_def end_addr_def usize_add_def usize_sub_def
        region_ok_def suits_def)
  with a(1) show ?thesis by blast
qed

lemma find_region_cases:
  assumes "ll_layout_ok l" "\<forall>r \<in> set rs. region_ok lo hi r" "0 \<le> lo" "hi \<le> 0x8000000000000000"
  obtains (none) "find_region rs (ll_size l) (ll_align l) = Val (None, rs)" "\<forall>r \<in> set rs. \<forall>a. \<not> suits l a r"
    | (some) xs r ys a where "rs = xs @ r # ys" "suits l a r" "\<forall>x \<in> set xs. \<forall>a. \<not> suits l a x"
      "find_region rs (ll_size l) (ll_align l) = Val (Some (r, a), xs @ ys)"
  using assms(2)
proof (induction rs arbitrary: thesis)
  case Nil
  then show ?case by simp
next
  case (Cons r rs)
  obtain a where a: "align_up (node_addr r) (ll_align l) = Val a"
    "alloc_from_region r (ll_size l) (ll_align l) = Val (if suits l a r then Some a else None)"
    using alloc_from_region_ok [OF assms(1) _ assms(3,4), of r] Cons.prems(3) by auto
  have only: "suits l b r \<Longrightarrow> b = a" for b using a(1) by (simp add: suits_def)
  show ?case
  proof (cases "suits l a r")
    case True
    with Cons.prems(2) [of "[]" r rs a] a show ?thesis by simp
  next
    case False
    with only have no: "\<forall>b. \<not> suits l b r" by blast
    show ?thesis
    proof (rule Cons.IH)
      assume "find_region rs (ll_size l) (ll_align l) = Val (None, rs)" "\<forall>r \<in> set rs. \<forall>a. \<not> suits l a r"
      with Cons.prems(1) a False no show thesis by simp
    next
      fix xs r' ys a'
      assume "rs = xs @ r' # ys" "suits l a' r'" "\<forall>x \<in> set xs. \<forall>a. \<not> suits l a x"
        "find_region rs (ll_size l) (ll_align l) = Val (Some (r', a'), xs @ ys)"
      with Cons.prems(2) [of "r # xs" r' ys a'] a False no show thesis by simp
    qed (use Cons.prems in simp)
  qed
qed

lemma size_align_panics:
  assumes "layout_ok l" "\<not> ll_layout_ok l"
  shows "size_align l = Panic (ExplicitPanic ''adjusting alignment failed'')"
  using assms layout_okD(3) [OF assms(1)] by (auto simp: size_align_def ll_layout_ok_def Let_def max_def)

section \<open>Invariant\<close>

definition seg_apart :: "addr \<times> addr \<Rightarrow> addr \<times> addr \<Rightarrow> bool" where
  "seg_apart s t \<longleftrightarrow> fst s + snd s \<le> fst t \<or> fst t + snd t \<le> fst s"

definition node_seg :: "ListNode \<Rightarrow> addr \<times> addr" where
  "node_seg r = (node_addr r, node_size r)"

definition block_seg :: "block \<Rightarrow> addr \<times> addr" where
  "block_seg b = (fst b, ll_size (snd b))"

definition block_fits :: "addr \<Rightarrow> addr \<Rightarrow> block \<Rightarrow> bool" where
  "block_fits lo hi b \<longleftrightarrow> ll_layout_ok (snd b) \<and> ll_align (snd b) dvd fst b \<and> lo \<le> fst b
     \<and> fst b + ll_size (snd b) \<le> hi"

text \<open>
  The free regions and the blocks handed out lie in the heap, and no two of them overlap.  The
  heap ends below \<open>2^63\<close>, so that \<^verbatim>\<open>align_up\<close> cannot overflow.
\<close>

definition ll_inv :: "addr \<Rightarrow> addr \<Rightarrow> LinkedListAllocator \<Rightarrow> block set \<Rightarrow> bool" where
  "ll_inv lo hi s L \<longleftrightarrow> 0 \<le> lo \<and> hi \<le> 0x8000000000000000
     \<and> (\<forall>r \<in> set (head_next s). region_ok lo hi r) \<and> (\<forall>b \<in> L. block_fits lo hi b)
     \<and> sorted_wrt (\<lambda>r q. seg_apart (node_seg r) (node_seg q)) (head_next s)
     \<and> (\<forall>b \<in> L. \<forall>r \<in> set (head_next s). seg_apart (block_seg b) (node_seg r))
     \<and> (\<forall>b \<in> L. \<forall>c \<in> L. b \<noteq> c \<longrightarrow> seg_apart (block_seg b) (block_seg c))"

lemma seg_apart_sym: "seg_apart s t \<longleftrightarrow> seg_apart t s"
  by (auto simp: seg_apart_def)

lemma seg_apart_part:
  "seg_apart s t \<Longrightarrow> fst s \<le> a \<Longrightarrow> a + n \<le> fst s + snd s \<Longrightarrow> seg_apart (a, n) t"
  by (auto simp: seg_apart_def)

lemma ll_inv_blocks:
  assumes "ll_inv lo hi s L"
  shows "blocks_ok lo hi L"
  unfolding blocks_ok_def
proof (intro conjI ballI impI)
  fix b assume "b \<in> L"
  then have b: "block_fits lo hi b" using assms by (simp add: ll_inv_def)
  then have "layout_ok (snd b)" by (simp add: block_fits_def ll_layout_ok_def)
  with b show "lay_align (snd b) dvd fst b" using ll_align_props(1) dvd_trans by (auto simp: block_fits_def)
  show "lo \<le> fst b" "fst b + lay_size (snd b) \<le> hi"
    using b ll_size_props(1) [of "snd b"] by (auto simp: block_fits_def)
next
  fix b c assume "b \<in> L" "c \<in> L" "b \<noteq> c"
  then show "apart b c"
    using assms ll_size_props(1) [of "snd b"] ll_size_props(1) [of "snd c"]
    by (fastforce simp: ll_inv_def block_fits_def seg_apart_def block_seg_def apart_def)
qed

lemma add_free_region_ok:
  assumes "8 dvd a" "16 \<le> n"
  shows "add_free_region s a n = Val (s\<lparr>head_next := \<lparr>node_addr = a, node_size = n\<rparr> # head_next s\<rparr>)"
  using assms by (auto simp: add_free_region_def align_up_def dvd_eq_mod_eq_0)

lemma ll_init_inv:
  assumes "0 \<le> lo" "8 dvd lo" "16 \<le> n" "lo + n \<le> 0x8000000000000000"
  shows "ll_init ll_new lo n = Val \<lparr>head_next = [\<lparr>node_addr = lo, node_size = n\<rparr>]\<rparr>"
    and "ll_inv lo (lo + n) \<lparr>head_next = [\<lparr>node_addr = lo, node_size = n\<rparr>]\<rparr> {}"
  using assms by (simp_all add: ll_init_def ll_new_def add_free_region_ok ll_inv_def region_ok_def)

text \<open>
  The exact outcome of a request: the first suitable region is taken out, the block starts at the
  first aligned address in it, and what is left behind the block goes to the front of the list.
\<close>

definition carve :: "LinkedListAllocator \<Rightarrow> ListNode list \<Rightarrow> ListNode \<Rightarrow> addr \<Rightarrow> LinkedListAllocator" where
  "carve s rest r e = s\<lparr>head_next :=
     (if e = node_addr r + node_size r then rest
      else \<lparr>node_addr = e, node_size = node_addr r + node_size r - e\<rparr> # rest)\<rparr>"

lemma ll_alloc_cases:
  assumes "ll_inv lo hi s L" "ll_layout_ok l"
  obtains (none) "ll_alloc s l = Val (None, s)" "\<forall>r \<in> set (head_next s). \<forall>a. \<not> suits l a r"
    | (some) xs r ys a where "head_next s = xs @ r # ys" "suits l a r" "\<forall>x \<in> set xs. \<forall>a. \<not> suits l a x"
      "ll_alloc s l = Val (Some a, carve s (xs @ ys) r (a + ll_size l))"
      "node_addr r \<le> a" "a < node_addr r + ll_align l" "ll_align l dvd a"
proof -
  have i: "\<forall>r \<in> set (head_next s). region_ok lo hi r" "0 \<le> lo" "hi \<le> 0x8000000000000000"
    using assms(1) by (auto simp: ll_inv_def)
  show thesis using assms(2) i
  proof (cases rule: find_region_cases)
    case none
    with that(1) show thesis using size_align_ok [OF assms(2)] by (simp add: ll_alloc_def)
  next
    case (some xs r ys a)
    then have r: "region_ok lo hi r" using i(1) by simp
    obtain b where b: "align_up (node_addr r) (ll_align l) = Val b" "node_addr r \<le> b"
      "b < node_addr r + ll_align l" "ll_align l dvd b"
      using region_start [OF assms(2) r i(2,3)] by metis
    with some(2) have ab: "b = a" by (simp add: suits_def)
    have lo: "layout_ok l" using assms(2) by (simp add: ll_layout_ok_def)
    have al: "8 dvd a + ll_size l"
      using b(4) ab ll_align_props(2) [OF lo] ll_size_props(4) [OF assms(2)] dvd_trans dvd_add by blast
    have "ll_alloc s l = Val (Some a, carve s (xs @ ys) r (a + ll_size l))"
      using size_align_ok [OF assms(2)] some(2,4) r i(2,3) ab b(2) ll_size_props(2,3) [OF assms(2)]
      by (auto simp: ll_alloc_def checked_add_def end_addr_def usize_add_def usize_sub_def region_ok_def
          suits_def carve_def add_free_region_ok [OF al])
    with that(2) some(1-3) b ab show thesis by blast
  qed
qed

text \<open>What the invariant says of one free region and the rest of the list.\<close>

lemma ll_inv_region:
  assumes "ll_inv lo hi s L" "head_next s = xs @ r # ys"
  shows "region_ok lo hi r" "\<forall>q \<in> set (xs @ ys). region_ok lo hi q"
    "\<forall>q \<in> set (xs @ ys). seg_apart (node_seg r) (node_seg q)"
    "\<forall>b \<in> L. seg_apart (node_seg r) (block_seg b)"
    "sorted_wrt (\<lambda>r q. seg_apart (node_seg r) (node_seg q)) (xs @ ys)"
proof -
  have "\<forall>q \<in> set xs. seg_apart (node_seg q) (node_seg r)" "\<forall>q \<in> set ys. seg_apart (node_seg r) (node_seg q)"
    "\<forall>b \<in> L. seg_apart (block_seg b) (node_seg r)"
    using assms by (simp_all add: ll_inv_def sorted_wrt_append)
  then show "\<forall>q \<in> set (xs @ ys). seg_apart (node_seg r) (node_seg q)"
    "\<forall>b \<in> L. seg_apart (node_seg r) (block_seg b)"
    using seg_apart_sym by auto
  show "region_ok lo hi r" "\<forall>q \<in> set (xs @ ys). region_ok lo hi q"
    "sorted_wrt (\<lambda>r q. seg_apart (node_seg r) (node_seg q)) (xs @ ys)"
    using assms by (auto simp: ll_inv_def sorted_wrt_append)
qed

text \<open>Taking a block out of a region keeps the rest of the free list good and clear of the block.\<close>

lemma carve_nodes:
  assumes "ll_inv lo hi s L" "head_next s = xs @ r # ys" "node_addr r \<le> a" "0 < n" "8 dvd a + n"
    "a + n = node_addr r + node_size r \<or> a + n + 16 \<le> node_addr r + node_size r"
    "q \<in> set (head_next (carve s (xs @ ys) r (a + n)))"
  shows "region_ok lo hi q \<and> seg_apart (a, n) (node_seg q) \<and> (\<forall>b \<in> L. seg_apart (block_seg b) (node_seg q))"
proof (cases "q \<in> set (xs @ ys)")
  case True
  with ll_inv_region [OF assms(1,2)] have "region_ok lo hi q" "seg_apart (node_seg r) (node_seg q)" by blast+
  moreover have "\<forall>b \<in> L. seg_apart (block_seg b) (node_seg q)" using True assms(1,2) by (auto simp: ll_inv_def)
  moreover have "seg_apart (a, n) (node_seg q)"
    by (rule seg_apart_part [OF calculation(2)]) (use assms(3,6) in \<open>auto simp: node_seg_def\<close>)
  ultimately show ?thesis by blast
next
  case False
  with assms(7) have q: "a + n \<noteq> node_addr r + node_size r"
    "q = \<lparr>node_addr = a + n, node_size = node_addr r + node_size r - (a + n)\<rparr>"
    by (auto simp: carve_def split: if_splits)
  note r = ll_inv_region [OF assms(1,2)]
  have "seg_apart (node_seg q) (block_seg b)" if "b \<in> L" for b
    unfolding node_seg_def by (rule seg_apart_part [OF r(4) [rule_format, OF that]])
      (use q assms(3,4) in \<open>auto simp: node_seg_def\<close>)
  then have "\<forall>b \<in> L. seg_apart (block_seg b) (node_seg q)" using seg_apart_sym by blast
  moreover have "region_ok lo hi q" using q r(1) assms(3-6) by (auto simp: region_ok_def)
  ultimately show ?thesis using q by (simp add: seg_apart_def node_seg_def)
qed

lemma carve_sorted:
  assumes "ll_inv lo hi s L" "head_next s = xs @ r # ys" "node_addr r \<le> e" "e \<le> node_addr r + node_size r"
  shows "sorted_wrt (\<lambda>r q. seg_apart (node_seg r) (node_seg q)) (head_next (carve s (xs @ ys) r e))"
proof -
  note r = ll_inv_region [OF assms(1,2)]
  have "seg_apart (e, node_addr r + node_size r - e) (node_seg q)" if "q \<in> set (xs @ ys)" for q
    by (rule seg_apart_part [OF r(3) [rule_format, OF that]]) (use assms(3,4) in \<open>auto simp: node_seg_def\<close>)
  with r(5) show ?thesis by (simp add: carve_def node_seg_def)
qed

lemma ll_alloc_block:
  assumes "ll_inv lo hi s L" "ll_layout_ok l" "ll_alloc s l = Val (Some p, s')"
  shows "(p, l) \<notin> L \<and> ll_inv lo hi s' (insert (p, l) L)"
  using assms(1,2)
proof (cases rule: ll_alloc_cases)
  case none
  with assms(3) show ?thesis by simp
next
  case (some xs r ys a)
  let ?e = "a + ll_size l"
  from some(4) assms(3) have p: "a = p" and s': "s' = carve s (xs @ ys) r ?e" by simp_all
  note sz = ll_size_props [OF assms(2)]
  have e: "?e = node_addr r + node_size r \<or> ?e + 16 \<le> node_addr r + node_size r"
    using some(2) by (simp add: suits_def)
  note r = ll_inv_region(1,4) [OF assms(1) some(1)]
  have "8 dvd ?e"
    using some(7) ll_align_props(2) [of l] sz(4) assms(2) dvd_trans dvd_add by (metis ll_layout_ok_def)
  note nodes = carve_nodes [OF assms(1) some(1,5) _ this e]
  have apart_L: "seg_apart (block_seg (p, l)) (block_seg b)" if "b \<in> L" for b
    unfolding block_seg_def [of "(p, l)"] by (rule seg_apart_part [OF r(2) [rule_format, OF that]])
      (use some(5) e p sz in \<open>auto simp: node_seg_def\<close>)
  have apart_L': "seg_apart (block_seg b) (block_seg (p, l))" if "b \<in> L" for b
    using apart_L [OF that] seg_apart_sym by blast
  have new: "(p, l) \<notin> L"
    using apart_L [of "(p, l)"] sz by (auto simp: seg_apart_def block_seg_def)
  have fit: "block_fits lo hi (p, l)"
    using assms(2) some(5,7) r(1) e p by (auto simp: block_fits_def region_ok_def)
  have "sorted_wrt (\<lambda>r q. seg_apart (node_seg r) (node_seg q)) (head_next s')"
    unfolding s' by (rule carve_sorted [OF assms(1) some(1)]) (use some(5) e sz in auto)
  moreover have "\<forall>q \<in> set (head_next s'). region_ok lo hi q \<and> seg_apart (block_seg (p, l)) (node_seg q)
      \<and> (\<forall>b \<in> L. seg_apart (block_seg b) (node_seg q))"
    using nodes sz(2) p s' by (simp add: block_seg_def [of "(p, l)"])
  ultimately show ?thesis using assms(1) new fit apart_L apart_L' by (simp add: ll_inv_def)
qed

lemma ll_dealloc_eq:
  assumes "block_fits lo hi (p, l)"
  shows "ll_dealloc s p l = Val (s\<lparr>head_next := \<lparr>node_addr = p, node_size = ll_size l\<rparr> # head_next s\<rparr>)"
proof -
  from assms have l: "ll_layout_ok l" "ll_align l dvd p" by (simp_all add: block_fits_def)
  then have "8 dvd p" using ll_align_props(2) [of l] dvd_trans by (auto simp: ll_layout_ok_def)
  with l ll_size_props(2) show ?thesis by (simp add: ll_dealloc_def size_align_ok add_free_region_ok)
qed

lemma ll_dealloc_block:
  assumes "ll_inv lo hi s L" "(p, l) \<in> L"
  shows "\<exists>s'. ll_dealloc s p l = Val s' \<and> ll_inv lo hi s' (L - {(p, l)})"
proof -
  let ?n = "\<lparr>node_addr = p, node_size = ll_size l\<rparr>"
  have b: "block_fits lo hi (p, l)" using assms by (auto simp: ll_inv_def)
  then have l: "ll_layout_ok l" "ll_align l dvd p" "lo \<le> p" "p + ll_size l \<le> hi"
    by (simp_all add: block_fits_def)
  then have "8 dvd p" using ll_align_props(2) [of l] dvd_trans by (auto simp: ll_layout_ok_def)
  with l have n: "region_ok lo hi ?n" "node_seg ?n = block_seg (p, l)"
    using ll_size_props(2) [of l] by (simp_all add: region_ok_def node_seg_def block_seg_def)
  with assms have "ll_inv lo hi (s\<lparr>head_next := ?n # head_next s\<rparr>) (L - {(p, l)})"
    by (auto simp: ll_inv_def)
  with ll_dealloc_eq [OF b] show ?thesis by blast
qed

interpretation ll: heap_allocator ll_alloc ll_dealloc "ll_inv lo hi" ll_layout_ok lo hi for lo hi
proof unfold_locales
  fix s L l s' p
  show "blocks_ok lo hi L" if "ll_inv lo hi s L" using that by (rule ll_inv_blocks)
  show "ll_inv lo hi s' L" if "ll_inv lo hi s L" "ll_layout_ok l" "ll_alloc s l = Val (None, s')"
    using that(1,2) by (cases rule: ll_alloc_cases) (use that in auto)
  show "returns (ll_alloc s l)" if "ll_inv lo hi s L" "ll_layout_ok l"
    using that by (cases rule: ll_alloc_cases) auto
qed (simp_all add: ll_alloc_block ll_dealloc_block)

section \<open>Accounting\<close>

definition free_total :: "LinkedListAllocator \<Rightarrow> addr" where
  "free_total s = sum_list (map node_size (head_next s))"

text \<open>
  A request takes the block and the gap in front of it out of the free memory.  There is no gap
  when the alignment is at most that of a node.
\<close>

lemma ll_alloc_total:
  assumes "ll_inv lo hi s L" "ll_layout_ok l" "ll_alloc s l = Val (Some p, s')"
  shows "\<exists>gap. 0 \<le> gap \<and> gap < ll_align l \<and> (lay_align l \<le> 8 \<longrightarrow> gap = 0)
    \<and> free_total s = free_total s' + ll_size l + gap"
  using assms(1,2)
proof (cases rule: ll_alloc_cases)
  case none
  with assms(3) show ?thesis by simp
next
  case (some xs r ys a)
  then have s': "s' = carve s (xs @ ys) r (a + ll_size l)" using assms(3) by simp
  have tot: "free_total s = free_total s' + ll_size l + (a - node_addr r)"
    using some(1) s' by (auto simp: free_total_def carve_def)
  have "a = node_addr r" if "lay_align l \<le> 8"
  proof -
    from that have "ll_align l = 8" by (simp add: ll_align_def max_def)
    moreover have "8 dvd node_addr r" using ll_inv_region(1) [OF assms(1) some(1)] by (simp add: region_ok_def)
    ultimately have "8 dvd a - node_addr r" "a - node_addr r < 8" using some(6,7) by simp_all
    with some(5) show ?thesis using zdvd_imp_le [of 8 "a - node_addr r"] by linarith
  qed
  with tot some(5,6) show ?thesis by (intro exI [of _ "a - node_addr r"]) auto
qed

text \<open>With node alignment only, free memory and blocks handed out always add up to the heap.\<close>

definition ll_exact_inv :: "addr \<Rightarrow> addr \<Rightarrow> LinkedListAllocator \<Rightarrow> block set \<Rightarrow> bool" where
  "ll_exact_inv lo hi s L \<longleftrightarrow> ll_inv lo hi s L \<and> finite L
     \<and> free_total s + (\<Sum>b \<in> L. ll_size (snd b)) = hi - lo"

definition node_aligned :: "Layout \<Rightarrow> bool" where
  "node_aligned l \<longleftrightarrow> ll_layout_ok l \<and> lay_align l \<le> 8"

interpretation ll_exact: heap_allocator ll_alloc ll_dealloc "ll_exact_inv lo hi" node_aligned lo hi for lo hi
proof unfold_locales
  fix s L l s' p
  show "blocks_ok lo hi L" if "ll_exact_inv lo hi s L" using that unfolding ll_exact_inv_def by (blast intro: ll_inv_blocks)
  show "ll_exact_inv lo hi s' L"
    if "ll_exact_inv lo hi s L" "node_aligned l" "ll_alloc s l = Val (None, s')"
  proof -
    have "ll_inv lo hi s L" "ll_layout_ok l" using that by (simp_all add: ll_exact_inv_def node_aligned_def)
    then show ?thesis by (cases rule: ll_alloc_cases) (use that in auto)
  qed
  show "(p, l) \<notin> L \<and> ll_exact_inv lo hi s' (insert (p, l) L)"
    if "ll_exact_inv lo hi s L" "node_aligned l" "ll_alloc s l = Val (Some p, s')"
  proof -
    have i: "ll_inv lo hi s L" "ll_layout_ok l" "lay_align l \<le> 8"
      using that by (simp_all add: ll_exact_inv_def node_aligned_def)
    have "free_total s = free_total s' + ll_size l" using ll_alloc_total [OF i(1,2) that(3)] i(3) by auto
    with ll_alloc_block [OF i(1,2) that(3)] that(1) show ?thesis by (simp add: ll_exact_inv_def)
  qed
  show "\<exists>s'. ll_dealloc s p l = Val s' \<and> ll_exact_inv lo hi s' (L - {(p, l)})"
    if "ll_exact_inv lo hi s L" "(p, l) \<in> L"
  proof -
    have i: "ll_inv lo hi s L" "finite L" using that by (simp_all add: ll_exact_inv_def)
    then have "block_fits lo hi (p, l)" using that(2) by (auto simp: ll_inv_def)
    from ll_dealloc_eq [OF this, of s] ll_dealloc_block [OF i(1) that(2)] that i(2) show ?thesis
      by (auto simp: ll_exact_inv_def free_total_def sum_diff1)
  qed
  show "returns (ll_alloc s l)" if "ll_exact_inv lo hi s L" "node_aligned l"
    using that unfolding ll_exact_inv_def node_aligned_def by (blast intro: ll.alloc_returns)
qed

section \<open>Properties\<close>

lemma ll_run_panics:
  assumes "ll_inv lo hi s L" "list_all (op_ok layout_ok) xs" "\<not> list_all (op_ok ll_layout_ok) xs"
  shows "run_ops ll_alloc ll_dealloc s L xs = Panic (ExplicitPanic ''adjusting alignment failed'')"
  using assms
proof (induction xs arbitrary: s L)
  case (Cons x xs)
  show ?case
  proof (cases "op_ok ll_layout_ok x")
    case False
    then obtain l where "x = Alloc l" "layout_ok l" "\<not> ll_layout_ok l"
      using Cons.prems(2) by (auto simp: op_ok_def split: heap_op.splits)
    then show ?thesis by (simp add: ll_alloc_def size_align_panics)
  next
    case True
    show ?thesis
    proof (cases x)
      case (Alloc l)
      with True have l: "ll_layout_ok l" by (simp add: op_ok_def)
      obtain p s' where al: "ll_alloc s l = Val (p, s')"
        using ll.alloc_returns [OF Cons.prems(1) l] by (auto simp: returns_iff)
      from Cons.IH [OF ll.alloc_inv [OF Cons.prems(1) l al]] Cons.prems True Alloc al show ?thesis by simp
    next
      case (Free p l)
      with Cons True ll.dealloc_block [OF Cons.prems(1)] show ?thesis by fastforce
    qed
  qed
qed simp

text \<open>
  C13: From \<^verbatim>\<open>init\<close> on an aligned heap, take any history of requests with valid layouts and of returns of
  blocks still held.  If every size fits when rounded up to the alignment of a node (\<open>ll_layout_ok\<close>), the
  history ends without a panic, so that none of the assertions of \<^verbatim>\<open>add_free_region\<close> fails, and the
  blocks held are aligned as asked, inside the heap and pairwise disjoint.  Otherwise, with a size
  within 8 bytes of \<open>2^63\<close>, it panics in \<^verbatim>\<open>size_align\<close> instead of returning a null pointer.
\<close>

theorem linked_list_histories:
  assumes "0 \<le> lo" "8 dvd lo" "16 \<le> n" "lo + n \<le> 0x8000000000000000" "list_all (op_ok layout_ok) xs"
  shows "\<exists>s. ll_init ll_new lo n = Val s \<and>
    (if list_all (op_ok ll_layout_ok) xs
     then \<exists>s' L. run_ops ll_alloc ll_dealloc s {} xs = Val (s', L) \<and> blocks_ok lo (lo + n) L
     else run_ops ll_alloc ll_dealloc s {} xs = Panic (ExplicitPanic ''adjusting alignment failed''))"
  using ll_init_inv(1) [OF assms(1-4)] ll.run_ops_blocks [OF ll_init_inv(2) [OF assms(1-4)]]
    ll_run_panics [OF ll_init_inv(2) [OF assms(1-4)] assms(5)] by auto

theorem linked_list_histories_witness:
  "\<exists>s s' L. ll_init ll_new 4096 256 = Val s
    \<and> run_ops ll_alloc ll_dealloc s {}
        [Alloc \<lparr>lay_size = 3, lay_align = 1\<rparr>, Alloc \<lparr>lay_size = 40, lay_align = 32\<rparr>,
         Free 4096 \<lparr>lay_size = 3, lay_align = 1\<rparr>, Alloc \<lparr>lay_size = 999, lay_align = 8\<rparr>] = Val (s', L)
    \<and> blocks_ok 4096 (4096 + 256) L"
proof -
  let ?xs = "[Alloc \<lparr>lay_size = 3, lay_align = 1\<rparr>, Alloc \<lparr>lay_size = 40, lay_align = 32\<rparr>,
         Free 4096 \<lparr>lay_size = 3, lay_align = 1\<rparr>, Alloc \<lparr>lay_size = 999, lay_align = 8\<rparr>]"
  have "list_all (op_ok layout_ok) ?xs" "list_all (op_ok ll_layout_ok) ?xs"
    by (simp_all add: op_ok_def ll_layout_ok_def layout_ok_def upt_rec)
  with linked_list_histories [of 4096 256 ?xs] show ?thesis by auto
qed

text \<open>
  C14: As long as no request asks for more than the alignment of a node, the allocator loses no
  memory: after any history the free regions and the blocks held, each at the size it was rounded up
  to, add up to the heap.  Giving everything back restores all of it.
\<close>

theorem linked_list_no_leak:
  assumes "0 \<le> lo" "8 dvd lo" "16 \<le> n" "lo + n \<le> 0x8000000000000000" "list_all (op_ok node_aligned) xs"
  shows "\<exists>s s' L. ll_init ll_new lo n = Val s \<and> run_ops ll_alloc ll_dealloc s {} xs = Val (s', L)
    \<and> free_total s' + (\<Sum>b \<in> L. ll_size (snd b)) = n"
proof -
  let ?s = "\<lparr>head_next = [\<lparr>node_addr = lo, node_size = n\<rparr>]\<rparr>"
  have i: "ll_exact_inv lo (lo + n) ?s {}"
    using ll_init_inv(2) [OF assms(1-4)] by (simp add: ll_exact_inv_def free_total_def)
  obtain s' L where r: "run_ops ll_alloc ll_dealloc ?s {} xs = Val (s', L)"
    using ll_exact.run_ops_returns [OF i assms(5)] by (auto simp: returns_iff)
  with ll_exact.run_ops_inv [OF i assms(5) r] ll_init_inv(1) [OF assms(1-4)] show ?thesis
    by (auto simp: ll_exact_inv_def)
qed

theorem linked_list_no_leak_witness:
  "\<exists>s s' L. ll_init ll_new 4096 256 = Val s
    \<and> run_ops ll_alloc ll_dealloc s {}
        [Alloc \<lparr>lay_size = 3, lay_align = 1\<rparr>, Alloc \<lparr>lay_size = 40, lay_align = 8\<rparr>,
         Free 4096 \<lparr>lay_size = 3, lay_align = 1\<rparr>] = Val (s', L)
    \<and> free_total s' + (\<Sum>b \<in> L. ll_size (snd b)) = 256"
  by (rule linked_list_no_leak) (simp_all add: op_ok_def node_aligned_def ll_layout_ok_def layout_ok_def upt_rec)

text \<open>Free memory and blocks held never add up to more than they once did.\<close>

definition ll_bound_inv :: "addr \<Rightarrow> addr \<Rightarrow> addr \<Rightarrow> LinkedListAllocator \<Rightarrow> block set \<Rightarrow> bool" where
  "ll_bound_inv t lo hi s L \<longleftrightarrow> ll_inv lo hi s L \<and> finite L \<and> free_total s + (\<Sum>b \<in> L. ll_size (snd b)) \<le> t"

interpretation ll_bound: heap_allocator ll_alloc ll_dealloc "ll_bound_inv t lo hi" ll_layout_ok lo hi for t lo hi
proof unfold_locales
  fix s L l s' p
  show "blocks_ok lo hi L" if "ll_bound_inv t lo hi s L" using that unfolding ll_bound_inv_def by (blast intro: ll_inv_blocks)
  show "ll_bound_inv t lo hi s' L" if "ll_bound_inv t lo hi s L" "ll_layout_ok l" "ll_alloc s l = Val (None, s')"
  proof -
    have "ll_inv lo hi s L" using that by (simp add: ll_bound_inv_def)
    from this that(2) show ?thesis by (cases rule: ll_alloc_cases) (use that in auto)
  qed
  show "(p, l) \<notin> L \<and> ll_bound_inv t lo hi s' (insert (p, l) L)"
    if "ll_bound_inv t lo hi s L" "ll_layout_ok l" "ll_alloc s l = Val (Some p, s')"
  proof -
    have i: "ll_inv lo hi s L" using that by (simp add: ll_bound_inv_def)
    have "free_total s' + ll_size l \<le> free_total s" using ll_alloc_total [OF i that(2,3)] by auto
    with ll_alloc_block [OF i that(2,3)] that(1) show ?thesis by (simp add: ll_bound_inv_def)
  qed
  show "\<exists>s'. ll_dealloc s p l = Val s' \<and> ll_bound_inv t lo hi s' (L - {(p, l)})"
    if "ll_bound_inv t lo hi s L" "(p, l) \<in> L"
  proof -
    have i: "ll_inv lo hi s L" "finite L" using that by (simp_all add: ll_bound_inv_def)
    then have "block_fits lo hi (p, l)" using that(2) by (auto simp: ll_inv_def)
    from ll_dealloc_eq [OF this, of s] ll_dealloc_block [OF i(1) that(2)] that i(2) show ?thesis
      by (auto simp: ll_bound_inv_def free_total_def sum_diff1)
  qed
  show "returns (ll_alloc s l)" if "ll_bound_inv t lo hi s L" "ll_layout_ok l"
    using that unfolding ll_bound_inv_def by (blast intro: ll.alloc_returns)
qed

text \<open>
  C32: A block that does not start where its free region starts loses the bytes in front of it for good:
  they are in no region any more, and whatever is requested and given back afterwards, the free
  regions and the blocks held stay at least that much below what they were before the request.
\<close>

theorem linked_list_alignment_leak:
  assumes "ll_inv lo hi s L" "finite L" "ll_layout_ok l" "ll_alloc s l = Val (Some p, s1)" "list_all (op_ok ll_layout_ok) xs"
  shows "\<exists>r \<in> set (head_next s). node_addr r \<le> p \<and> p + ll_size l \<le> node_addr r + node_size r
    \<and> (\<exists>s' L'. run_ops ll_alloc ll_dealloc s1 (insert (p, l) L) xs = Val (s', L')
        \<and> free_total s' + (\<Sum>b \<in> L'. ll_size (snd b))
            \<le> free_total s + (\<Sum>b \<in> L. ll_size (snd b)) - (p - node_addr r))"
  using assms(1,3)
proof (cases rule: ll_alloc_cases)
  case none
  with assms(4) show ?thesis by simp
next
  case (some xs' r ys a)
  then have s1: "s1 = carve s (xs' @ ys) r (a + ll_size l)" "p = a" using assms(4) by simp_all
  have tot: "free_total s = free_total s1 + ll_size l + (p - node_addr r)"
    using some(1) s1 by (auto simp: free_total_def carve_def)
  let ?t = "free_total s + (\<Sum>b \<in> L. ll_size (snd b)) - (p - node_addr r)"
  have inv: "ll_bound_inv ?t lo hi s1 (insert (p, l) L)"
    using ll_alloc_block [OF assms(1,3,4)] tot assms(2) by (simp add: ll_bound_inv_def)
  obtain s' L' where run: "run_ops ll_alloc ll_dealloc s1 (insert (p, l) L) xs = Val (s', L')"
    using ll_bound.run_ops_returns [OF inv assms(5)] by (auto simp: returns_iff)
  from ll_bound.run_ops_inv [OF inv assms(5) run] have "free_total s' + (\<Sum>b \<in> L'. ll_size (snd b)) \<le> ?t"
    by (simp add: ll_bound_inv_def)
  with run some(1,2,5) s1(2) show ?thesis by (intro bexI [of _ r]) (auto simp: suits_def)
qed

text \<open>A block of 16 bytes aligned to 32 from a heap of 128 bytes that starts 24 bytes before a multiple of 32.\<close>

theorem linked_list_alignment_leak_witness:
  "\<exists>s1 s' L'. ll_alloc \<lparr>head_next = [\<lparr>node_addr = 4104, node_size = 128\<rparr>]\<rparr> \<lparr>lay_size = 16, lay_align = 32\<rparr> = Val (Some 4128, s1)
     \<and> run_ops ll_alloc ll_dealloc s1 {(4128, \<lparr>lay_size = 16, lay_align = 32\<rparr>)} [Free 4128 \<lparr>lay_size = 16, lay_align = 32\<rparr>] = Val (s', L')
     \<and> free_total s' + (\<Sum>b \<in> L'. ll_size (snd b)) \<le> 104"
proof -
  let ?l = "\<lparr>lay_size = 16, lay_align = 32\<rparr>" and ?s = "\<lparr>head_next = [\<lparr>node_addr = 4104, node_size = 128\<rparr>]\<rparr>"
  have l: "ll_layout_ok ?l" by (simp add: ll_layout_ok_def layout_ok_def upt_rec)
  have inv: "ll_inv 4104 (4104 + 128) ?s {}" by (rule ll_init_inv(2)) simp_all
  have "rbind (ll_alloc ?s ?l) (\<lambda>(p, s). Val p) = Val (Some 4128)" by code_simp
  then obtain s1 where a: "ll_alloc ?s ?l = Val (Some 4128, s1)" by (auto simp: run_simps)
  have "list_all (op_ok ll_layout_ok) [Free 4128 ?l]" by (simp add: op_ok_def)
  from linked_list_alignment_leak [OF inv _ l a this] a show ?thesis by (auto simp: free_total_def)
qed

end
