(* ===== verification/Fixed_Block.thy ===== *)
theory Fixed_Block
  imports Linked_List
begin

text \<open>
  The fixed-size block allocator, \<^verbatim>\<open>src/src/allocator/fixed_size_block.rs\<close>: nine lists of free blocks
  in front of a fallback heap.  The fallback is \<^verbatim>\<open>linked_list_allocator::Heap\<close>, a crate: its state
  \<open>'h\<close> and its operations \<open>init\<close>, \<open>al\<close> (\<^verbatim>\<open>allocate_first_fit\<close>, \<open>None\<close> for \<^verbatim>\<open>Err\<close>) and \<open>de\<close> (\<^verbatim>\<open>deallocate\<close>)
  are parameters, with the contract of an allocator as the hypothesis.  A list head owns its nodes
  (\<^verbatim>\<open>Option<&'static mut ListNode>\<close>), so each list is the list of the addresses of its nodes.  A
  \<^verbatim>\<open>ListNode\<close> has size and alignment 8.
\<close>

section \<open>Data and operations\<close>

definition BLOCK_SIZES :: "addr list" where
  "BLOCK_SIZES = [8, 16, 32, 64, 128, 256, 512, 1024, 2048]"

record 'h FixedSizeBlockAllocator =
  list_heads :: "addr list list"
  fallback_allocator :: 'h

definition fsb_new :: "'h \<Rightarrow> 'h FixedSizeBlockAllocator" where
  "fsb_new h = \<lparr>list_heads = replicate (length BLOCK_SIZES) [], fallback_allocator = h\<rparr>"

definition fsb_init ::
    "('h \<Rightarrow> addr \<Rightarrow> addr \<Rightarrow> 'h run) \<Rightarrow> 'h FixedSizeBlockAllocator \<Rightarrow> addr \<Rightarrow> addr \<Rightarrow> 'h FixedSizeBlockAllocator run" where
  "fsb_init init s heap_start heap_size =
     rbind (init (fallback_allocator s) heap_start heap_size) (\<lambda>h. Val (s\<lparr>fallback_allocator := h\<rparr>))"

definition fallback_alloc ::
    "('h \<Rightarrow> Layout \<Rightarrow> (addr option \<times> 'h) run) \<Rightarrow> 'h FixedSizeBlockAllocator \<Rightarrow> Layout \<Rightarrow>
     (addr option \<times> 'h FixedSizeBlockAllocator) run" where
  "fallback_alloc al s layout =
     rbind (al (fallback_allocator s) layout) (\<lambda>(p, h). Val (p, s\<lparr>fallback_allocator := h\<rparr>))"

definition list_index :: "Layout \<Rightarrow> nat option" where
  "list_index layout =
     (let required_block_size = max (lay_size layout) (lay_align layout) in
      List.find (\<lambda>i. BLOCK_SIZES ! i \<ge> required_block_size) [0..<length BLOCK_SIZES])"

text \<open>\<^verbatim>\<open>Layout::from_size_align\<close>: the alignment is a power of two and the size fits when rounded up to it.\<close>

definition from_size_align :: "addr \<Rightarrow> addr \<Rightarrow> Layout option" where
  "from_size_align n align =
     (if align \<in> set (map (\<lambda>k. 2 ^ k) [0..<64]) \<and> n \<le> 0x8000000000000000 - align
      then Some \<lparr>lay_size = n, lay_align = align\<rparr> else None)"

definition fsb_alloc ::
    "('h \<Rightarrow> Layout \<Rightarrow> (addr option \<times> 'h) run) \<Rightarrow> 'h FixedSizeBlockAllocator \<Rightarrow> Layout \<Rightarrow>
     (addr option \<times> 'h FixedSizeBlockAllocator) run" where
  "fsb_alloc al s layout =
     (case list_index layout of
        Some idx \<Rightarrow>
          (case list_heads s ! idx of
             node # rest \<Rightarrow> Val (Some node, s\<lparr>list_heads := (list_heads s)[idx := rest]\<rparr>)
           | [] \<Rightarrow>
               let block_size = BLOCK_SIZES ! idx; block_align = block_size in
               (case from_size_align block_size block_align of
                  None \<Rightarrow> Panic UnwrapNone
                | Some layout \<Rightarrow> fallback_alloc al s layout))
      | None \<Rightarrow> fallback_alloc al s layout)"

definition fsb_dealloc ::
    "('h \<Rightarrow> addr \<Rightarrow> Layout \<Rightarrow> 'h run) \<Rightarrow> 'h FixedSizeBlockAllocator \<Rightarrow> addr \<Rightarrow> Layout \<Rightarrow>
     'h FixedSizeBlockAllocator run" where
  "fsb_dealloc de s p layout =
     (case list_index layout of
        Some idx \<Rightarrow>
          if \<not> 8 \<le> BLOCK_SIZES ! idx then Panic AssertFailed
          else Val (s\<lparr>list_heads := (list_heads s)[idx := p # list_heads s ! idx]\<rparr>)
      | None \<Rightarrow>
          if p = 0 then Panic UnwrapNone
          else rbind (de (fallback_allocator s) p layout) (\<lambda>h. Val (s\<lparr>fallback_allocator := h\<rparr>)))"

section \<open>Block sizes\<close>

text \<open>The layout a class asks of the fallback allocator.\<close>

definition block_layout :: "nat \<Rightarrow> Layout" where
  "block_layout i = \<lparr>lay_size = BLOCK_SIZES ! i, lay_align = BLOCK_SIZES ! i\<rparr>"

lemma block_sizes:
  assumes "i < 9"
  shows "layout_ok (block_layout i)" "8 \<le> BLOCK_SIZES ! i" "\<exists>k. BLOCK_SIZES ! i = 2 ^ k"
    "from_size_align (BLOCK_SIZES ! i) (BLOCK_SIZES ! i) = Some (block_layout i)"
proof -
  have "list_all (\<lambda>i. layout_ok (block_layout i) \<and> 8 \<le> BLOCK_SIZES ! i \<and> BLOCK_SIZES ! i = 2 ^ (i + 3)
      \<and> from_size_align (BLOCK_SIZES ! i) (BLOCK_SIZES ! i) = Some (block_layout i)) [0..<9]"
    by code_simp
  note all = this [unfolded list_all_iff]
  have "i \<in> set [0..<9]" using assms by simp
  from bspec [OF all this] show "layout_ok (block_layout i)" "8 \<le> BLOCK_SIZES ! i" "\<exists>k. BLOCK_SIZES ! i = 2 ^ k"
    "from_size_align (BLOCK_SIZES ! i) (BLOCK_SIZES ! i) = Some (block_layout i)" by blast+
qed

lemma length_BLOCK_SIZES: "length BLOCK_SIZES = 9"
  by (simp add: BLOCK_SIZES_def)

text \<open>The block a layout is served with: large enough, and aligned well enough.\<close>

lemma list_index_Some:
  assumes "list_index l = Some i" "layout_ok l"
  shows "i < 9" "lay_size l \<le> BLOCK_SIZES ! i" "lay_align l dvd BLOCK_SIZES ! i"
proof -
  from assms(1) have i: "i \<in> set [0..<length BLOCK_SIZES]" "max (lay_size l) (lay_align l) \<le> BLOCK_SIZES ! i"
    by (auto simp: list_index_def Let_def find_Some_iff)
  then show "i < 9" "lay_size l \<le> BLOCK_SIZES ! i" by (simp_all add: length_BLOCK_SIZES)
  obtain k m where k: "lay_align l = 2 ^ k" "BLOCK_SIZES ! i = 2 ^ m"
    using layout_okD(4) [OF assms(2)] block_sizes(3) [OF \<open>i < 9\<close>] by blast
  with i(2) have "k \<le> m" using power_le_imp_le_exp [of "2 :: int" k m] by simp
  with k show "lay_align l dvd BLOCK_SIZES ! i" by (simp add: le_imp_power_dvd)
qed

section \<open>Invariant\<close>

text \<open>A block of the client as the fallback allocator sees it, and the blocks kept in the lists.\<close>

definition served :: "block \<Rightarrow> block" where
  "served b = (fst b, case list_index (snd b) of Some i \<Rightarrow> block_layout i | None \<Rightarrow> snd b)"

definition free_blocks :: "'h FixedSizeBlockAllocator \<Rightarrow> block set" where
  "free_blocks s = {(p, block_layout i) | p i. i < 9 \<and> p \<in> set (list_heads s ! i)}"

definition fsb_ok :: "(Layout \<Rightarrow> bool) \<Rightarrow> Layout \<Rightarrow> bool" where
  "fsb_ok ok l \<longleftrightarrow> layout_ok l \<and> (list_index l = None \<longrightarrow> ok l)"

definition fsb_inv :: "('h \<Rightarrow> block set \<Rightarrow> bool) \<Rightarrow> 'h FixedSizeBlockAllocator \<Rightarrow> block set \<Rightarrow> bool" where
  "fsb_inv hinv s L \<longleftrightarrow> length (list_heads s) = 9 \<and> (\<forall>i < 9. distinct (list_heads s ! i)) \<and> inj_on fst L
     \<and> (\<forall>b \<in> L. layout_ok (snd b)) \<and> served ` L \<inter> free_blocks s = {}
     \<and> hinv (fallback_allocator s) (served ` L \<union> free_blocks s)"

lemma served_bounds:
  assumes "layout_ok (snd b)"
  shows "fst (served b) = fst b" "lay_size (snd b) \<le> lay_size (snd (served b))"
    "lay_align (snd b) dvd lay_align (snd (served b))" "0 < lay_size (snd (served b))"
proof -
  show "fst (served b) = fst b" by (simp add: served_def)
  show "lay_size (snd b) \<le> lay_size (snd (served b))" "lay_align (snd b) dvd lay_align (snd (served b))"
    "0 < lay_size (snd (served b))"
    using list_index_Some [OF _ assms] layout_okD(2) [OF assms] block_sizes(2)
    by (fastforce simp: served_def block_layout_def split: option.splits)+
qed

lemma block_layout_inj: "i < 9 \<Longrightarrow> j < 9 \<Longrightarrow> block_layout i = block_layout j \<Longrightarrow> i = j"
proof -
  assume "i < 9" "j < 9" "block_layout i = block_layout j"
  then have "BLOCK_SIZES ! i = BLOCK_SIZES ! j" by (simp add: block_layout_def)
  moreover have "distinct BLOCK_SIZES" by (simp add: BLOCK_SIZES_def)
  ultimately show "i = j" using \<open>i < 9\<close> \<open>j < 9\<close> by (simp add: nth_eq_iff_index_eq length_BLOCK_SIZES)
qed

lemma same_start:
  assumes "blocks_ok lo hi U" "b \<in> U" "c \<in> U" "fst b = fst c" "0 < lay_size (snd b)" "0 < lay_size (snd c)"
  shows "b = c"
  using assms by (fastforce simp: blocks_ok_def apart_def)

lemma free_blocks_pos: "b \<in> free_blocks s \<Longrightarrow> 0 < lay_size (snd b)"
  using block_sizes(2) by (fastforce simp: free_blocks_def block_layout_def)

lemma free_blocks_mem: "i < 9 \<Longrightarrow> (p, block_layout i) \<in> free_blocks s \<longleftrightarrow> p \<in> set (list_heads s ! i)"
  unfolding free_blocks_def using block_layout_inj by fast

lemma free_blocks_update:
  fixes s :: "'a FixedSizeBlockAllocator"
  assumes "length (list_heads s) = 9" "i < 9"
  shows "free_blocks (s\<lparr>list_heads := (list_heads s)[i := ps]\<rparr>) =
    {b \<in> free_blocks s. snd b \<noteq> block_layout i} \<union> (\<lambda>p. (p, block_layout i)) ` set ps"
proof (rule set_eqI)
  fix b
  let ?s = "s\<lparr>list_heads := (list_heads s)[i := ps]\<rparr>"
  have hd: "list_heads ?s ! j = (if j = i then ps else list_heads s ! j)" if "j < 9" for j
    using that assms by simp
  show "b \<in> free_blocks ?s \<longleftrightarrow> b \<in> {b \<in> free_blocks s. snd b \<noteq> block_layout i} \<union> (\<lambda>p. (p, block_layout i)) ` set ps"
  proof (cases "snd b = block_layout i")
    case True
    then obtain p where b: "b = (p, block_layout i)" by (metis prod.collapse)
    show ?thesis using hd [OF assms(2)] by (auto simp: b free_blocks_mem [OF assms(2)])
  next
    case False
    have "b \<in> free_blocks t \<longleftrightarrow> (\<exists>j < 9. j \<noteq> i \<and> snd b = block_layout j \<and> fst b \<in> set (list_heads t ! j))" for t :: "'a FixedSizeBlockAllocator"
      using False by (cases b) (auto simp: free_blocks_def)
    with False hd show ?thesis by auto
  qed
qed

lemma free_blocks_fallback [simp]: "free_blocks (s\<lparr>fallback_allocator := h\<rparr>) = free_blocks s"
  by (simp add: free_blocks_def)

section \<open>The contract\<close>

text \<open>
  What the allocator relies on of its fallback, \<^verbatim>\<open>linked_list_allocator::Heap\<close>: it meets the contract
  of an allocator, serves the nine block layouts, and hands out no null pointer.
\<close>

locale block_fallback = heap_allocator al de inv ok lo hi
  for al :: "'h \<Rightarrow> Layout \<Rightarrow> (addr option \<times> 'h) run" and de inv ok lo hi +
  assumes lo_pos: "inv h U \<Longrightarrow> 0 < lo"
    and ok_block: "i < 9 \<Longrightarrow> ok (block_layout i)"
begin

lemma fsb_blocks:
  assumes "fsb_inv inv s L"
  shows "blocks_ok lo hi L"
proof -
  have "inv (fallback_allocator s) (served ` L \<union> free_blocks s)" using assms by (simp add: fsb_inv_def)
  from blocks [OF this] have U: "blocks_ok lo hi (served ` L)" by (rule blocks_ok_subset) simp
  have l: "\<And>b. b \<in> L \<Longrightarrow> layout_ok (snd b)" and inj: "inj_on fst L" using assms by (simp_all add: fsb_inv_def)
  show ?thesis
    unfolding blocks_ok_def
  proof (intro conjI ballI impI)
    fix b assume b: "b \<in> L"
    then have "lay_align (snd (served b)) dvd fst (served b)" "lo \<le> fst (served b)"
      "fst (served b) + lay_size (snd (served b)) \<le> hi" using U by (simp_all add: blocks_ok_def)
    with served_bounds [OF l [OF b]]
    show "lay_align (snd b) dvd fst b" "lo \<le> fst b" "fst b + lay_size (snd b) \<le> hi" by (auto intro: dvd_trans)
  next
    fix b c assume "b \<in> L" "c \<in> L" "b \<noteq> c"
    then have "fst b \<noteq> fst c" using inj by (auto simp: inj_on_def)
    with served_bounds(1) [OF l [OF \<open>b \<in> L\<close>]] served_bounds(1) [OF l [OF \<open>c \<in> L\<close>]]
    have "served b \<noteq> served c" by metis
    then have "apart (served b) (served c)" using U \<open>b \<in> L\<close> \<open>c \<in> L\<close> by (simp add: blocks_ok_def)
    with served_bounds [OF l [OF \<open>b \<in> L\<close>]] served_bounds [OF l [OF \<open>c \<in> L\<close>]] show "apart b c"
      by (auto simp: apart_def)
  qed
qed

lemma fallback_cases:
  assumes "fsb_inv inv s L" "layout_ok l" "ok (snd (served (p0, l)))"
  obtains (null) h where "fallback_alloc al s (snd (served (p0, l))) = Val (None, s\<lparr>fallback_allocator := h\<rparr>)"
      "fsb_inv inv (s\<lparr>fallback_allocator := h\<rparr>) L"
    | (block) p h where "fallback_alloc al s (snd (served (p0, l))) = Val (Some p, s\<lparr>fallback_allocator := h\<rparr>)"
      "(p, l) \<notin> L" "fsb_inv inv (s\<lparr>fallback_allocator := h\<rparr>) (insert (p, l) L)"
proof -
  let ?U = "served ` L \<union> free_blocks s" and ?l = "snd (served (p0, l))"
  have i: "inv (fallback_allocator s) ?U" using assms(1) by (simp add: fsb_inv_def)
  obtain r h where r: "al (fallback_allocator s) ?l = Val (r, h)"
    using alloc_returns [OF i assms(3)] by (auto simp: returns_iff)
  then have eq: "fallback_alloc al s ?l = Val (r, s\<lparr>fallback_allocator := h\<rparr>)" by (simp add: fallback_alloc_def)
  show thesis
  proof (cases r)
    case None
    with alloc_null [OF i assms(3)] r have "inv h ?U" by simp
    with assms(1) have "fsb_inv inv (s\<lparr>fallback_allocator := h\<rparr>) L" by (simp add: fsb_inv_def)
    with null eq None show thesis by simp
  next
    case (Some p)
    with alloc_block [OF i assms(3)] r have new: "(p, ?l) \<notin> ?U" "inv h (insert (p, ?l) ?U)" by simp_all
    have sv: "served (p, l) = (p, ?l)" by (cases "list_index l") (simp_all add: served_def)
    have other: "fst b \<noteq> p" if "b \<in> L" for b
    proof
      assume "fst b = p"
      moreover have "layout_ok (snd b)" using assms(1) that by (simp add: fsb_inv_def)
      ultimately have "served b = (p, ?l)"
        using that served_bounds [of b] served_bounds(4) [of "(p, l)"] assms(2) sv
        by (intro same_start [OF blocks [OF new(2)]]) auto
      with new(1) that show False by (auto simp: image_iff)
    qed
    then have "(p, l) \<notin> L" by force
    moreover have "inj_on fst (insert (p, l) L)" using assms(1) other by (force simp: fsb_inv_def inj_on_insert)
    then have "fsb_inv inv (s\<lparr>fallback_allocator := h\<rparr>) (insert (p, l) L)"
      using assms(1,2) new sv by (simp add: fsb_inv_def)
    ultimately show thesis using block eq Some by simp
  qed
qed

text \<open>A block taken from a list.\<close>

lemma fsb_pop:
  assumes "fsb_inv inv s L" "layout_ok l" "list_index l = Some i" "list_heads s ! i = p # ps"
  shows "(p, l) \<notin> L" "fsb_inv inv (s\<lparr>list_heads := (list_heads s)[i := ps]\<rparr>) (insert (p, l) L)"
proof -
  let ?s = "s\<lparr>list_heads := (list_heads s)[i := ps]\<rparr>" and ?b = "(p, block_layout i)"
  note ix = list_index_Some [OF assms(3,2)]
  have inv: "length (list_heads s) = 9" "distinct (p # ps)" "inj_on fst L" "served ` L \<inter> free_blocks s = {}"
    "inv (fallback_allocator s) (served ` L \<union> free_blocks s)" "\<And>b. b \<in> L \<Longrightarrow> layout_ok (snd b)"
    using assms(1,4) ix(1) by (auto simp: fsb_inv_def)
  have b: "?b \<in> free_blocks s" using assms(4) by (simp add: free_blocks_mem [OF ix(1)])
  have sb: "served (p, l) = ?b" by (simp add: served_def assms(3))
  have free: "free_blocks ?s = free_blocks s - {?b}"
    unfolding free_blocks_update [OF inv(1) ix(1)] using assms(4) inv(2) free_blocks_mem [OF ix(1), of _ s]
    by (auto simp: image_iff)
  have other: "fst c \<noteq> p" if "c \<in> L" for c
  proof
    assume "fst c = p"
    then have "served c = ?b"
      using that served_bounds [OF inv(6) [OF that]] b free_blocks_pos [OF b]
      by (intro same_start [OF blocks [OF inv(5)]]) auto
    with b inv(4) that show False by (auto simp: image_iff)
  qed
  then show "(p, l) \<notin> L" by force
  have "served ` insert (p, l) L \<union> free_blocks ?s = served ` L \<union> free_blocks s"
    "served ` insert (p, l) L \<inter> free_blocks ?s = {}"
    using free sb b inv(4) by auto
  moreover have "\<forall>j < 9. distinct (list_heads ?s ! j)"
    using assms(1) inv(1,2) ix(1) by (auto simp: fsb_inv_def nth_list_update)
  moreover have "inj_on fst (insert (p, l) L)" using inv(3) other by (force simp: inj_on_insert)
  ultimately show "fsb_inv inv ?s (insert (p, l) L)" using inv(1,5,6) assms(2) by (simp add: fsb_inv_def)
qed

lemma fsb_alloc_cases:
  assumes "fsb_inv inv s L" "fsb_ok ok l"
  obtains (null) s' where "fsb_alloc al s l = Val (None, s')" "fsb_inv inv s' L"
    | (block) p s' where "fsb_alloc al s l = Val (Some p, s')" "(p, l) \<notin> L" "fsb_inv inv s' (insert (p, l) L)"
proof -
  have l: "layout_ok l" using assms(2) by (simp add: fsb_ok_def)
  have fallback: thesis if "ok (snd (served (0, l)))" "fsb_alloc al s l = fallback_alloc al s (snd (served (0, l)))"
    by (rule fallback_cases [OF assms(1) l that(1)]) (rule null block; simp add: that(2))+
  show thesis
  proof (cases "list_index l")
    case None
    with assms(2) show thesis by (intro fallback) (simp_all add: served_def fsb_alloc_def fsb_ok_def)
  next
    case (Some i)
    show thesis
    proof (cases "list_heads s ! i")
      case Nil
      note i = list_index_Some(1) [OF Some l]
      from Nil Some ok_block [OF i] show thesis
        by (intro fallback) (simp_all add: served_def fsb_alloc_def block_sizes(4) [OF i])
    next
      case (Cons p ps)
      then have "fsb_alloc al s l = Val (Some p, s\<lparr>list_heads := (list_heads s)[i := ps]\<rparr>)"
        by (simp add: fsb_alloc_def Some)
      from block [OF this fsb_pop [OF assms(1) l Some Cons]] show thesis .
    qed
  qed
qed

lemma fsb_dealloc_block:
  assumes "fsb_inv inv s L" "(p, l) \<in> L"
  shows "\<exists>s'. fsb_dealloc de s p l = Val s' \<and> fsb_inv inv s' (L - {(p, l)})"
proof -
  have inv: "length (list_heads s) = 9" "\<forall>i < 9. distinct (list_heads s ! i)" "inj_on fst L"
    "served ` L \<inter> free_blocks s = {}" "inv (fallback_allocator s) (served ` L \<union> free_blocks s)"
    "\<And>b. b \<in> L \<Longrightarrow> layout_ok (snd b)"
    using assms(1) by (auto simp: fsb_inv_def)
  have l: "layout_ok l" using inv(6) [OF assms(2)] by simp
  have "inj_on served L" using inv(3) by (auto simp: inj_on_def served_def)
  then have img: "served ` (L - {(p, l)}) = served ` L - {served (p, l)}"
    using inj_on_image_set_diff [of served L L "{(p, l)}"] assms(2) by auto
  have sub: "inj_on fst (L - {(p, l)})" using inv(3) by (rule inj_on_diff)
  have mem: "served (p, l) \<in> served ` L" "served (p, l) \<notin> free_blocks s" using assms(2) inv(4) by auto
  show ?thesis
  proof (cases "list_index l")
    case None
    then have sv: "served (p, l) = (p, l)" by (simp add: served_def)
    have "(p, l) \<in> served ` L \<union> free_blocks s" using mem sv by simp
    from dealloc_block [OF inv(5) this] obtain h where h: "de (fallback_allocator s) p l = Val h"
      "inv h (served ` L \<union> free_blocks s - {(p, l)})" by blast
    have "lo \<le> p" using fsb_blocks [OF assms(1)] assms(2) by (force simp: blocks_ok_def)
    with lo_pos [OF inv(5)] have "p \<noteq> 0" by simp
    with None h(1) have "fsb_dealloc de s p l = Val (s\<lparr>fallback_allocator := h\<rparr>)" by (simp add: fsb_dealloc_def)
    moreover have "served ` L \<union> free_blocks s - {(p, l)} = served ` (L - {(p, l)}) \<union> free_blocks s"
      using img mem sv by auto
    with h(2) inv sub img have "fsb_inv inv (s\<lparr>fallback_allocator := h\<rparr>) (L - {(p, l)})" by (auto simp: fsb_inv_def)
    ultimately show ?thesis by blast
  next
    case (Some i)
    note ix = list_index_Some [OF Some l]
    let ?s = "s\<lparr>list_heads := (list_heads s)[i := p # list_heads s ! i]\<rparr>"
    have sv: "served (p, l) = (p, block_layout i)" by (simp add: served_def Some)
    have free: "free_blocks ?s = insert (served (p, l)) (free_blocks s)"
      unfolding free_blocks_update [OF inv(1) ix(1)] sv using free_blocks_mem [OF ix(1), of _ s]
      by (auto simp: image_iff)
    have "p \<notin> set (list_heads s ! i)" using mem(2) by (simp add: sv free_blocks_mem [OF ix(1)])
    then have "\<forall>j < 9. distinct (list_heads ?s ! j)" using inv(1,2) ix(1) by (auto simp: nth_list_update)
    moreover have "served ` (L - {(p, l)}) \<union> free_blocks ?s = served ` L \<union> free_blocks s"
      "served ` (L - {(p, l)}) \<inter> free_blocks ?s = {}"
      using img free mem inv(4) by auto
    ultimately have "fsb_inv inv ?s (L - {(p, l)})" using inv sub by (simp add: fsb_inv_def)
    moreover have "fsb_dealloc de s p l = Val ?s" using block_sizes(2) [OF ix(1)] by (simp add: fsb_dealloc_def Some)
    ultimately show ?thesis by blast
  qed
qed

sublocale fsb: heap_allocator "fsb_alloc al" "fsb_dealloc de" "fsb_inv inv" "fsb_ok ok" lo hi
proof unfold_locales
  fix s L l s' p
  show "blocks_ok lo hi L" if "fsb_inv inv s L" using that by (rule fsb_blocks)
  show "fsb_inv inv s' L" if "fsb_inv inv s L" "fsb_ok ok l" "fsb_alloc al s l = Val (None, s')"
    by (rule fsb_alloc_cases [OF that(1,2)]) (use that(3) in auto)
  show "(p, l) \<notin> L \<and> fsb_inv inv s' (insert (p, l) L)"
    if "fsb_inv inv s L" "fsb_ok ok l" "fsb_alloc al s l = Val (Some p, s')"
    by (rule fsb_alloc_cases [OF that(1,2)]) (use that(3) in auto)
  show "returns (fsb_alloc al s l)" if "fsb_inv inv s L" "fsb_ok ok l"
    by (rule fsb_alloc_cases [OF that]) auto
qed (rule fsb_dealloc_block)

lemmas fsb_histories = fsb.run_ops_blocks

end

text \<open>
  The repository's own linked-list allocator is such a fallback, on a heap that does not start at
  address 0.
\<close>

definition ll_pos_inv :: "addr \<Rightarrow> addr \<Rightarrow> LinkedListAllocator \<Rightarrow> block set \<Rightarrow> bool" where
  "ll_pos_inv lo hi s L \<longleftrightarrow> 0 < lo \<and> ll_inv lo hi s L"

interpretation ll_fallback: block_fallback ll_alloc ll_dealloc "ll_pos_inv lo hi" ll_layout_ok lo hi for lo hi
proof unfold_locales
  fix s L l s' p and i :: nat
  show "blocks_ok lo hi L" if "ll_pos_inv lo hi s L" using that ll_inv_blocks unfolding ll_pos_inv_def by blast
  show "ll_pos_inv lo hi s' L" if "ll_pos_inv lo hi s L" "ll_layout_ok l" "ll_alloc s l = Val (None, s')"
    using that ll.alloc_null unfolding ll_pos_inv_def by blast
  show "(p, l) \<notin> L \<and> ll_pos_inv lo hi s' (insert (p, l) L)"
    if "ll_pos_inv lo hi s L" "ll_layout_ok l" "ll_alloc s l = Val (Some p, s')"
    using that ll_alloc_block unfolding ll_pos_inv_def by blast
  show "\<exists>s'. ll_dealloc s p l = Val s' \<and> ll_pos_inv lo hi s' (L - {(p, l)})" if "ll_pos_inv lo hi s L" "(p, l) \<in> L"
    using that ll_dealloc_block unfolding ll_pos_inv_def by blast
  show "returns (ll_alloc s l)" if "ll_pos_inv lo hi s L" "ll_layout_ok l"
    using that ll.alloc_returns unfolding ll_pos_inv_def by blast
  show "0 < lo" if "ll_pos_inv lo hi s L" using that by (simp add: ll_pos_inv_def)
  show "ll_layout_ok (block_layout i)" if "i < 9"
  proof -
    have "list_all (\<lambda>i. BLOCK_SIZES ! i \<le> 2048) [0..<9]" by code_simp
    with that have "BLOCK_SIZES ! i \<le> 2048" by (simp add: list_all_iff)
    with block_sizes(1) [OF that] show ?thesis by (simp add: ll_layout_ok_def block_layout_def)
  qed
qed

section \<open>Properties\<close>

lemma fsb_new_inv: "hinv h {} \<Longrightarrow> fsb_inv hinv ((fsb_new h')\<lparr>fallback_allocator := h\<rparr>) {}"
proof -
  assume "hinv h {}"
  moreover have "free_blocks ((fsb_new h')\<lparr>fallback_allocator := h\<rparr>) = {}"
    by (auto simp: fsb_new_def free_blocks_def length_BLOCK_SIZES)
  ultimately show ?thesis by (simp add: fsb_inv_def fsb_new_def length_BLOCK_SIZES)
qed

text \<open>
  C16: The fixed-size block allocator over any fallback heap that meets the contract of an allocator
  (\<open>init\<close>, \<open>al\<close> and \<open>de\<close> stand for \<^verbatim>\<open>linked_list_allocator::Heap\<close>).  After \<^verbatim>\<open>init\<close>, no history of requests
  and returns panics, and the blocks held are aligned as asked, inside the heap and pairwise
  disjoint, although a block that was given back is kept in a list and handed out again for
  another size and alignment of the same class.
\<close>

theorem fixed_block_histories:
  assumes "block_fallback al de hinv ok lo hi" "init h lo (hi - lo) = Val h'" "hinv h' {}"
    "list_all (op_ok (fsb_ok ok)) xs"
  shows "\<exists>s s' L. fsb_init init (fsb_new h) lo (hi - lo) = Val s
    \<and> run_ops (fsb_alloc al) (fsb_dealloc de) s {} xs = Val (s', L) \<and> blocks_ok lo hi L"
proof -
  let ?s = "(fsb_new h)\<lparr>fallback_allocator := h'\<rparr>"
  have "fsb_init init (fsb_new h) lo (hi - lo) = Val ?s" using assms(2) by (simp add: fsb_init_def fsb_new_def)
  moreover have "fsb_inv hinv ?s {}" using assms(3) by (rule fsb_new_inv)
  from block_fallback.fsb_histories [OF assms(1) this assms(4)] calculation show ?thesis by blast
qed

theorem fixed_block_histories_witness:
  "\<exists>s s' L. fsb_init ll_init (fsb_new ll_new) 4096 (8192 - 4096) = Val s
    \<and> run_ops (fsb_alloc ll_alloc) (fsb_dealloc ll_dealloc) s {}
        [Alloc \<lparr>lay_size = 20, lay_align = 4\<rparr>, Alloc \<lparr>lay_size = 3000, lay_align = 8\<rparr>,
         Free 4096 \<lparr>lay_size = 20, lay_align = 4\<rparr>, Alloc \<lparr>lay_size = 3, lay_align = 32\<rparr>] = Val (s', L)
    \<and> blocks_ok 4096 8192 L"
proof (rule fixed_block_histories [where hinv = "ll_pos_inv 4096 8192" and ok = ll_layout_ok])
  show "block_fallback ll_alloc ll_dealloc (ll_pos_inv 4096 8192) ll_layout_ok 4096 8192"
    by (rule ll_fallback.block_fallback_axioms)
  show "ll_init ll_new 4096 (8192 - 4096) = Val \<lparr>head_next = [\<lparr>node_addr = 4096, node_size = 8192 - 4096\<rparr>]\<rparr>"
    by (rule ll_init_inv) simp_all
  show "ll_pos_inv 4096 8192 \<lparr>head_next = [\<lparr>node_addr = 4096, node_size = 8192 - 4096\<rparr>]\<rparr> {}"
    using ll_init_inv(2) [of 4096 4096] by (simp add: ll_pos_inv_def)
qed (simp add: op_ok_def fsb_ok_def ll_layout_ok_def layout_ok_def upt_rec)

end
