(* ===== verification/Slab.thy ===== *)
theory Slab
  imports Allocator
begin

unbundle bit_operations_syntax

text \<open>
  The slab allocator, \<^verbatim>\<open>src/src/allocator/slab.rs\<close>, which is the kernel's global allocator: its
  data and every operation.

  The allocator works through raw pointers, so the memory is explicit.  It is kept by field: for
  each field of \<^verbatim>\<open>ListNode\<close>, \<^verbatim>\<open>Cache\<close>, \<^verbatim>\<open>Slab\<close> and for the entries of the \<^verbatim>\<open>BufCtl\<close> tables there is a
  function from the address of the structure to the value.  What the memory holds at the start is
  arbitrary.  A null pointer is 0.  The structures are \<^verbatim>\<open>repr(C)\<close>: in a \<^verbatim>\<open>Cache\<close> the three list heads
  stand at offsets 0, 16 and 32; a \<^verbatim>\<open>Slab\<close> begins with its list node and has 40 bytes; a \<^verbatim>\<open>BufCtl\<close> has
  4 bytes.

  \<^verbatim>\<open>VirtAddr\<close> is a type of the \<^verbatim>\<open>x86_64\<close> crate.  Its constructor and its addition are the parameter
  \<open>virt_ops\<close> of the operations that use them.
\<close>

section \<open>Data\<close>

record virt_ops =
  va_new :: "addr \<Rightarrow> addr run"
  va_add :: "addr \<Rightarrow> addr \<Rightarrow> addr run"

record PageAllocator =
  pa_next :: addr
  pa_end :: addr

record slab_mem =
  ln_next :: "addr \<Rightarrow> addr"
  ln_prev :: "addr \<Rightarrow> addr"
  c_obj_size :: "addr \<Rightarrow> addr"
  c_num :: "addr \<Rightarrow> addr"
  c_name :: "addr \<Rightarrow> string"
  s_mem :: "addr \<Rightarrow> addr"
  s_free :: "addr \<Rightarrow> u32"
  s_inuse :: "addr \<Rightarrow> addr"
  bufctl :: "addr \<Rightarrow> u32"

record SlabAllocator = slab_mem +
  page_alloc :: "PageAllocator option"
  node_caches :: "addr list"

definition PAGE_SIZE :: addr where "PAGE_SIZE = 4096"

definition MAX_SLAB_SIZE :: addr where "MAX_SLAB_SIZE = 2048"

definition MAX_CLASSES :: nat where "MAX_CLASSES = 9"

definition bufctl_end :: u32 where "bufctl_end = 0xFFFFFFFF"

definition slabs_full :: "addr \<Rightarrow> addr" where "slabs_full cache = cache"

definition slabs_partial :: "addr \<Rightarrow> addr" where "slabs_partial cache = cache + 16"

definition slabs_free :: "addr \<Rightarrow> addr" where "slabs_free cache = cache + 32"

text \<open>The table of \<^verbatim>\<open>BufCtl\<close> entries behind a \<^verbatim>\<open>Slab\<close>, and \<^verbatim>\<open>bufctl_ptr.add(i)\<close>.\<close>

definition bufctl_ptr :: "addr \<Rightarrow> addr run" where "bufctl_ptr slab = usize_add slab 40"

definition bufctl_at :: "addr \<Rightarrow> addr \<Rightarrow> addr" where "bufctl_at b i = b + 4 * i"

definition CACHE_NAMES :: "string list" where
  "CACHE_NAMES = [''size-8'', ''size-16'', ''size-32'', ''size-64'', ''size-128'', ''size-256'',
     ''size-512'', ''size-1024'', ''size-2048'']"

section \<open>Lists\<close>

definition node_init :: "addr \<Rightarrow> 'a slab_mem_scheme \<Rightarrow> 'a slab_mem_scheme" where
  "node_init node s =
     (let s = s\<lparr>ln_next := (ln_next s)(node := node)\<rparr> in
      s\<lparr>ln_prev := (ln_prev s)(node := node)\<rparr>)"

definition list_add :: "addr \<Rightarrow> addr \<Rightarrow> 'a slab_mem_scheme \<Rightarrow> 'a slab_mem_scheme" where
  "list_add entry head s =
     (let s = s\<lparr>ln_next := (ln_next s)(entry := ln_next s head)\<rparr>;
          s = s\<lparr>ln_prev := (ln_prev s)(entry := head)\<rparr>;
          s = s\<lparr>ln_prev := (ln_prev s)(ln_next s head := entry)\<rparr> in
      s\<lparr>ln_next := (ln_next s)(head := entry)\<rparr>)"

definition list_del :: "addr \<Rightarrow> 'a slab_mem_scheme \<Rightarrow> 'a slab_mem_scheme" where
  "list_del entry s =
     (let s = s\<lparr>ln_next := (ln_next s)(ln_prev s entry := ln_next s entry)\<rparr> in
      s\<lparr>ln_prev := (ln_prev s)(ln_next s entry := ln_prev s entry)\<rparr>)"

definition list_empty :: "addr \<Rightarrow> 'a slab_mem_scheme \<Rightarrow> bool" where
  "list_empty head s \<longleftrightarrow> ln_next s head = head"

section \<open>Pages and caches\<close>

definition alloc_pages :: "virt_ops \<Rightarrow> PageAllocator \<Rightarrow> addr \<Rightarrow> (addr option \<times> PageAllocator) run" where
  "alloc_pages V pa num =
     rbind (usize_mul num PAGE_SIZE) (\<lambda>bytes.
     rbind (va_add V (pa_next pa) bytes) (\<lambda>e.
       if e > pa_end pa then Val (None, pa)
       else rbind (va_add V (pa_next pa) bytes) (\<lambda>n. Val (Some (pa_next pa), pa\<lparr>pa_next := n\<rparr>))))"

text \<open>\<^verbatim>\<open>SlabAllocator::new\<close>, in a memory \<open>m\<close>.\<close>

definition slab_new :: "slab_mem \<Rightarrow> SlabAllocator" where
  "slab_new m = slab_mem.extend m \<lparr>page_alloc = None, node_caches = replicate MAX_CLASSES 0\<rparr>"

definition slab_init :: "virt_ops \<Rightarrow> SlabAllocator \<Rightarrow> addr \<Rightarrow> addr \<Rightarrow> SlabAllocator run" where
  "slab_init V s heap_start heap_size =
     rbind (va_new V heap_start) (\<lambda>a.
     rbind (usize_add heap_start heap_size) (\<lambda>e.
     rbind (va_new V e) (\<lambda>b.
       Val (s\<lparr>page_alloc := Some \<lparr>pa_next = a, pa_end = b\<rparr>\<rparr>))))"

text \<open>\<^verbatim>\<open>usize::trailing_zeros\<close> and \<^verbatim>\<open>usize::next_power_of_two\<close>.\<close>

definition trailing_zeros :: "addr \<Rightarrow> nat" where
  "trailing_zeros n = length (takeWhile (\<lambda>k. \<not> bit n k) [0..<64])"

definition next_power_of_two :: "addr \<Rightarrow> addr run" where
  "next_power_of_two n =
     (case List.find (\<lambda>p. n \<le> p) (map (\<lambda>k. 2 ^ k) [0..<64]) of
        Some p \<Rightarrow> Val p
      | None \<Rightarrow> Panic ArithOverflow)"

definition size_index :: "addr \<Rightarrow> nat" where
  "size_index n = trailing_zeros n - 3"

definition cache_write :: "addr \<Rightarrow> addr \<Rightarrow> addr \<Rightarrow> string \<Rightarrow> 'a slab_mem_scheme \<Rightarrow> 'a slab_mem_scheme" where
  "cache_write c obj_size num name s =
     (let s = s\<lparr>ln_next := (ln_next s)(slabs_full c := 0, slabs_partial c := 0, slabs_free c := 0),
                ln_prev := (ln_prev s)(slabs_full c := 0, slabs_partial c := 0, slabs_free c := 0),
                c_obj_size := (c_obj_size s)(c := obj_size),
                c_num := (c_num s)(c := num),
                c_name := (c_name s)(c := name)\<rparr> in
      node_init (slabs_free c) (node_init (slabs_partial c) (node_init (slabs_full c) s)))"

definition get_or_create_cache :: "virt_ops \<Rightarrow> SlabAllocator \<Rightarrow> addr \<Rightarrow> (addr \<times> SlabAllocator) run" where
  "get_or_create_cache V s n =
     (let idx = size_index n in
      if \<not> n > 0 then Panic AssertFailed
      else
        let name = (if idx < length CACHE_NAMES then CACHE_NAMES ! idx else ''size-large'') in
        if \<not> idx < length (node_caches s) then Panic OutOfBounds
        else if node_caches s ! idx = 0 then
          case page_alloc s of
            None \<Rightarrow> Panic UnwrapNone
          | Some pa \<Rightarrow>
              rbind (alloc_pages V pa 1) (\<lambda>(page, pa).
                case page of
                  None \<Rightarrow> Panic (ExplicitPanic ''OOM Cache'')
                | Some cache_ptr \<Rightarrow>
                    rbind (next_power_of_two (max n 8)) (\<lambda>obj_size.
                    rbind (usize_add obj_size 4) (\<lambda>d.
                      let s = s\<lparr>page_alloc := Some pa\<rparr>;
                          s = cache_write cache_ptr obj_size ((PAGE_SIZE - 40) div d) name s in
                      Val (cache_ptr, s\<lparr>node_caches := (node_caches s)[idx := cache_ptr]\<rparr>))))
        else Val (node_caches s ! idx, s))"

text \<open>The loop that links the entries of a new \<^verbatim>\<open>BufCtl\<close> table.\<close>

primrec bufctl_fill :: "addr \<Rightarrow> addr \<Rightarrow> nat list \<Rightarrow> 'a slab_mem_scheme \<Rightarrow> 'a slab_mem_scheme" where
  "bufctl_fill b num [] s = s"
| "bufctl_fill b num (i # is) s =
     (let nxt = (if int i + 1 = num then bufctl_end else word_of_int (int i + 1)) in
      bufctl_fill b num is (s\<lparr>bufctl := (bufctl s)(bufctl_at b (int i) := nxt)\<rparr>))"

definition cache_grow ::
    "virt_ops \<Rightarrow> PageAllocator \<Rightarrow> addr \<Rightarrow> SlabAllocator \<Rightarrow> (PageAllocator \<times> SlabAllocator) run" where
  "cache_grow V pa cache s =
     rbind (alloc_pages V pa 1) (\<lambda>(page, pa).
       case page of
         None \<Rightarrow> Panic (ExplicitPanic ''OOM Slab'')
       | Some slab \<Rightarrow>
           rbind (bufctl_ptr slab) (\<lambda>b.
           rbind (usize_mul (c_num s cache) 4) (\<lambda>bufctl_table_size.
           rbind (usize_add b bufctl_table_size) (\<lambda>x.
           rbind (usize_add x 8) (\<lambda>x.
             let obj_start = (x - 1) AND NOT 7;
                 s = s\<lparr>ln_next := (ln_next s)(slab := 0), ln_prev := (ln_prev s)(slab := 0),
                       s_mem := (s_mem s)(slab := obj_start),
                       s_free := (s_free s)(slab := 0),
                       s_inuse := (s_inuse s)(slab := 0)\<rparr>;
                 s = bufctl_fill b (c_num s cache) [0..<nat (c_num s cache)] s in
             Val (pa, list_add slab (slabs_free cache) s))))))"

section \<open>Allocation\<close>

text \<open>The choice of a slab: a partial one, or a free one, which becomes partial.\<close>

definition pick_slab :: "virt_ops \<Rightarrow> addr \<Rightarrow> SlabAllocator \<Rightarrow> (addr \<times> SlabAllocator) run" where
  "pick_slab V cache s =
     (if \<not> list_empty (slabs_partial cache) s then Val (ln_next s (slabs_partial cache), s)
      else
        rbind (if list_empty (slabs_free cache) s
               then (case page_alloc s of
                       None \<Rightarrow> Panic UnwrapNone
                     | Some pa \<Rightarrow> rbind (cache_grow V pa cache s) (\<lambda>(pa, s). Val (s\<lparr>page_alloc := Some pa\<rparr>)))
               else Val s) (\<lambda>s.
          let node = ln_next s (slabs_free cache);
              s = list_del node s;
              s = list_add node (slabs_partial cache) s in
          Val (node, s)))"

definition take_object :: "addr \<Rightarrow> addr \<Rightarrow> SlabAllocator \<Rightarrow> (addr option \<times> SlabAllocator) run" where
  "take_object cache slab s =
     (let obj_idx = uint (s_free s slab) in
      rbind (usize_mul obj_idx (c_obj_size s cache)) (\<lambda>off.
      rbind (bufctl_ptr slab) (\<lambda>b.
        let obj = s_mem s slab + off;
            s = s\<lparr>s_free := (s_free s)(slab := bufctl s (bufctl_at b obj_idx))\<rparr> in
        rbind (usize_add (s_inuse s slab) 1) (\<lambda>n.
          let s = s\<lparr>s_inuse := (s_inuse s)(slab := n)\<rparr>;
              s = (if s_inuse s slab = c_num s cache
                   then list_add slab (slabs_full cache) (list_del slab s) else s) in
          Val (Some obj, s)))))"

definition slab_alloc :: "virt_ops \<Rightarrow> SlabAllocator \<Rightarrow> Layout \<Rightarrow> (addr option \<times> SlabAllocator) run" where
  "slab_alloc V s layout =
     (let n = lay_size layout in
      if n > MAX_SLAB_SIZE then
        rbind (usize_add n PAGE_SIZE) (\<lambda>x.
          case page_alloc s of
            None \<Rightarrow> Panic UnwrapNone
          | Some pa \<Rightarrow>
              rbind (alloc_pages V pa ((x - 1) div PAGE_SIZE)) (\<lambda>(p, pa).
                Val (p, s\<lparr>page_alloc := Some pa\<rparr>)))
      else
        rbind (get_or_create_cache V s n) (\<lambda>(cache, s).
        rbind (pick_slab V cache s) (\<lambda>(slab, s). take_object cache slab s)))"

section \<open>Deallocation\<close>

definition slab_dealloc :: "virt_ops \<Rightarrow> SlabAllocator \<Rightarrow> addr \<Rightarrow> Layout \<Rightarrow> SlabAllocator run" where
  "slab_dealloc V s p layout =
     (let n = lay_size layout in
      if n > MAX_SLAB_SIZE \<or> p = 0 then Val s
      else
        rbind (get_or_create_cache V s n) (\<lambda>(cache, s).
          let slab = p AND NOT (PAGE_SIZE - 1) in
          rbind (usize_sub p (s_mem s slab)) (\<lambda>d.
            if c_obj_size s cache = 0 then Panic DivisionByZero
            else rbind (bufctl_ptr slab) (\<lambda>b.
              let obj_idx = d div c_obj_size s cache;
                  s = s\<lparr>bufctl := (bufctl s)(bufctl_at b obj_idx := s_free s slab)\<rparr>;
                  s = s\<lparr>s_free := (s_free s)(slab := word_of_int obj_idx)\<rparr> in
              rbind (usize_sub (s_inuse s slab) 1) (\<lambda>k.
                let s = s\<lparr>s_inuse := (s_inuse s)(slab := k)\<rparr> in
                Val (if s_inuse s slab + 1 = c_num s cache
                     then list_add slab (slabs_partial cache) (list_del slab s)
                     else if s_inuse s slab = 0
                     then list_add slab (slabs_free cache) (list_del slab s)
                     else s))))))"

end
