(* ===== verification/Slab_Rings.thy ===== *)
theory Slab_Rings
  imports Slab
begin

text \<open>
  The circular doubly linked lists of the slab allocator.  \<open>rings n p R\<close> says that the pointers
  \<open>n\<close> (next) and \<open>p\<close> (prev) hold, for every list head in the domain of \<open>R\<close>, the list \<open>R\<close> gives it, and
  that no two lists share a node.  \<open>node_init\<close>, \<open>list_add\<close>, \<open>list_del\<close> and \<open>list_empty\<close> implement the
  operations on such a family of lists.
\<close>

section \<open>One list\<close>

text \<open>The nodes \<open>xs\<close> lie between \<open>a\<close> and \<open>b\<close>, in both directions.\<close>

primrec ring_seg :: "(addr \<Rightarrow> addr) \<Rightarrow> (addr \<Rightarrow> addr) \<Rightarrow> addr \<Rightarrow> addr list \<Rightarrow> addr \<Rightarrow> bool" where
  "ring_seg n p a [] b \<longleftrightarrow> n a = b \<and> p b = a"
| "ring_seg n p a (x # xs) b \<longleftrightarrow> n a = x \<and> p x = a \<and> ring_seg n p x xs b"

definition ring :: "(addr \<Rightarrow> addr) \<Rightarrow> (addr \<Rightarrow> addr) \<Rightarrow> addr \<Rightarrow> addr list \<Rightarrow> bool" where
  "ring n p h xs \<longleftrightarrow> ring_seg n p h xs h"

lemma ring_seg_append:
  "ring_seg n p a (xs @ x # ys) b \<longleftrightarrow> ring_seg n p a xs x \<and> ring_seg n p x ys b"
  by (induction xs arbitrary: a) auto

lemma ring_seg_cong:
  assumes "\<And>x. x \<in> insert a (set xs) \<Longrightarrow> n' x = n x" "\<And>x. x \<in> insert b (set xs) \<Longrightarrow> p' x = p x"
  shows "ring_seg n' p' a xs b = ring_seg n p a xs b"
  using assms by (induction xs arbitrary: a) auto

lemma ring_seg_keep:
  assumes "ring_seg n p a xs b"
    "\<And>x. x \<in> insert a (set xs) \<Longrightarrow> n' x = n x" "\<And>x. x \<in> insert b (set xs) \<Longrightarrow> p' x = p x"
  shows "ring_seg n' p' a xs b"
  using ring_seg_cong [of a xs n' n b p' p] assms by blast

text \<open>Redirecting the pointers at the two ends of a segment.\<close>

lemma ring_seg_head:
  assumes "ring_seg n p a xs b" "distinct xs" "a \<notin> set xs" "b \<notin> set xs" "e \<notin> insert a (insert b (set xs))"
  shows "ring_seg (n(e := n a, a := e)) (p(e := a, n a := e)) a (e # xs) b"
proof (cases xs)
  case Nil
  with assms show ?thesis by auto
next
  case (Cons x ys)
  with assms(1) have "ring_seg n p x ys b" by simp
  then have "ring_seg (n(e := n a, a := e)) (p(e := a, n a := e)) x ys b"
    by (rule ring_seg_keep) (use Cons assms in auto)
  with Cons assms show ?thesis by auto
qed

lemma ring_seg_join:
  assumes "ring_seg n p h xs e" "ring_seg n p e ys h" "distinct (h # xs @ e # ys)"
  shows "ring_seg (n(p e := n e)) (p(n e := p e)) h (xs @ ys) h"
proof -
  let ?n = "n(p e := n e)" and ?p = "p(n e := p e)"
  have keep: "ring_seg ?n ?p a zs b" if "ring_seg n p a zs b" "p e \<notin> insert a (set zs)" "n e \<notin> insert b (set zs)" for a zs b
    by (rule ring_seg_keep [OF that(1)]) (use that(2,3) in auto)
  show ?thesis
  proof (cases xs rule: rev_cases; cases ys)
    assume "xs = []" "ys = []"
    with assms show ?thesis by simp
  next
    fix v zs assume "xs = []" "ys = v # zs"
    with assms keep [of v zs h] show ?thesis by auto
  next
    fix us u assume "xs = us @ [u]" "ys = []"
    with assms keep [of h us u] show ?thesis by (auto simp: ring_seg_append)
  next
    fix us u v zs assume "xs = us @ [u]" "ys = v # zs"
    with assms keep [of h us u] keep [of v zs h] show ?thesis by (auto simp: ring_seg_append)
  qed
qed

section \<open>Families of lists\<close>

definition nodes :: "(addr \<rightharpoonup> addr list) \<Rightarrow> addr set" where
  "nodes R = dom R \<union> (\<Union>xs \<in> ran R. set xs)"

definition rings :: "(addr \<Rightarrow> addr) \<Rightarrow> (addr \<Rightarrow> addr) \<Rightarrow> (addr \<rightharpoonup> addr list) \<Rightarrow> bool" where
  "rings n p R \<longleftrightarrow>
     (\<forall>h xs. R h = Some xs \<longrightarrow> ring n p h xs \<and> distinct (h # xs))
     \<and> (\<forall>h xs h' ys. R h = Some xs \<and> R h' = Some ys \<and> h \<noteq> h' \<longrightarrow> set (h # xs) \<inter> set (h' # ys) = {})"

lemma nodes_memI: "R h = Some xs \<Longrightarrow> x \<in> insert h (set xs) \<Longrightarrow> x \<in> nodes R"
  by (auto simp: nodes_def ran_def)

lemma rings_ring: "rings n p R \<Longrightarrow> R h = Some xs \<Longrightarrow> ring n p h xs"
  by (simp add: rings_def)

lemma rings_distinct: "rings n p R \<Longrightarrow> R h = Some xs \<Longrightarrow> distinct (h # xs)"
  by (simp add: rings_def)

lemma rings_disjoint:
  "rings n p R \<Longrightarrow> R h = Some xs \<Longrightarrow> R h' = Some ys \<Longrightarrow> h \<noteq> h' \<Longrightarrow> set (h # xs) \<inter> set (h' # ys) = {}"
  unfolding rings_def by blast

text \<open>
  A change that only writes inside one list, with at most one node that was in none, keeps the
  family if it makes that list the new one.
\<close>

lemma rings_update:
  assumes "rings n p R"
    and "\<And>h' ys. R h' = Some ys \<Longrightarrow> h' \<noteq> h \<Longrightarrow> set (h # xs) \<inter> set (h' # ys) = {}"
    and "\<And>h' ys x. R h' = Some ys \<Longrightarrow> h' \<noteq> h \<Longrightarrow> x \<in> insert h' (set ys) \<Longrightarrow> n' x = n x \<and> p' x = p x"
    and "ring n' p' h xs" "distinct (h # xs)"
  shows "rings n' p' (R(h \<mapsto> xs))"
  unfolding rings_def
proof (intro conjI allI impI)
  fix h' ys assume "(R(h \<mapsto> xs)) h' = Some ys"
  then consider "h' = h" "ys = xs" | "h' \<noteq> h" "R h' = Some ys" by (auto split: if_splits)
  then have "ring n' p' h' ys \<and> distinct (h' # ys)"
  proof cases
    case 2
    with assms(3) have "ring n' p' h' ys = ring n p h' ys" unfolding ring_def by (intro ring_seg_cong) auto
    with 2 rings_ring [OF assms(1)] rings_distinct [OF assms(1)] show ?thesis by blast
  qed (use assms(4,5) in auto)
  then show "ring n' p' h' ys" "distinct (h' # ys)" by simp_all
next
  fix a ys b zs
  assume *: "(R(h \<mapsto> xs)) a = Some ys \<and> (R(h \<mapsto> xs)) b = Some zs \<and> a \<noteq> b"
  show "set (a # ys) \<inter> set (b # zs) = {}"
  proof (cases "a = h")
    case True
    with * have "ys = xs" "b \<noteq> h" "R b = Some zs" by auto
    with True assms(2) [of b zs] show ?thesis by simp
  next
    case a: False
    show ?thesis
    proof (cases "b = h")
      case True
      with * have "zs = xs" "R a = Some ys" by auto
      with a True assms(2) [of a ys] show ?thesis by blast
    next
      case False
      with a * have "R a = Some ys" "R b = Some zs" "a \<noteq> b" by auto
      with rings_disjoint [OF assms(1)] show ?thesis by blast
    qed
  qed
qed

lemma list_add_pointers:
  assumes "entry \<noteq> head"
  shows "ln_next (list_add entry head s) = (ln_next s)(entry := ln_next s head, head := entry)"
    "ln_prev (list_add entry head s) = (ln_prev s)(entry := head, ln_next s head := entry)"
  using assms by (simp_all add: list_add_def)

lemma list_del_pointers:
  assumes "ln_prev s entry \<noteq> entry"
  shows "ln_next (list_del entry s) = (ln_next s)(ln_prev s entry := ln_next s entry)"
    "ln_prev (list_del entry s) = (ln_prev s)(ln_next s entry := ln_prev s entry)"
  using assms by (simp_all add: list_del_def)

lemma ring_first: "ring n p h xs \<Longrightarrow> n h = (case xs of [] \<Rightarrow> h | x # _ \<Rightarrow> x)"
  by (cases xs) (simp_all add: ring_def)

lemma rings_list_empty:
  assumes "rings (ln_next s) (ln_prev s) R" "R h = Some xs"
  shows "list_empty h s \<longleftrightarrow> xs = []"
  using ring_first [OF rings_ring [OF assms]] rings_distinct [OF assms] by (auto simp: list_empty_def split: list.splits)

lemma rings_node_init:
  assumes "rings (ln_next s) (ln_prev s) R" "h \<notin> nodes R"
  shows "rings (ln_next (node_init h s)) (ln_prev (node_init h s)) (R(h \<mapsto> []))"
proof (rule rings_update [OF assms(1)])
  fix h' ys assume "R h' = Some ys" "h' \<noteq> h"
  with assms(2) show "set [h] \<inter> set (h' # ys) = {}" by (auto dest: nodes_memI)
  fix x assume "x \<in> insert h' (set ys)"
  with \<open>R h' = Some ys\<close> assms(2) have "x \<noteq> h" by (auto dest: nodes_memI)
  then show "ln_next (node_init h s) x = ln_next s x \<and> ln_prev (node_init h s) x = ln_prev s x"
    by (simp add: node_init_def)
qed (simp_all add: ring_def node_init_def)

lemma rings_list_add:
  assumes "rings (ln_next s) (ln_prev s) R" "R h = Some xs" "e \<notin> nodes R"
  shows "rings (ln_next (list_add e h s)) (ln_prev (list_add e h s)) (R(h \<mapsto> e # xs))"
proof -
  note r = rings_ring [OF assms(1,2)] and d = rings_distinct [OF assms(1,2)]
  have e: "e \<notin> insert h (set xs)" using nodes_memI [of R h xs e] assms(2,3) by blast
  then have eh: "e \<noteq> h" by simp
  have nh: "ln_next s h \<in> insert h (set xs)" using ring_first [OF r] by (auto split: list.splits)
  show ?thesis
  proof (rule rings_update [OF assms(1)])
    fix h' ys assume h': "R h' = Some ys" "h' \<noteq> h"
    have e': "e \<notin> insert h' (set ys)" using nodes_memI [of R h' ys e] h'(1) assms(3) by blast
    note dis = rings_disjoint [OF assms(1,2) h'(1)] h'(2)
    with e' show "set (h # e # xs) \<inter> set (h' # ys) = {}" by auto
    fix x assume "x \<in> insert h' (set ys)"
    with dis e' nh have "x \<noteq> h" "x \<noteq> e" "x \<noteq> ln_next s h" by auto
    then show "ln_next (list_add e h s) x = ln_next s x \<and> ln_prev (list_add e h s) x = ln_prev s x"
      by (simp add: list_add_pointers [OF eh])
  next
    show "ring (ln_next (list_add e h s)) (ln_prev (list_add e h s)) h (e # xs)"
      using ring_seg_head [of "ln_next s" "ln_prev s" h xs h e] r d e
      by (simp add: ring_def list_add_pointers [OF eh])
  qed (use d e in auto)
qed

lemma rings_list_del:
  assumes "rings (ln_next s) (ln_prev s) R" "R h = Some xs" "e \<in> set xs"
  shows "rings (ln_next (list_del e s)) (ln_prev (list_del e s)) (R(h \<mapsto> remove1 e xs))"
    and "e \<notin> nodes (R(h \<mapsto> remove1 e xs))"
proof -
  note r = rings_ring [OF assms(1,2)] and d = rings_distinct [OF assms(1,2)]
  obtain as bs where xs: "xs = as @ e # bs" "e \<notin> set as" using split_list_first [OF assms(3)] by blast
  then have rm: "remove1 e xs = as @ bs" by (simp add: remove1_append)
  have segs: "ring_seg (ln_next s) (ln_prev s) h as e" "ring_seg (ln_next s) (ln_prev s) e bs h"
    using r xs by (simp_all add: ring_def ring_seg_append)
  have pe: "ln_prev s e \<in> insert h (set as)"
    using segs(1) by (cases as rule: rev_cases) (auto simp: ring_seg_append)
  have ne: "ln_next s e \<in> insert h (set bs)" using segs(2) by (cases bs) auto
  from pe d xs have pne: "ln_prev s e \<noteq> e" by auto
  have other: "set (h # xs) \<inter> set (h' # ys) = {}" if "R h' = Some ys" "h' \<noteq> h" for h' ys
    using rings_disjoint [OF assms(1,2) that(1)] that(2) by blast
  show "rings (ln_next (list_del e s)) (ln_prev (list_del e s)) (R(h \<mapsto> remove1 e xs))"
  proof (rule rings_update [OF assms(1)])
    fix h' ys assume h': "R h' = Some ys" "h' \<noteq> h"
    show "set (h # remove1 e xs) \<inter> set (h' # ys) = {}" using other [OF h'] xs rm by auto
    fix x assume "x \<in> insert h' (set ys)"
    with other [OF h'] pe ne xs have "x \<noteq> ln_prev s e" "x \<noteq> ln_next s e" by auto
    then show "ln_next (list_del e s) x = ln_next s x \<and> ln_prev (list_del e s) x = ln_prev s x"
      by (simp add: list_del_pointers [OF pne])
  next
    show "ring (ln_next (list_del e s)) (ln_prev (list_del e s)) h (remove1 e xs)"
      using ring_seg_join [OF segs] d xs rm by (simp add: ring_def list_del_pointers [OF pne])
  qed (use d xs rm in auto)
  show "e \<notin> nodes (R(h \<mapsto> remove1 e xs))"
    using d xs rm other assms(2,3) by (auto simp: nodes_def ran_def split: if_splits)
qed

end
