(* ===== verification/Slab_Inv.thy ===== *)
theory Slab_Inv
  imports Slab_Rings
begin

unbundle bit_operations_syntax

text \<open>
  The invariant of the slab allocator.  A ghost map says which part of the allocator owns each page
  of the heap; the caches, the lists of slabs, the chains of free objects and the blocks handed out
  are described by it.  The blocks handed out are aligned, inside the heap and pairwise apart.
\<close>

section \<open>Geometry of a slab\<close>

text \<open>
  The objects of class \<open>i\<close> have \<open>8 * 2^i\<close> bytes.  A page holds the \<^verbatim>\<open>Slab\<close>, its table and, from the
  next multiple of 8 on, the objects.
\<close>

definition obj_bytes :: "nat \<Rightarrow> addr" where
  "obj_bytes i = 8 * 2 ^ i"

definition slab_count :: "nat \<Rightarrow> addr" where
  "slab_count i = (4096 - 40) div (obj_bytes i + 4)"

definition obj_offset :: "nat \<Rightarrow> addr" where
  "obj_offset i = (40 + 4 * slab_count i + 7) div 8 * 8"

definition slab_sizes :: "addr list" where
  "slab_sizes = map (\<lambda>k. 2 ^ k) [0..<12]"

lemma slab_geometry:
  assumes "i < 9"
  shows "0 < slab_count i" "slab_count i \<le> 338" "8 \<le> obj_bytes i" "8 dvd obj_bytes i" "obj_bytes i \<le> 2048"
    "40 + 4 * slab_count i \<le> obj_offset i" "8 dvd obj_offset i"
    "obj_offset i + slab_count i * obj_bytes i \<le> 4096"
proof -
  have "list_all (\<lambda>i. 0 < slab_count i \<and> slab_count i \<le> 338 \<and> 8 \<le> obj_bytes i \<and> 8 dvd obj_bytes i
      \<and> obj_bytes i \<le> 2048 \<and> 40 + 4 * slab_count i \<le> obj_offset i \<and> 8 dvd obj_offset i
      \<and> obj_offset i + slab_count i * obj_bytes i \<le> 4096) [0..<9]"
    by code_simp
  with assms show "0 < slab_count i" "slab_count i \<le> 338" "8 \<le> obj_bytes i" "8 dvd obj_bytes i" "obj_bytes i \<le> 2048"
    "40 + 4 * slab_count i \<le> obj_offset i" "8 dvd obj_offset i"
    "obj_offset i + slab_count i * obj_bytes i \<le> 4096"
    by (simp_all add: list_all_iff)
qed

lemma slab_sizes_class:
  assumes "n \<in> set slab_sizes"
  shows "size_index n < 9" "n \<le> obj_bytes (size_index n)" "0 < n" "n \<le> 2048"
    "next_power_of_two (max n 8) = Val (obj_bytes (size_index n))"
proof -
  have "list_all (\<lambda>n. size_index n < 9 \<and> n \<le> obj_bytes (size_index n) \<and> 0 < n \<and> n \<le> 2048
      \<and> next_power_of_two (max n 8) = Val (obj_bytes (size_index n))) slab_sizes"
    by code_simp
  with assms show "size_index n < 9" "n \<le> obj_bytes (size_index n)" "0 < n" "n \<le> 2048"
    "next_power_of_two (max n 8) = Val (obj_bytes (size_index n))"
    by (simp_all add: list_all_iff)
qed

lemma and_not_pow2: "(x :: int) AND NOT (2 ^ k - 1) = x - x mod 2 ^ k"
proof -
  have "x AND NOT (2 ^ k - 1) = x AND NOT (take_bit k x)"
    by (rule bit_eqI) (auto simp: bit_simps simp flip: mask_eq_exp_minus_1)
  also have "\<dots> = x - take_bit k x" by (rule disjunctive_diff [symmetric]) (simp add: bit_simps)
  finally show ?thesis by (simp add: take_bit_eq_mod)
qed

lemma page_mod: "4096 dvd q \<Longrightarrow> 0 \<le> d \<Longrightarrow> d < 4096 \<Longrightarrow> (q + d) mod 4096 = d" for q d :: int
  by (simp add: mod_add_eq [symmetric, of q] dvd_eq_mod_eq_0)

lemma page_of: "4096 dvd q \<Longrightarrow> 0 \<le> d \<Longrightarrow> d < 4096 \<Longrightarrow> (q + d) AND NOT (PAGE_SIZE - 1) = q"
  using and_not_pow2 [of "q + d" 12] by (simp add: PAGE_SIZE_def page_mod)

section \<open>The invariant\<close>

text \<open>
  What the allocator relies on of \<^verbatim>\<open>VirtAddr\<close>: an address below \<open>2^47\<close> is canonical and accepted; where
  the addition returns, it returns the sum, or the sum with bit 47 extended into the upper 16 bits.
\<close>

definition virt_ok :: "virt_ops \<Rightarrow> bool" where
  "virt_ok V \<longleftrightarrow>
     (\<forall>a. 0 \<le> a \<and> a < 0x800000000000 \<longrightarrow> va_new V a = Val a)
     \<and> (\<forall>a b. 0 \<le> a \<and> 0 \<le> b \<and> a + b < 0x800000000000 \<longrightarrow> va_add V a b = Val (a + b))
     \<and> (\<forall>a b c. va_add V a b = Val c \<longrightarrow>
          c = a + b \<or> (0x800000000000 \<le> a + b \<and> c = a + b + 0xFFFF000000000000))"

text \<open>
  Which part of the allocator owns a page: the cache of a class, a slab of a class with its list of
  free objects, or a block of several pages.
\<close>

datatype page_use = CachePage nat | SlabPage nat "addr list" | BigPage addr Layout

definition list_head :: "SlabAllocator \<Rightarrow> nat \<Rightarrow> nat \<Rightarrow> addr" where
  "list_head s i k = node_caches s ! i + 16 * int k"

text \<open>In list 0 a slab is full, in list 1 it has a free object, in list 2 it has only free objects.\<close>

definition in_list :: "nat \<Rightarrow> nat \<Rightarrow> addr list \<Rightarrow> bool" where
  "in_list k i fl \<longleftrightarrow> (if k = 0 then fl = [] else if k = 1 then fl \<noteq> [] else int (length fl) = slab_count i)"

primrec free_chain :: "(addr \<Rightarrow> u32) \<Rightarrow> addr \<Rightarrow> u32 \<Rightarrow> addr list \<Rightarrow> bool" where
  "free_chain b q f [] \<longleftrightarrow> f = bufctl_end"
| "free_chain b q f (j # js) \<longleftrightarrow> f = word_of_int j \<and> free_chain b q (b (bufctl_at (q + 40) j)) js"

definition slab_ok :: "SlabAllocator \<Rightarrow> addr \<Rightarrow> nat \<Rightarrow> addr list \<Rightarrow> bool" where
  "slab_ok s q i fl \<longleftrightarrow> s_mem s q = q + obj_offset i \<and> s_inuse s q = slab_count i - int (length fl)
     \<and> free_chain (bufctl s) q (s_free s q) fl \<and> distinct fl \<and> set fl \<subseteq> {0..<slab_count i}"

definition heap_ok :: "addr \<Rightarrow> addr \<Rightarrow> SlabAllocator \<Rightarrow> (addr \<rightharpoonup> page_use) \<Rightarrow> bool" where
  "heap_ok lo hi s K \<longleftrightarrow> 0 < lo \<and> 4096 dvd lo \<and> hi + 4096 < 0x800000000000
     \<and> (\<exists>pa. page_alloc s = Some pa \<and> pa_end pa = hi \<and> 4096 dvd pa_next pa \<and> lo \<le> pa_next pa \<and> pa_next pa \<le> hi
        \<and> (\<forall>q \<in> dom K. 4096 dvd q \<and> lo \<le> q \<and> q + 4096 \<le> pa_next pa))"

definition caches_ok :: "SlabAllocator \<Rightarrow> (addr \<rightharpoonup> page_use) \<Rightarrow> bool" where
  "caches_ok s K \<longleftrightarrow> length (node_caches s) = 9
     \<and> (\<forall>i < 9. let c = node_caches s ! i in
          c \<noteq> 0 \<longrightarrow> K c = Some (CachePage i) \<and> c_obj_size s c = obj_bytes i \<and> c_num s c = slab_count i)"

definition lists_ok :: "SlabAllocator \<Rightarrow> (addr \<rightharpoonup> page_use) \<Rightarrow> (addr \<rightharpoonup> addr list) \<Rightarrow> bool" where
  "lists_ok s K R \<longleftrightarrow> rings (ln_next s) (ln_prev s) R
     \<and> dom R = {h. \<exists>i k. i < 9 \<and> k < 3 \<and> node_caches s ! i \<noteq> 0 \<and> h = list_head s i k}
     \<and> (\<forall>i k q. i < 9 \<and> k < 3 \<and> node_caches s ! i \<noteq> 0 \<and> q \<in> set (the (R (list_head s i k))) \<longrightarrow>
          (\<exists>fl. K q = Some (SlabPage i fl) \<and> in_list k i fl))"

definition slabs_ok :: "SlabAllocator \<Rightarrow> (addr \<rightharpoonup> page_use) \<Rightarrow> (addr \<rightharpoonup> addr list) \<Rightarrow> bool" where
  "slabs_ok s K R \<longleftrightarrow> (\<forall>q i fl. K q = Some (SlabPage i fl) \<longrightarrow>
     i < 9 \<and> node_caches s ! i \<noteq> 0 \<and> (\<exists>k < 3. q \<in> set (the (R (list_head s i k)))) \<and> slab_ok s q i fl)"

definition slab_ghost ::
    "virt_ops \<Rightarrow> addr \<Rightarrow> addr \<Rightarrow> SlabAllocator \<Rightarrow> (addr \<rightharpoonup> page_use) \<Rightarrow> (addr \<rightharpoonup> addr list) \<Rightarrow> bool" where
  "slab_ghost V lo hi s K R \<longleftrightarrow>
     virt_ok V \<and> heap_ok lo hi s K \<and> caches_ok s K \<and> lists_ok s K R \<and> slabs_ok s K R"

text \<open>
  The layouts the allocator serves: up to \<^verbatim>\<open>MAX_SLAB_SIZE\<close> a power of two, aligned to at most 8;
  above, aligned to at most a page.
\<close>

definition slab_layout_ok :: "Layout \<Rightarrow> bool" where
  "slab_layout_ok l \<longleftrightarrow> layout_ok l \<and>
     (if lay_size l \<le> 2048 then lay_size l \<in> set slab_sizes \<and> lay_align l \<le> 8 else lay_align l \<le> 4096)"

text \<open>A block handed out is an object of a slab that is not free, or a run of pages of its own.\<close>

definition held_block :: "(addr \<rightharpoonup> page_use) \<Rightarrow> block \<Rightarrow> bool" where
  "held_block K b \<longleftrightarrow> slab_layout_ok (snd b) \<and>
     (if lay_size (snd b) \<le> 2048
      then \<exists>q fl j. K q = Some (SlabPage (size_index (lay_size (snd b))) fl)
        \<and> 0 \<le> j \<and> j < slab_count (size_index (lay_size (snd b))) \<and> j \<notin> set fl
        \<and> fst b = q + obj_offset (size_index (lay_size (snd b))) + j * obj_bytes (size_index (lay_size (snd b)))
      else 4096 dvd fst b \<and> (\<forall>q. 4096 dvd q \<and> fst b \<le> q \<and> q < fst b + lay_size (snd b) \<longrightarrow>
        K q = Some (BigPage (fst b) (snd b))))"

definition held :: "(addr \<rightharpoonup> page_use) \<Rightarrow> block set \<Rightarrow> bool" where
  "held K L \<longleftrightarrow> inj_on fst L \<and> (\<forall>b \<in> L. held_block K b)"

definition slab_inv :: "virt_ops \<Rightarrow> addr \<Rightarrow> addr \<Rightarrow> SlabAllocator \<Rightarrow> block set \<Rightarrow> bool" where
  "slab_inv V lo hi s L \<longleftrightarrow> (\<exists>K R. slab_ghost V lo hi s K R \<and> held K L)"

section \<open>Blocks handed out\<close>

lemma page_unique:
  assumes "4096 dvd q" "4096 dvd (r :: int)" "0 \<le> d" "d < 4096" "0 \<le> e" "e < 4096" "q + d = r + e"
  shows "q = r" "d = e"
  using page_mod [OF assms(1,3,4)] page_mod [OF assms(2,5,6)] assms(7) by simp_all

text \<open>The object \<open>j\<close> of a slab lies inside the page, behind the table.\<close>

lemma object_in_page:
  assumes "i < 9" "0 \<le> j" "j < slab_count i"
  shows "40 + 4 * slab_count i \<le> obj_offset i + j * obj_bytes i"
    "obj_offset i + j * obj_bytes i + obj_bytes i \<le> 4096"
    "8 dvd obj_offset i + j * obj_bytes i"
proof -
  note g = slab_geometry [OF assms(1)]
  have "0 \<le> j * obj_bytes i" using assms(2) g(3) by simp
  then show "40 + 4 * slab_count i \<le> obj_offset i + j * obj_bytes i" using g(6) by linarith
  have "(j + 1) * obj_bytes i \<le> slab_count i * obj_bytes i" using assms(3) g(3) by (intro mult_right_mono) auto
  then show "obj_offset i + j * obj_bytes i + obj_bytes i \<le> 4096" using g(8) by (simp add: algebra_simps)
  show "8 dvd obj_offset i + j * obj_bytes i" using g(4,7) by simp
qed

lemma slab_layout_okD:
  assumes "slab_layout_ok l" "lay_size l \<le> 2048"
  shows "lay_size l \<in> set slab_sizes" "lay_align l dvd 8" "size_index (lay_size l) < 9"
    "lay_size l \<le> obj_bytes (size_index (lay_size l))" "0 < lay_size l"
proof -
  from assms have l: "layout_ok l" "lay_size l \<in> set slab_sizes" "lay_align l \<le> 8"
    by (simp_all add: slab_layout_ok_def)
  then obtain k where k: "lay_align l = 2 ^ k" using layout_okD(4) by blast
  have "k \<le> 3"
  proof (rule ccontr)
    assume "\<not> k \<le> 3"
    then have "(2 :: int) ^ 4 \<le> 2 ^ k" by (intro power_increasing) auto
    with k l(3) show False by simp
  qed
  then have "(2 :: int) ^ k dvd 2 ^ 3" by (rule le_imp_power_dvd)
  with k show "lay_align l dvd 8" by simp
  from slab_sizes_class [OF l(2)] l(2)
  show "lay_size l \<in> set slab_sizes" "size_index (lay_size l) < 9"
    "lay_size l \<le> obj_bytes (size_index (lay_size l))" "0 < lay_size l" by simp_all
qed

lemma held_small:
  assumes "held_block K b" "lay_size (snd b) \<le> 2048" "\<forall>q \<in> dom K. 4096 dvd q"
  obtains q fl j i where "i = size_index (lay_size (snd b))" "i < 9" "K q = Some (SlabPage i fl)" "0 \<le> j"
    "j < slab_count i" "j \<notin> set fl" "fst b = q + obj_offset i + j * obj_bytes i" "4096 dvd q"
    "q \<le> fst b" "fst b + lay_size (snd b) \<le> q + 4096" "8 dvd fst b" "lay_size (snd b) \<le> obj_bytes i"
proof -
  define i where "i = size_index (lay_size (snd b))"
  have l: "slab_layout_ok (snd b)" using assms(1) by (simp add: held_block_def)
  note d = slab_layout_okD [OF l assms(2), folded i_def]
  obtain q fl j where q: "K q = Some (SlabPage i fl)" "0 \<le> j" "j < slab_count i" "j \<notin> set fl"
    "fst b = q + obj_offset i + j * obj_bytes i"
    using assms(1,2) unfolding held_block_def i_def by auto
  note o = object_in_page [OF d(3) q(2,3)]
  from q(1) assms(3) have "4096 dvd q" by blast
  moreover from this have "8 dvd q" by (rule dvd_trans [rotated]) simp
  ultimately show thesis
    using that [OF i_def d(3) q(1-5)] o d(4) slab_geometry [OF d(3)] q(5) dvd_add [OF _ o(3), of q]
    by (simp add: algebra_simps)
qed

lemma held_big_page:
  assumes "held_block K b" "\<not> lay_size (snd b) \<le> 2048" "fst b \<le> x" "x < fst b + lay_size (snd b)"
  shows "K (x - x mod 4096) = Some (BigPage (fst b) (snd b))"
proof -
  have b: "4096 dvd fst b" "\<And>q. 4096 dvd q \<Longrightarrow> fst b \<le> q \<Longrightarrow> q < fst b + lay_size (snd b) \<Longrightarrow>
      K q = Some (BigPage (fst b) (snd b))"
    using assms(1,2) by (auto simp: held_block_def)
  have "4096 dvd x - x mod 4096" by (simp add: minus_mod_eq_mult_div)
  moreover have "fst b \<le> x - x mod 4096"
  proof (rule ccontr)
    assume "\<not> fst b \<le> x - x mod 4096"
    then have "0 < fst b - (x - x mod 4096)" by simp
    moreover have "4096 dvd fst b - (x - x mod 4096)" using b(1) \<open>4096 dvd x - x mod 4096\<close> by (rule dvd_diff)
    ultimately have "4096 \<le> fst b - (x - x mod 4096)" by (simp add: zdvd_imp_le)
    moreover have "x mod 4096 < 4096" by simp
    ultimately show False using assms(3) by linarith
  qed
  moreover have "x - x mod 4096 < fst b + lay_size (snd b)" using assms(4) pos_mod_sign [of 4096 x] by linarith
  ultimately show ?thesis by (rule b(2))
qed

lemma held_apart:
  assumes "held_block K b" "held_block K c" "fst b \<noteq> fst c" "\<forall>q \<in> dom K. 4096 dvd q"
  shows "apart b c"
proof (rule ccontr)
  assume "\<not> apart b c"
  define x where "x = max (fst b) (fst c)"
  have pos: "0 < lay_size (snd b)" "0 < lay_size (snd c)"
    using assms(1,2) layout_okD(2) by (auto simp: held_block_def slab_layout_ok_def)
  with \<open>\<not> apart b c\<close> have x: "fst b \<le> x" "x < fst b + lay_size (snd b)" "fst c \<le> x" "x < fst c + lay_size (snd c)"
    by (auto simp: x_def apart_def)
  have small: "\<exists>q fl i. K (x - x mod 4096) = Some (SlabPage i fl)"
    if "held_block K d" "lay_size (snd d) \<le> 2048" "fst d \<le> x" "x < fst d + lay_size (snd d)" for d
    using that(1,2) assms(4)
  proof (rule held_small)
    fix q fl j i
    assume q: "K q = Some (SlabPage i fl)" "4096 dvd q" "q \<le> fst d" "fst d + lay_size (snd d) \<le> q + 4096"
    with that have "x mod 4096 = x - q" using page_mod [of q "x - q"] by simp
    with q show ?thesis by simp
  qed
  show False
  proof (cases "lay_size (snd b) \<le> 2048 \<and> lay_size (snd c) \<le> 2048")
    case True
    obtain q fl j i where q: "K q = Some (SlabPage i fl)" "0 \<le> j" "j < slab_count i" "i < 9" "4096 dvd q"
      "fst b = q + obj_offset i + j * obj_bytes i" "q \<le> fst b" "fst b + lay_size (snd b) \<le> q + 4096"
      "lay_size (snd b) \<le> obj_bytes i"
      by (rule held_small [OF assms(1) _ assms(4)]) (use True in auto)
    obtain q' fl' j' i' where q': "K q' = Some (SlabPage i' fl')" "0 \<le> j'" "j' < slab_count i'" "4096 dvd q'"
      "fst c = q' + obj_offset i' + j' * obj_bytes i'" "q' \<le> fst c" "fst c + lay_size (snd c) \<le> q' + 4096"
      "lay_size (snd c) \<le> obj_bytes i'"
      by (rule held_small [OF assms(2) _ assms(4)]) (use True in auto)
    have "q' = q" by (rule page_unique [of _ _ "x - q'" "x - q"]) (use q q' x in auto)
    with q q' have i': "i' = i" by simp
    with q q' assms(3) \<open>q' = q\<close> have "j \<noteq> j'" by auto
    then have "j * obj_bytes i + obj_bytes i \<le> j' * obj_bytes i \<or> j' * obj_bytes i + obj_bytes i \<le> j * obj_bytes i"
      using slab_geometry(3) [OF q(4)] mult_right_mono [of "j + 1" j' "obj_bytes i"]
        mult_right_mono [of "j' + 1" j "obj_bytes i"] by (cases "j < j'") (auto simp: algebra_simps)
    with q q' i' \<open>q' = q\<close> x show False by auto
  next
    case False
    with small [OF assms(1)] small [OF assms(2)] held_big_page [OF assms(1)] held_big_page [OF assms(2)] x assms(3)
    show False by (metis option.inject page_use.distinct(5) page_use.inject(3) page_use.simps(9))
  qed
qed

lemma heap_okD:
  assumes "heap_ok lo hi s K" "page_alloc s = Some pa"
  shows "pa_end pa = hi" "4096 dvd pa_next pa" "lo \<le> pa_next pa" "pa_next pa \<le> hi" "0 < lo" "4096 dvd lo"
    "hi + 4096 < 0x800000000000"
    "q \<in> dom K \<Longrightarrow> 4096 dvd q" "q \<in> dom K \<Longrightarrow> lo \<le> q" "q \<in> dom K \<Longrightarrow> q + 4096 \<le> pa_next pa"
  using assms by (auto simp: heap_ok_def)

lemma heap_ok_pa:
  assumes "heap_ok lo hi s K"
  obtains pa where "page_alloc s = Some pa"
  using assms by (auto simp: heap_ok_def)

lemma held_block_range:
  assumes "held_block K b" "heap_ok lo hi s K" "page_alloc s = Some pa"
  shows "lay_align (snd b) dvd fst b" "lo \<le> fst b" "fst b + lay_size (snd b) \<le> pa_next pa" "pa_next pa \<le> hi"
proof -
  note h = heap_okD(4,8-10) [OF assms(2,3)]
  have l: "slab_layout_ok (snd b)" using assms(1) by (simp add: held_block_def)
  have "lay_align (snd b) dvd fst b \<and> lo \<le> fst b \<and> fst b + lay_size (snd b) \<le> pa_next pa"
  proof (cases "lay_size (snd b) \<le> 2048")
    case True
    obtain q fl i where q: "K q = Some (SlabPage i fl)" "q \<le> fst b" "fst b + lay_size (snd b) \<le> q + 4096" "8 dvd fst b"
      by (rule held_small [OF assms(1) True]) (use h(2) in auto)
    have "q \<in> dom K" using q(1) by blast
    from h(3,4) [OF this] h(1) q slab_layout_okD(2) [OF l True] show ?thesis by (auto intro: dvd_trans)
  next
    case False
    let ?e = "fst b + lay_size (snd b) - 1"
    have "4096 dvd fst b" using assms(1) False by (simp add: held_block_def)
    moreover obtain k where k: "lay_align (snd b) = 2 ^ k" "2 ^ k \<le> (4096 :: int)"
      using l False layout_okD(4) by (auto simp: slab_layout_ok_def)
    then have "k \<le> 12" using power_increasing [of 13 k "2 :: int"] by (cases "k \<le> 12") auto
    then have "lay_align (snd b) dvd 2 ^ 12" unfolding k(1) by (rule le_imp_power_dvd)
    ultimately have a: "lay_align (snd b) dvd fst b" by (auto intro: dvd_trans)
    have "K (fst b - fst b mod 4096) = Some (BigPage (fst b) (snd b))" "K (?e - ?e mod 4096) = Some (BigPage (fst b) (snd b))"
      by (rule held_big_page [OF assms(1)]; use False in simp)+
    then have "fst b - fst b mod 4096 \<in> dom K" "?e - ?e mod 4096 \<in> dom K" by blast+
    with h(3) [of "fst b - fst b mod 4096"] h(4) [of "?e - ?e mod 4096"] h(1) a \<open>4096 dvd fst b\<close> show ?thesis
      using pos_mod_bound [of 4096 ?e] by (simp add: dvd_eq_mod_eq_0)
  qed
  with h(1) show "lay_align (snd b) dvd fst b" "lo \<le> fst b" "fst b + lay_size (snd b) \<le> pa_next pa" "pa_next pa \<le> hi"
    by simp_all
qed

lemma held_blocks_ok:
  assumes "held K L" "heap_ok lo hi s K"
  shows "blocks_ok lo hi L"
  unfolding blocks_ok_def
proof (intro conjI ballI impI)
  fix b assume "b \<in> L"
  then have "held_block K b" using assms(1) by (simp add: held_def)
  moreover obtain pa where "page_alloc s = Some pa" using assms(2) by (auto simp: heap_ok_def)
  ultimately show "lay_align (snd b) dvd fst b" "lo \<le> fst b" "fst b + lay_size (snd b) \<le> hi"
    using held_block_range [OF _ assms(2)] by (blast intro: order_trans)+
next
  fix b c assume "b \<in> L" "c \<in> L" "b \<noteq> c"
  with assms(1) have "held_block K b" "held_block K c" "fst b \<noteq> fst c" by (auto simp: held_def inj_on_def)
  moreover have "\<forall>q \<in> dom K. 4096 dvd q" using assms(2) by (auto simp: heap_ok_def)
  ultimately show "apart b c" by (rule held_apart)
qed

section \<open>Taking pages\<close>

lemma virt_okD:
  assumes "virt_ok V"
  shows "0 \<le> a \<Longrightarrow> a < 0x800000000000 \<Longrightarrow> va_new V a = Val a"
    "0 \<le> a \<Longrightarrow> 0 \<le> b \<Longrightarrow> a + b < 0x800000000000 \<Longrightarrow> va_add V a b = Val (a + b)"
    "va_add V a b = Val c \<Longrightarrow> c = a + b \<or> (0x800000000000 \<le> a + b \<and> c = a + b + 0xFFFF000000000000)"
  using assms unfolding virt_ok_def by blast+

lemma alloc_pages_ok:
  assumes "virt_ok V" "heap_ok lo hi s K" "page_alloc s = Some pa" "0 \<le> num"
    "alloc_pages V pa num = Val (r, pa')"
  shows "(r = None \<and> pa' = pa) \<or> (r = Some (pa_next pa) \<and> pa' = pa\<lparr>pa_next := pa_next pa + num * 4096\<rparr>
    \<and> pa_next pa + num * 4096 \<le> hi)"
proof -
  note h = heap_okD(1,7) [OF assms(2,3)]
  from assms(5) show ?thesis
    by (auto simp: alloc_pages_def run_simps usize_mul_def PAGE_SIZE_def h(1) split: if_splits
        dest!: virt_okD(3) [OF assms(1)]) (use h(2) in simp_all)
qed

lemma alloc_pages_one:
  assumes "virt_ok V" "heap_ok lo hi s K" "page_alloc s = Some pa"
  shows "alloc_pages V pa 1 =
    Val (if pa_next pa + 4096 \<le> hi then (Some (pa_next pa), pa\<lparr>pa_next := pa_next pa + 4096\<rparr>) else (None, pa))"
proof -
  note h = heap_okD [OF assms(2,3)]
  then have "va_add V (pa_next pa) 4096 = Val (pa_next pa + 4096)" by (intro virt_okD(2) [OF assms(1)]) auto
  with h(1) show ?thesis by (simp add: alloc_pages_def usize_mul_def PAGE_SIZE_def)
qed

end
