(* ===== verification/Slab_Pages.thy ===== *)
theory Slab_Pages
  imports Slab_Inv
begin

unbundle bit_operations_syntax

text \<open>
  Taking pages keeps the invariant of the slab allocator: frame lemmas for the lists and the page
  owners, and a request for several pages.
\<close>

section \<open>Frames\<close>

lemma rings_frame:
  assumes "rings n p R" "\<And>x. x \<in> nodes R \<Longrightarrow> n' x = n x \<and> p' x = p x"
  shows "rings n' p' R"
  unfolding rings_def
proof (intro conjI allI impI)
  fix h xs assume h: "R h = Some xs"
  have "ring n' p' h xs = ring n p h xs"
    unfolding ring_def by (intro ring_seg_cong) (use h assms(2) nodes_memI in blast)+
  with h rings_ring [OF assms(1)] rings_distinct [OF assms(1)] show "ring n' p' h xs" "distinct (h # xs)" by blast+
next
  fix h xs h' ys assume "R h = Some xs \<and> R h' = Some ys \<and> h \<noteq> h'"
  with rings_disjoint [OF assms(1)] show "set (h # xs) \<inter> set (h' # ys) = {}" by blast
qed

lemma held_mono:
  assumes "held K L" "K \<subseteq>\<^sub>m K'"
  shows "held K' L"
proof -
  have sub: "K q = Some u \<Longrightarrow> K' q = Some u" for q u using assms(2) by (force simp: map_le_def)
  have "held_block K' b" if "held_block K b" for b
    using that sub unfolding held_block_def by (auto split: if_splits)
  with assms(1) show ?thesis by (simp add: held_def)
qed

lemma list_head_cache:
  assumes "node_caches s ! i = c"
  shows "slabs_full c = list_head s i 0" "slabs_partial c = list_head s i 1" "slabs_free c = list_head s i 2"
  using assms by (simp_all add: slabs_full_def slabs_partial_def slabs_free_def list_head_def)

lemma slab_ghostD:
  assumes "slab_ghost V lo hi s K R"
  shows "virt_ok V" "heap_ok lo hi s K" "caches_ok s K" "lists_ok s K R" "slabs_ok s K R"
    "rings (ln_next s) (ln_prev s) R"
    "dom R = {h. \<exists>i k. i < 9 \<and> k < 3 \<and> node_caches s ! i \<noteq> 0 \<and> h = list_head s i k}"
    "length (node_caches s) = 9"
  using assms by (simp_all add: slab_ghost_def lists_ok_def caches_ok_def)

lemma cache_props:
  assumes "slab_ghost V lo hi s K R" "i < 9" "node_caches s ! i \<noteq> 0"
  shows "K (node_caches s ! i) = Some (CachePage i)" "c_obj_size s (node_caches s ! i) = obj_bytes i"
    "c_num s (node_caches s ! i) = slab_count i" "4096 dvd node_caches s ! i"
proof -
  from assms show k: "K (node_caches s ! i) = Some (CachePage i)" "c_obj_size s (node_caches s ! i) = obj_bytes i"
    "c_num s (node_caches s ! i) = slab_count i"
    by (simp_all add: slab_ghost_def caches_ok_def Let_def)
  from k(1) show "4096 dvd node_caches s ! i"
    using slab_ghostD(2) [OF assms(1)] heap_okD(8) by (metis domI heap_ok_pa)
qed

lemma list_head_inj:
  assumes "slab_ghost V lo hi s K R" "i < 9" "j < 9" "k < 3" "m < 3" "node_caches s ! i \<noteq> 0" "node_caches s ! j \<noteq> 0"
    "list_head s i k = list_head s j m"
  shows "i = j \<and> k = m"
proof -
  note ci = cache_props [OF assms(1,2,6)] and cj = cache_props [OF assms(1,3,7)]
  have b: "0 \<le> 16 * int k" "16 * int k < 4096" "0 \<le> 16 * int m" "16 * int m < 4096" using assms(4,5) by simp_all
  note u = page_unique [OF ci(4) cj(4) b assms(8) [unfolded list_head_def]]
  have "Some (CachePage i) = Some (CachePage j)" using ci(1) cj(1) unfolding u(1) by (rule trans [OF sym])
  then show ?thesis using u(2) by auto
qed

lemma list_contents:
  assumes "slab_ghost V lo hi s K R" "i < 9" "k < 3" "node_caches s ! i \<noteq> 0"
  obtains xs where "R (list_head s i k) = Some xs"
    "\<forall>q \<in> set xs. \<exists>fl. K q = Some (SlabPage i fl) \<and> in_list k i fl"
proof -
  have "list_head s i k \<in> dom R" using slab_ghostD(7) [OF assms(1)] assms(2-4) by blast
  then obtain xs where xs: "R (list_head s i k) = Some xs" by blast
  moreover have "\<forall>q \<in> set xs. \<exists>fl. K q = Some (SlabPage i fl) \<and> in_list k i fl"
    using slab_ghostD(4) [OF assms(1)] assms(2-4) xs unfolding lists_ok_def by (metis option.sel)
  ultimately show thesis by (rule that)
qed

text \<open>All list nodes lie in pages that are already taken.\<close>

lemma nodes_taken:
  assumes "slab_ghost V lo hi s K R" "page_alloc s = Some pa" "x \<in> nodes R"
  shows "x < pa_next pa"
proof -
  note h = heap_okD(10) [OF slab_ghostD(2) [OF assms(1)] assms(2)]
  have heads: "\<exists>i k. i < 9 \<and> k < 3 \<and> node_caches s ! i \<noteq> 0 \<and> h = list_head s i k" if "h \<in> dom R" for h
    using that slab_ghostD(7) [OF assms(1)] by blast
  have "\<exists>q \<in> dom K. x < q + 4096"
  proof (cases "x \<in> dom R")
    case True
    then obtain i k where i: "i < 9" "k < 3" "node_caches s ! i \<noteq> 0" "x = list_head s i k" using heads by blast
    with cache_props(1) [OF assms(1) i(1,3)] show ?thesis
      by (intro bexI [of _ "node_caches s ! i"]) (auto simp: list_head_def)
  next
    case False
    then obtain h xs where x: "R h = Some xs" "x \<in> set xs" using assms(3) by (auto simp: nodes_def ran_def)
    then obtain i k where i: "i < 9" "k < 3" "node_caches s ! i \<noteq> 0" "h = list_head s i k" using heads by blast
    obtain ys where "R (list_head s i k) = Some ys" "\<forall>q \<in> set ys. \<exists>fl. K q = Some (SlabPage i fl) \<and> in_list k i fl"
      using list_contents [OF assms(1) i(1-3)] .
    with x i(4) obtain fl where "K x = Some (SlabPage i fl)" by auto
    then show ?thesis by (intro bexI [of _ x]) auto
  qed
  with h show ?thesis by fastforce
qed

section \<open>Taking pages\<close>

text \<open>New pages that no list refers to yet.\<close>

lemma ghost_extend:
  assumes "slab_ghost V lo hi s K R" "page_alloc s = Some pa" "K \<subseteq>\<^sub>m K'"
    "\<And>q. q \<in> dom K' \<Longrightarrow> q \<notin> dom K \<Longrightarrow> 4096 dvd q \<and> pa_next pa \<le> q \<and> q + 4096 \<le> nx"
    "\<And>q i fl. K' q = Some (SlabPage i fl) \<Longrightarrow> q \<in> dom K"
    "pa_next pa \<le> nx" "nx \<le> hi" "4096 dvd nx"
  shows "slab_ghost V lo hi (s\<lparr>page_alloc := Some (pa\<lparr>pa_next := nx\<rparr>)\<rparr>) K' R"
proof -
  let ?s = "s\<lparr>page_alloc := Some (pa\<lparr>pa_next := nx\<rparr>)\<rparr>"
  note g = slab_ghostD [OF assms(1)]
  have sub: "K q = Some u \<Longrightarrow> K' q = Some u" for q u using assms(3) by (force simp: map_le_def)
  have slabs: "K' q = Some (SlabPage i fl) \<longleftrightarrow> K q = Some (SlabPage i fl)" for q i fl
    using assms(5) [of q i fl] sub by auto
  note h = heap_okD [OF g(2) assms(2)]
  have "4096 dvd q \<and> lo \<le> q \<and> q + 4096 \<le> nx" if "q \<in> dom K'" for q
  proof (cases "q \<in> dom K")
    case True
    from h(8-10) [OF this] assms(6) show ?thesis by simp
  next
    case False
    with assms(4) [OF that] h(3) show ?thesis by simp
  qed
  then have "heap_ok lo hi ?s K'" unfolding heap_ok_def using h(1,3,5-7) assms(6-8) by simp
  moreover have "caches_ok ?s K'" using g(3) sub by (auto simp: caches_ok_def Let_def)
  moreover have "lists_ok ?s K' R" "slabs_ok ?s K' R"
    using g(4,5) unfolding lists_ok_def slabs_ok_def slabs by (simp_all add: list_head_def slab_ok_def)
  ultimately show ?thesis using g(1) by (simp add: slab_ghost_def)
qed

lemma held_below:
  assumes "slab_ghost V lo hi s K R" "held K L" "page_alloc s = Some pa" "b \<in> L"
  shows "fst b < pa_next pa"
proof -
  have b: "held_block K b" using assms(2,4) by (simp add: held_def)
  then have "0 < lay_size (snd b)" using layout_okD(2) by (auto simp: held_block_def slab_layout_ok_def)
  with held_block_range(3) [OF b slab_ghostD(2) [OF assms(1)] assms(3)] show ?thesis by simp
qed

text \<open>A block of several pages.\<close>

definition big_pages :: "addr \<Rightarrow> addr \<Rightarrow> Layout \<Rightarrow> (addr \<rightharpoonup> page_use) \<Rightarrow> addr \<rightharpoonup> page_use" where
  "big_pages nx e l K = (\<lambda>q. if 4096 dvd q \<and> nx \<le> q \<and> q < e then Some (BigPage nx l) else K q)"

lemma page_end: "4096 dvd q \<Longrightarrow> 4096 dvd e \<Longrightarrow> q < e \<Longrightarrow> q + 4096 \<le> e" for q e :: int
  using zdvd_imp_le [of 4096 "e - q"] by auto

lemma big_ghost:
  assumes "slab_ghost V lo hi s K R" "held K L" "page_alloc s = Some pa" "slab_layout_ok l"
    "\<not> lay_size l \<le> 2048" "lay_size l \<le> num * 4096" "0 \<le> num" "pa_next pa + num * 4096 \<le> hi"
  shows "slab_ghost V lo hi (s\<lparr>page_alloc := Some (pa\<lparr>pa_next := pa_next pa + num * 4096\<rparr>)\<rparr>)
      (big_pages (pa_next pa) (pa_next pa + num * 4096) l K) R"
    "held (big_pages (pa_next pa) (pa_next pa + num * 4096) l K) (insert (pa_next pa, l) L)"
    "(pa_next pa, l) \<notin> L"
proof -
  let ?K = "big_pages (pa_next pa) (pa_next pa + num * 4096) l K"
  note h = heap_okD(2,10) [OF slab_ghostD(2) [OF assms(1)] assms(3)]
  have below: "q < pa_next pa" if "K q = Some u" for q u using h(2) [of q] that by force
  have sub: "K \<subseteq>\<^sub>m ?K" by (auto simp: map_le_def big_pages_def dest: below)
  show "slab_ghost V lo hi (s\<lparr>page_alloc := Some (pa\<lparr>pa_next := pa_next pa + num * 4096\<rparr>)\<rparr>) ?K R"
    using h(1) assms(7,8)
    by (intro ghost_extend [OF assms(1,3) sub]) (auto simp: big_pages_def page_end split: if_splits)
  have "held_block ?K (pa_next pa, l)" using assms(4-6) h(1) by (auto simp: held_block_def big_pages_def)
  moreover have "fst b \<noteq> pa_next pa" if "b \<in> L" for b using held_below [OF assms(1-3) that] by simp
  ultimately show "held ?K (insert (pa_next pa, l) L)" "(pa_next pa, l) \<notin> L"
    using held_mono [OF assms(2) sub] by (force simp: held_def inj_on_def)+
qed

lemma slab_alloc_big:
  assumes "slab_ghost V lo hi s K R" "held K L" "slab_layout_ok l" "\<not> lay_size l \<le> 2048"
    "slab_alloc V s l = Val (r, s')"
  shows "(r = None \<and> s' = s) \<or> (\<exists>p K'. r = Some p \<and> slab_ghost V lo hi s' K' R \<and> held K' (insert (p, l) L)
    \<and> (p, l) \<notin> L)"
proof -
  obtain pa where pa: "page_alloc s = Some pa" using heap_ok_pa [OF slab_ghostD(2) [OF assms(1)]] .
  define num where "num = (lay_size l + 4096 - 1) div 4096"
  have l: "layout_ok l" using assms(3) by (simp add: slab_layout_ok_def)
  have num: "lay_size l \<le> num * 4096" "0 \<le> num"
    using round_up_bounds(1) [of 4096 "lay_size l"] layout_okD(2) [OF l] by (simp_all add: num_def)
  obtain pa' where pa': "alloc_pages V pa num = Val (r, pa')" "s' = s\<lparr>page_alloc := Some pa'\<rparr>"
    using assms(4,5) pa layout_okD(1,3) [OF l]
    by (auto simp: slab_alloc_def MAX_SLAB_SIZE_def PAGE_SIZE_def usize_add_def num_def run_simps)
  from alloc_pages_ok [OF slab_ghostD(1,2) [OF assms(1)] pa num(2) pa'(1)] show ?thesis
  proof (elim disjE conjE)
    assume "r = None" "pa' = pa"
    with pa'(2) pa show ?thesis by simp
  next
    assume "r = Some (pa_next pa)" "pa' = pa\<lparr>pa_next := pa_next pa + num * 4096\<rparr>" "pa_next pa + num * 4096 \<le> hi"
    with big_ghost [OF assms(1,2) pa assms(3,4) num this(3)] pa'(2) show ?thesis by blast
  qed
qed

end
