(* ===== verification/Slab_Cache.thy ===== *)
theory Slab_Cache
  imports Slab_Pages
begin

unbundle bit_operations_syntax

text \<open>
  Finding or creating the cache of a class keeps the invariant of the slab allocator.
\<close>

section \<open>A new cache\<close>

lemma cache_write_fields [simp]:
  "c_obj_size (cache_write c ob num name s) = (c_obj_size s)(c := ob)"
  "c_num (cache_write c ob num name s) = (c_num s)(c := num)"
  "s_mem (cache_write c ob num name s) = s_mem s"
  "s_free (cache_write c ob num name s) = s_free s"
  "s_inuse (cache_write c ob num name s) = s_inuse s"
  "bufctl (cache_write c ob num name s) = bufctl s"
  by (simp_all add: cache_write_def node_init_def)

lemma cache_write_rest [simp]:
  "page_alloc (cache_write c ob num name s) = page_alloc s"
  "node_caches (cache_write c ob num name s) = node_caches s"
  by (simp_all add: cache_write_def node_init_def)

lemma nodes_upd_subset: "nodes (R(h \<mapsto> [])) \<subseteq> insert h (nodes R)"
  by (auto simp: nodes_def ran_def split: if_splits)

lemma rings_cache_write:
  assumes "rings (ln_next s) (ln_prev s) R" "\<And>x. x \<in> nodes R \<Longrightarrow> x < c"
  shows "rings (ln_next (cache_write c ob num name s)) (ln_prev (cache_write c ob num name s))
    (R(slabs_full c \<mapsto> [], slabs_partial c \<mapsto> [], slabs_free c \<mapsto> []))"
proof -
  define s0 where "s0 = s\<lparr>ln_next := (ln_next s)(slabs_full c := 0, slabs_partial c := 0, slabs_free c := 0),
    ln_prev := (ln_prev s)(slabs_full c := 0, slabs_partial c := 0, slabs_free c := 0),
    c_obj_size := (c_obj_size s)(c := ob), c_num := (c_num s)(c := num), c_name := (c_name s)(c := name)\<rparr>"
  note heads = slabs_full_def slabs_partial_def slabs_free_def
  have new: "slabs_full c \<notin> nodes R" "slabs_partial c \<notin> nodes (R(slabs_full c \<mapsto> []))"
    "slabs_free c \<notin> nodes (R(slabs_full c \<mapsto> [], slabs_partial c \<mapsto> []))"
    using assms(2) nodes_upd_subset [of R "slabs_full c"] nodes_upd_subset [of "R(slabs_full c \<mapsto> [])" "slabs_partial c"]
    by (force simp: heads)+
  have "rings (ln_next s0) (ln_prev s0) R"
    by (rule rings_frame [OF assms(1)]) (use assms(2) in \<open>force simp: s0_def heads\<close>)
  note rings_node_init [OF this new(1)]
  note rings_node_init [OF this new(2)]
  note rings_node_init [OF this new(3)]
  then show ?thesis by (simp add: cache_write_def s0_def)
qed

definition with_cache :: "nat \<Rightarrow> addr \<Rightarrow> string \<Rightarrow> SlabAllocator \<Rightarrow> SlabAllocator" where
  "with_cache i c name s =
     (cache_write c (obj_bytes i) (slab_count i) name s)\<lparr>node_caches := (node_caches s)[i := c]\<rparr>"

lemma page_nonzero:
  assumes "slab_ghost V lo hi s K R" "K q = Some u"
  shows "q \<noteq> 0"
proof -
  obtain pa where "page_alloc s = Some pa" using heap_ok_pa [OF slab_ghostD(2) [OF assms(1)]] .
  note heap_okD(5,9) [OF slab_ghostD(2) [OF assms(1)] this]
  with assms(2) show ?thesis by force
qed

abbreviation cache_lists :: "addr \<Rightarrow> (addr \<rightharpoonup> addr list) \<Rightarrow> addr \<rightharpoonup> addr list" where
  "cache_lists c R \<equiv> R(slabs_full c \<mapsto> [], slabs_partial c \<mapsto> [], slabs_free c \<mapsto> [])"

lemma cache_lists_new: "k < 3 \<Longrightarrow> cache_lists c R (c + 16 * int k) = Some []"
proof -
  assume "k < 3"
  then have "k = 0 \<or> k = 1 \<or> k = 2" by linarith
  then show ?thesis by (auto simp: slabs_full_def slabs_partial_def slabs_free_def)
qed

lemma cache_lists_old:
  assumes "\<And>x. x \<in> nodes R \<Longrightarrow> x < c" "h \<in> dom R"
  shows "cache_lists c R h = R h"
proof -
  have "h \<in> nodes R" using assms(2) by (simp add: nodes_def)
  from assms(1) [OF this] show ?thesis by (auto simp: slabs_full_def slabs_partial_def slabs_free_def)
qed

lemma cache_lists_dom: "dom (cache_lists c R) = dom R \<union> {h. \<exists>k < 3. h = c + 16 * int k}"
proof (intro equalityI subsetI)
  fix h assume "h \<in> dom (cache_lists c R)"
  then have "h \<in> dom R \<or> h = c + 16 * int 0 \<or> h = c + 16 * int 1 \<or> h = c + 16 * int 2"
    by (auto simp: slabs_full_def slabs_partial_def slabs_free_def split: if_splits)
  moreover have "(0 :: nat) < 3" "(1 :: nat) < 3" "(2 :: nat) < 3" by simp_all
  ultimately show "h \<in> dom R \<union> {h. \<exists>k < 3. h = c + 16 * int k}" by blast
next
  fix h assume "h \<in> dom R \<union> {h. \<exists>k < 3. h = c + 16 * int k}"
  then show "h \<in> dom (cache_lists c R)"
  proof
    assume "h \<in> {h. \<exists>k < 3. h = c + 16 * int k}"
    then show ?thesis using cache_lists_new [where c = c and R = R] by blast
  qed auto
qed

lemma with_cache_heads:
  assumes "length (node_caches s) = 9" "i < 9"
  shows "node_caches (with_cache i c name s) ! j = (if j = i then c else node_caches s ! j)"
    "list_head (with_cache i c name s) j k = (if j = i then c + 16 * int k else list_head s j k)"
  using assms by (cases "j = i"; simp add: with_cache_def list_head_def)+

lemma with_cache_lists_dom:
  assumes "slab_ghost V lo hi s K R" "i < 9" "node_caches s ! i = 0" "c \<noteq> 0"
  shows "dom (cache_lists c R) = {h. \<exists>j k. j < 9 \<and> k < 3 \<and> node_caches (with_cache i c name s) ! j \<noteq> 0
    \<and> h = list_head (with_cache i c name s) j k}"
  unfolding cache_lists_dom slab_ghostD(7) [OF assms(1)] with_cache_heads [OF slab_ghostD(8) [OF assms(1)] assms(2)]
  using assms(2-4) by (auto split: if_splits)

text \<open>Writing the cache of a class into a page it owns, above every list node.\<close>

lemma ghost_new_cache:
  assumes "slab_ghost V lo hi s K R" "i < 9" "node_caches s ! i = 0" "K c = Some (CachePage i)"
    "\<And>x. x \<in> nodes R \<Longrightarrow> x < c" "\<And>j. j < 9 \<Longrightarrow> node_caches s ! j \<noteq> c"
  shows "slab_ghost V lo hi (with_cache i c name s) K (cache_lists c R)"
proof -
  let ?s = "with_cache i c name s" and ?R = "cache_lists c R"
  note g = slab_ghostD [OF assms(1)]
  note hd = with_cache_heads [OF g(8) assms(2)]
  have old: "?R (list_head s j k) = R (list_head s j k)" if "j < 9" "k < 3" "node_caches s ! j \<noteq> 0" for j k
    by (rule cache_lists_old [OF assms(5)]) (use g(7) that in auto)
  have "heap_ok lo hi ?s K" using g(2) by (simp add: heap_ok_def with_cache_def)
  moreover have "caches_ok ?s K"
    unfolding caches_ok_def Let_def
  proof (intro conjI allI impI)
    fix j assume j: "j < 9" "node_caches ?s ! j \<noteq> 0"
    then show "K (node_caches ?s ! j) = Some (CachePage j)" "c_obj_size ?s (node_caches ?s ! j) = obj_bytes j"
      "c_num ?s (node_caches ?s ! j) = slab_count j"
      using hd(1) [of c name j] assms(4,6) cache_props(1-3) [OF assms(1) j(1)]
      by (auto simp: with_cache_def split: if_splits)
  qed (use g(8) in \<open>simp add: with_cache_def\<close>)
  moreover have "rings (ln_next ?s) (ln_prev ?s) ?R"
    using rings_cache_write [OF g(6) assms(5)] by (simp add: with_cache_def)
  moreover have "\<exists>fl. K q = Some (SlabPage j fl) \<and> in_list k j fl"
    if j: "j < 9" "k < 3" "node_caches ?s ! j \<noteq> 0" and q: "q \<in> set (the (?R (list_head ?s j k)))" for j k q
  proof (cases "j = i")
    case True
    with q cache_lists_new [OF j(2), where c = c and R = R] show ?thesis unfolding hd by simp
  next
    case False
    with j hd(1) have c: "node_caches s ! j \<noteq> 0" by simp
    obtain xs where xs: "R (list_head s j k) = Some xs"
      "\<forall>q \<in> set xs. \<exists>fl. K q = Some (SlabPage j fl) \<and> in_list k j fl"
      using list_contents [OF assms(1) j(1,2) c] .
    have "q \<in> set xs" using q False old [OF j(1,2) c] xs(1) unfolding hd by simp
    with xs(2) show ?thesis by blast
  qed
  moreover have "slabs_ok ?s K ?R"
    unfolding slabs_ok_def
  proof (intro allI impI)
    fix q j fl assume q: "K q = Some (SlabPage j fl)"
    then obtain k where k: "j < 9" "node_caches s ! j \<noteq> 0" "k < 3" "q \<in> set (the (R (list_head s j k)))" "slab_ok s q j fl"
      using g(5) unfolding slabs_ok_def by blast
    then have "j \<noteq> i" using assms(3) by auto
    with k old [OF k(1,3,2)] have "node_caches ?s ! j \<noteq> 0" "q \<in> set (the (?R (list_head ?s j k)))"
      unfolding hd by simp_all
    moreover have "slab_ok ?s q j fl" using k(5) by (simp add: slab_ok_def with_cache_def)
    ultimately show "j < 9 \<and> node_caches ?s ! j \<noteq> 0 \<and> (\<exists>k < 3. q \<in> set (the (?R (list_head ?s j k)))) \<and> slab_ok ?s q j fl"
      using k(1,3) by blast
  qed
  ultimately show ?thesis
    using g(1) with_cache_lists_dom [OF assms(1-3) page_nonzero [OF assms(1,4)], of name]
    unfolding slab_ghost_def lists_ok_def by blast
qed

lemma get_or_create_cache_old:
  assumes "slab_ghost V lo hi s K R" "n \<in> set slab_sizes" "node_caches s ! size_index n \<noteq> 0"
  shows "get_or_create_cache V s n = Val (node_caches s ! size_index n, s)"
  using slab_sizes_class [OF assms(2)] slab_ghostD(8) [OF assms(1)] assms(3)
  by (simp add: get_or_create_cache_def)

lemma get_or_create_cache_new:
  assumes "slab_ghost V lo hi s K R" "n \<in> set slab_sizes" "node_caches s ! size_index n = 0" "page_alloc s = Some pa"
  shows "get_or_create_cache V s n =
    (if pa_next pa + 4096 \<le> hi
     then Val (pa_next pa, with_cache (size_index n) (pa_next pa) (CACHE_NAMES ! size_index n)
       (s\<lparr>page_alloc := Some (pa\<lparr>pa_next := pa_next pa + 4096\<rparr>)\<rparr>))
     else Panic (ExplicitPanic ''OOM Cache''))"
proof -
  note c = slab_sizes_class [OF assms(2)] and g = slab_ghostD [OF assms(1)]
  have "slab_count (size_index n) = (PAGE_SIZE - 40) div (obj_bytes (size_index n) + 4)"
    by (simp add: slab_count_def PAGE_SIZE_def)
  moreover have "usize_add (obj_bytes (size_index n)) 4 = Val (obj_bytes (size_index n) + 4)"
    using slab_geometry(5) [OF c(1)] by (simp add: usize_add_def)
  ultimately show ?thesis
    using c g(8) assms(3,4) alloc_pages_one [OF g(1,2) assms(4)]
    by (simp add: get_or_create_cache_def with_cache_def CACHE_NAMES_def Let_def)
qed

text \<open>The cache of a class is there, or a page is taken for it, or there is no page.\<close>

lemma get_or_create_cache_cases:
  assumes "slab_ghost V lo hi s K R" "held K L" "n \<in> set slab_sizes" "page_alloc s = Some pa"
  obtains (oom) "get_or_create_cache V s n = Panic (ExplicitPanic ''OOM Cache'')" "hi < pa_next pa + 4096"
    | (cache) c s' K' R' pa' where "get_or_create_cache V s n = Val (c, s')" "slab_ghost V lo hi s' K' R'" "held K' L"
      "node_caches s' ! size_index n = c" "c \<noteq> 0" "page_alloc s' = Some pa'" "pa_next pa' \<le> pa_next pa + 4096"
proof (cases "node_caches s ! size_index n = 0")
  case False
  with cache [OF get_or_create_cache_old [OF assms(1,3) False] assms(1,2) refl] assms(4) show thesis by simp
next
  case True
  note i = slab_sizes_class(1) [OF assms(3)] and g = slab_ghostD [OF assms(1)]
  note h = heap_okD [OF g(2) assms(4)]
  let ?K = "K(pa_next pa \<mapsto> CachePage (size_index n))"
  let ?s = "s\<lparr>page_alloc := Some (pa\<lparr>pa_next := pa_next pa + 4096\<rparr>)\<rparr>"
  have below: "q < pa_next pa" if "K q = Some u" for q u using h(10) [of q] that by force
  show thesis
  proof (cases "pa_next pa + 4096 \<le> hi")
    case fits: True
    have sub: "K \<subseteq>\<^sub>m ?K" by (auto simp: map_le_def dest: below)
    have gs: "slab_ghost V lo hi ?s ?K R"
      by (rule ghost_extend [OF assms(1,4) sub]) (use h(2) fits in \<open>auto split: if_splits\<close>)
    have "node_caches ?s ! j \<noteq> pa_next pa" if "j < 9" for j
    proof (cases "node_caches s ! j = 0")
      case False
      from below [OF cache_props(1) [OF assms(1) that False]] show ?thesis by simp
    qed (use h(3,5) in simp)
    with nodes_taken [OF assms(1,4)]
    have "slab_ghost V lo hi (with_cache (size_index n) (pa_next pa) (CACHE_NAMES ! size_index n) ?s) ?K
      (cache_lists (pa_next pa) R)"
      by (intro ghost_new_cache [OF gs i]) (use True in auto)
    moreover have "get_or_create_cache V s n = Val (pa_next pa,
      with_cache (size_index n) (pa_next pa) (CACHE_NAMES ! size_index n) ?s)"
      using get_or_create_cache_new [OF assms(1,3) True assms(4)] fits by simp
    ultimately show thesis
      by (intro cache) (use held_mono [OF assms(2) sub] g(8) i h(3,5) in \<open>auto simp: with_cache_def\<close>)
  next
    case False
    with oom get_or_create_cache_new [OF assms(1,3) True assms(4)] show thesis by simp
  qed
qed

end
