(* ===== verification/Slab_Grow.thy ===== *)
theory Slab_Grow
  imports Slab_Cache
begin

unbundle bit_operations_syntax

text \<open>
  Changing one slab, adding a slab to a cache, and choosing the slab of a request keep the invariant
  of the slab allocator.
\<close>

section \<open>Changing one slab\<close>

lemma free_chain_cong:
  assumes "\<And>j. j \<in> set fl \<Longrightarrow> b' (bufctl_at (q + 40) j) = b (bufctl_at (q + 40) j)"
  shows "free_chain b' q f fl = free_chain b q f fl"
  using assms by (induction fl arbitrary: f) auto

text \<open>A change inside the page \<open>q\<close> leaves the other slabs as they are.\<close>

lemma slab_ok_frame:
  assumes "slab_ok s r j fl" "j < 9" "r \<noteq> q" "4096 dvd q" "4096 dvd r"
    "s_mem s' r = s_mem s r" "s_inuse s' r = s_inuse s r" "s_free s' r = s_free s r"
    "\<And>x. x < q \<or> q + 4096 \<le> x \<Longrightarrow> bufctl s' x = bufctl s x"
  shows "slab_ok s' r j fl"
proof -
  have "free_chain (bufctl s') r (s_free s r) fl = free_chain (bufctl s) r (s_free s r) fl"
  proof (rule free_chain_cong)
    fix m assume "m \<in> set fl"
    with assms(1) have "0 \<le> m" "m < slab_count j" by (auto simp: slab_ok_def)
    then have "r \<le> bufctl_at (r + 40) m" "bufctl_at (r + 40) m < r + 4096"
      using slab_geometry(2) [OF assms(2)] by (simp_all add: bufctl_at_def)
    moreover have "r + 4096 \<le> q \<or> q + 4096 \<le> r"
      using page_end [OF assms(4,5)] page_end [OF assms(5,4)] assms(3) by linarith
    ultimately show "bufctl s' (bufctl_at (r + 40) m) = bufctl s (bufctl_at (r + 40) m)" by (intro assms(9)) auto
  qed
  with assms(1,6-8) show ?thesis by (simp add: slab_ok_def)
qed

text \<open>The slab \<open>q\<close> gets a new list of free objects and stands in list \<open>k\<close> of its cache.\<close>

lemma ghost_slab_change:
  assumes "slab_ghost V lo hi s K R" "i < 9" "node_caches s ! i \<noteq> 0" "q \<in> dom K" "\<And>j. K q \<noteq> Some (CachePage j)"
    "page_alloc s' = page_alloc s" "node_caches s' = node_caches s"
    "c_obj_size s' = c_obj_size s" "c_num s' = c_num s"
    "\<And>r j gl. K r = Some (SlabPage j gl) \<Longrightarrow> r \<noteq> q \<Longrightarrow> slab_ok s r j gl \<Longrightarrow> j < 9 \<Longrightarrow> slab_ok s' r j gl"
    "slab_ok s' q i fl" "in_list k i fl" "k < 3"
    "rings (ln_next s') (ln_prev s') R'" "dom R' = dom R"
    "\<And>h. h \<in> dom R \<Longrightarrow> set (the (R' h)) =
      (if h = list_head s i k then insert q (set (the (R h))) else set (the (R h)) - {q})"
  shows "slab_ghost V lo hi s' (K(q \<mapsto> SlabPage i fl)) R'"
proof -
  let ?K = "K(q \<mapsto> SlabPage i fl)"
  note g = slab_ghostD [OF assms(1)]
  have lh: "list_head s' = list_head s" using assms(7) by (simp add: list_head_def fun_eq_iff)
  have dom: "list_head s j m \<in> dom R" if "j < 9" "m < 3" "node_caches s ! j \<noteq> 0" for j m using g(7) that by blast
  have "dom ?K = dom K" using assms(4) by auto
  then have "heap_ok lo hi s' ?K" using g(2) assms(6) by (simp add: heap_ok_def)
  moreover have "caches_ok s' ?K"
    unfolding caches_ok_def Let_def
  proof (intro conjI allI impI)
    fix j assume "j < 9" "node_caches s' ! j \<noteq> 0"
    with cache_props(1-3) [OF assms(1), of j] assms(5,7-9)
    show "?K (node_caches s' ! j) = Some (CachePage j)" "c_obj_size s' (node_caches s' ! j) = obj_bytes j"
      "c_num s' (node_caches s' ! j) = slab_count j"
      by auto
  qed (use g(8) assms(7) in simp)
  moreover have "\<exists>gl. ?K x = Some (SlabPage j gl) \<and> in_list m j gl"
    if j: "j < 9" "m < 3" "node_caches s ! j \<noteq> 0" and x: "x \<in> set (the (R' (list_head s j m)))" for j m x
  proof (cases "x = q")
    case True
    with x assms(16) [OF dom [OF j]] have "list_head s j m = list_head s i k" by (auto split: if_splits)
    with list_head_inj [OF assms(1) j(1) assms(2) j(2) assms(13) j(3) assms(3)] True assms(12) show ?thesis by simp
  next
    case False
    with x assms(16) [OF dom [OF j]] have "x \<in> set (the (R (list_head s j m)))" by (auto split: if_splits)
    moreover obtain xs where "R (list_head s j m) = Some xs"
      "\<forall>x \<in> set xs. \<exists>fl. K x = Some (SlabPage j fl) \<and> in_list m j fl"
      using list_contents [OF assms(1) j] .
    ultimately show ?thesis using False by simp
  qed
  moreover have "slabs_ok s' ?K R'"
    unfolding slabs_ok_def lh assms(7)
  proof (intro allI impI)
    fix r j gl assume r: "?K r = Some (SlabPage j gl)"
    show "j < 9 \<and> node_caches s ! j \<noteq> 0 \<and> (\<exists>k < 3. r \<in> set (the (R' (list_head s j k)))) \<and> slab_ok s' r j gl"
    proof (cases "r = q")
      case True
      with r assms(2,3,11,13) assms(16) [OF dom [OF assms(2,13,3)]] show ?thesis by auto
    next
      case False
      with r have r': "K r = Some (SlabPage j gl)" by simp
      then obtain m where m: "j < 9" "node_caches s ! j \<noteq> 0" "m < 3" "r \<in> set (the (R (list_head s j m)))" "slab_ok s r j gl"
        using g(5) unfolding slabs_ok_def by blast
      with assms(16) [OF dom [OF m(1,3,2)]] False have "r \<in> set (the (R' (list_head s j m)))" by auto
      with m assms(10) [OF r' False] show ?thesis by blast
    qed
  qed
  ultimately show ?thesis
    using g(1,7) assms(7,14,15) unfolding slab_ghost_def lists_ok_def lh assms(7) by auto
qed

text \<open>Moving a slab from the list it is in to the front of another.\<close>

lemma rings_move:
  assumes "rings (ln_next s) (ln_prev s) R" "R h = Some xs" "q \<in> set xs" "h' \<in> dom R"
  obtains R' where "rings (ln_next (list_add q h' (list_del q s))) (ln_prev (list_add q h' (list_del q s))) R'"
    "dom R' = dom R"
    "\<And>a. a \<in> dom R \<Longrightarrow> set (the (R' a)) = (if a = h' then insert q (set (the (R a))) else set (the (R a)) - {q})"
proof -
  define R1 where "R1 = R(h \<mapsto> remove1 q xs)"
  note del = rings_list_del [OF assms(1-3), folded R1_def]
  have "dom R1 = dom R" using assms(2) by (auto simp: R1_def)
  with assms(4) obtain ys where ys: "R1 h' = Some ys" by blast
  note add = rings_list_add [OF del(1) ys del(2)]
  have R1: "set (the (R1 a)) = set (the (R a)) - {q}" if "a \<in> dom R" for a
  proof (cases "a = h")
    case True
    with assms(2) rings_distinct [OF assms(1,2)] show ?thesis by (simp add: R1_def)
  next
    case False
    from \<open>a \<in> dom R\<close> obtain zs where "R a = Some zs" by blast
    with rings_disjoint [OF assms(1,2) this] False assms(3) show ?thesis by (auto simp: R1_def)
  qed
  have "set ys = set (the (R h')) - {q}" using R1 [OF assms(4)] ys by simp
  then show thesis by (intro that [OF add]) (use \<open>dom R1 = dom R\<close> R1 assms(4) in auto)
qed

section \<open>A new slab\<close>

definition bufctl_entry :: "addr \<Rightarrow> nat \<Rightarrow> u32" where
  "bufctl_entry num i = (if int i + 1 = num then bufctl_end else word_of_int (int i + 1))"

lemma bufctl_fill_fields [simp]:
  "ln_next (bufctl_fill b num is s) = ln_next s" "ln_prev (bufctl_fill b num is s) = ln_prev s"
  "c_obj_size (bufctl_fill b num is s) = c_obj_size s" "c_num (bufctl_fill b num is s) = c_num s"
  "s_mem (bufctl_fill b num is s) = s_mem s" "s_free (bufctl_fill b num is s) = s_free s"
  "s_inuse (bufctl_fill b num is s) = s_inuse s"
  by (induction "is" arbitrary: s) (simp_all add: Let_def)

lemma bufctl_fill_rest [simp]:
  "page_alloc (bufctl_fill b num is s) = page_alloc s" "node_caches (bufctl_fill b num is s) = node_caches s"
  by (induction "is" arbitrary: s) (simp_all add: Let_def)

lemma bufctl_fill_out:
  "(\<And>i. i \<in> set is \<Longrightarrow> x \<noteq> bufctl_at b (int i)) \<Longrightarrow> bufctl (bufctl_fill b num is s) x = bufctl s x"
  by (induction "is" arbitrary: s) (simp_all add: Let_def)

lemma bufctl_fill_in:
  "i \<in> set is \<Longrightarrow> bufctl (bufctl_fill b num is s) (bufctl_at b (int i)) = bufctl_entry num i"
proof (induction "is" arbitrary: s)
  case (Cons j js)
  show ?case
  proof (cases "i \<in> set js")
    case True
    then show ?thesis using Cons.IH by (simp add: Let_def)
  next
    case False
    with Cons.prems have "j = i" by simp
    moreover have "bufctl_at b (int i) \<noteq> bufctl_at b (int m)" if "m \<in> set js" for m
      using that False by (auto simp: bufctl_at_def)
    ultimately show ?thesis by (simp add: bufctl_fill_out Let_def bufctl_entry_def)
  qed
qed simp

lemma free_chain_upt:
  assumes "\<And>j. j < n \<Longrightarrow> b (bufctl_at (q + 40) (int j)) = bufctl_entry (int n) j" "k < n"
  shows "free_chain b q (word_of_int (int k)) (map int [k..<n])"
  using assms(2)
proof (induction "n - k" arbitrary: k)
  case (Suc d)
  then have step: "map int [k..<n] = int k # map int [Suc k..<n]" by (simp add: upt_conv_Cons)
  show ?case
  proof (cases "Suc k = n")
    case True
    with step assms(1) [OF Suc.prems] show ?thesis by (simp add: bufctl_entry_def)
  next
    case False
    with Suc.hyps(2) Suc.prems have "free_chain b q (word_of_int (int (Suc k))) (map int [Suc k..<n])"
      by (intro Suc.hyps(1)) auto
    moreover have "bufctl_entry (int n) k = word_of_int (int (Suc k))" using False by (simp add: bufctl_entry_def)
    ultimately show ?thesis unfolding step using assms(1) [OF Suc.prems] by simp
  qed
qed simp

definition new_slab :: "nat \<Rightarrow> addr \<Rightarrow> SlabAllocator \<Rightarrow> SlabAllocator" where
  "new_slab i q s = bufctl_fill (q + 40) (slab_count i) [0..<nat (slab_count i)]
     (s\<lparr>ln_next := (ln_next s)(q := 0), ln_prev := (ln_prev s)(q := 0), s_mem := (s_mem s)(q := q + obj_offset i),
        s_free := (s_free s)(q := 0), s_inuse := (s_inuse s)(q := 0)\<rparr>)"

abbreviation all_free :: "nat \<Rightarrow> addr list" where
  "all_free i \<equiv> map int [0..<nat (slab_count i)]"

lemma list_add_fields [simp]:
  "c_obj_size (list_add e h s) = c_obj_size s" "c_num (list_add e h s) = c_num s" "s_mem (list_add e h s) = s_mem s"
  "s_free (list_add e h s) = s_free s" "s_inuse (list_add e h s) = s_inuse s" "bufctl (list_add e h s) = bufctl s"
  by (simp_all add: list_add_def Let_def)

lemma list_add_rest [simp]:
  "page_alloc (list_add e h s) = page_alloc s" "node_caches (list_add e h s) = node_caches s"
  by (simp_all add: list_add_def Let_def)

lemma list_del_fields [simp]:
  "c_obj_size (list_del e s) = c_obj_size s" "c_num (list_del e s) = c_num s" "s_mem (list_del e s) = s_mem s"
  "s_free (list_del e s) = s_free s" "s_inuse (list_del e s) = s_inuse s" "bufctl (list_del e s) = bufctl s"
  by (simp_all add: list_del_def Let_def)

lemma list_del_rest [simp]:
  "page_alloc (list_del e s) = page_alloc s" "node_caches (list_del e s) = node_caches s"
  by (simp_all add: list_del_def Let_def)

lemma new_slab_ok:
  assumes "i < 9" "s' = list_add e h (new_slab i q s)"
  shows "slab_ok s' q i (all_free i)"
proof -
  note n = slab_geometry(1) [OF assms(1)]
  then have "free_chain (bufctl s') q (word_of_int (int 0)) (all_free i)"
    by (intro free_chain_upt) (auto simp: assms(2) new_slab_def bufctl_fill_in)
  with n show ?thesis
    by (auto simp: slab_ok_def assms(2) new_slab_def distinct_map inj_on_def)
qed

lemma new_slab_frame:
  assumes "i < 9" "s' = list_add e h (new_slab i q s)" "r \<noteq> q" "4096 dvd q" "4096 dvd r" "j < 9" "slab_ok s r j fl"
  shows "slab_ok s' r j fl"
proof (rule slab_ok_frame [OF assms(7,6,3,4,5)])
  fix x assume "x < q \<or> q + 4096 \<le> x"
  then have "x \<noteq> bufctl_at (q + 40) (int m)" if "m < nat (slab_count i)" for m
    using that slab_geometry(2) [OF assms(1)] by (auto simp: bufctl_at_def)
  then have "bufctl (new_slab i q s) x = bufctl s x"
    unfolding new_slab_def by (subst bufctl_fill_out) auto
  then show "bufctl s' x = bufctl s x" by (simp add: assms(2))
qed (use assms(3) in \<open>simp_all add: assms(2) new_slab_def\<close>)

lemma ghost_new_slab:
  assumes "slab_ghost V lo hi s K R" "i < 9" "node_caches s ! i \<noteq> 0" "K q = Some (BigPage p l)" "q \<notin> nodes R"
  obtains R' xs where
    "slab_ghost V lo hi (list_add q (list_head s i 2) (new_slab i q s)) (K(q \<mapsto> SlabPage i (all_free i))) R'"
    "R' (list_head s i 2) = Some (q # xs)"
proof -
  let ?s = "list_add q (list_head s i 2) (new_slab i q s)"
  note g = slab_ghostD [OF assms(1)]
  obtain pa where pa: "page_alloc s = Some pa" using heap_ok_pa [OF g(2)] .
  note page = heap_okD(8) [OF g(2) pa]
  have "list_head s i 2 \<in> dom R" using g(7) assms(2,3) by force
  then obtain xs where xs: "R (list_head s i 2) = Some xs" by blast
  have qx: "x \<noteq> q" if "x \<in> nodes R" for x using that assms(5) by blast
  have "rings (ln_next (new_slab i q s)) (ln_prev (new_slab i q s)) R"
    by (rule rings_frame [OF g(6)]) (simp add: new_slab_def qx)
  from rings_list_add [OF this xs assms(5)]
  have rings: "rings (ln_next ?s) (ln_prev ?s) (R(list_head s i 2 \<mapsto> q # xs))" .
  have "slab_ghost V lo hi ?s (K(q \<mapsto> SlabPage i (all_free i))) (R(list_head s i 2 \<mapsto> q # xs))"
  proof (rule ghost_slab_change [OF assms(1-3), where k = 2])
    fix r j gl assume "K r = Some (SlabPage j gl)" "r \<noteq> q" "slab_ok s r j gl" "j < 9"
    with page [of r] page [of q] assms(4) show "slab_ok ?s r j gl"
      by (intro new_slab_frame [OF assms(2) refl]) auto
  next
    fix h assume "h \<in> dom R"
    then obtain ys where "R h = Some ys" by blast
    moreover from this have "q \<notin> set ys" using assms(5) nodes_memI [of R h ys q] by blast
    ultimately show "set (the ((R(list_head s i 2 \<mapsto> q # xs)) h)) =
        (if h = list_head s i 2 then insert q (set (the (R h))) else set (the (R h)) - {q})"
      using xs by simp
  qed (use assms(4) rings xs slab_geometry(1) [OF assms(2)] new_slab_ok [OF assms(2) refl] in
      \<open>auto simp: new_slab_def in_list_def\<close>)
  then show thesis by (rule that) simp
qed

lemma cache_grow_eq:
  assumes "slab_ghost V lo hi s K R" "i < 9" "node_caches s ! i = c" "c \<noteq> 0" "page_alloc s = Some pa"
  shows "cache_grow V pa c s =
    (if pa_next pa + 4096 \<le> hi
     then Val (pa\<lparr>pa_next := pa_next pa + 4096\<rparr>, list_add (pa_next pa) (list_head s i 2) (new_slab i (pa_next pa) s))
     else Panic (ExplicitPanic ''OOM Slab''))"
proof -
  note g = slab_ghostD [OF assms(1)] and n = slab_geometry [OF assms(2)]
  note h = heap_okD [OF g(2) assms(5)]
  note c = cache_props(3) [OF assms(1,2), unfolded assms(3), OF assms(4)]
  let ?y = "40 + 4 * slab_count i + 7"
  have "8 dvd pa_next pa" using h(2) by (rule dvd_trans [rotated]) simp
  then have "(pa_next pa + ?y) mod 8 = ?y mod 8" by (simp add: mod_add_eq [symmetric, of "pa_next pa"] dvd_eq_mod_eq_0)
  moreover have "?y - ?y mod 8 = obj_offset i" unfolding obj_offset_def by (rule minus_mod_eq_div_mult)
  ultimately have start: "(pa_next pa + ?y) AND NOT 7 = pa_next pa + obj_offset i"
    using and_not_pow2 [of "pa_next pa + ?y" 3] by simp
  have "47 + (pa_next pa + slab_count i * 4) = pa_next pa + ?y" by simp
  then have start': "(47 + (pa_next pa + slab_count i * 4)) AND - 8 = pa_next pa + obj_offset i"
    using start unfolding \<open>47 + _ = _\<close> by simp
  have "bufctl_ptr (pa_next pa) = Val (pa_next pa + 40)" "usize_mul (slab_count i) 4 = Val (slab_count i * 4)"
    "usize_add (pa_next pa + 40) (slab_count i * 4) = Val (pa_next pa + 40 + slab_count i * 4)"
    "usize_add (pa_next pa + 40 + slab_count i * 4) 8 = Val (pa_next pa + 40 + slab_count i * 4 + 8)"
    using h n(2) by (simp_all add: bufctl_ptr_def usize_add_def usize_mul_def)
  then show ?thesis
    unfolding cache_grow_def alloc_pages_one [OF g(1,2) assms(5)]
    by (simp add: c start' list_head_cache [OF assms(3)] new_slab_def Let_def)
qed

lemma list_add_page_alloc:
  "(list_add e h s)\<lparr>page_alloc := x\<rparr> = list_add e h (s\<lparr>page_alloc := x\<rparr>)"
  by (simp add: list_add_def Let_def)

lemma bufctl_fill_page_alloc:
  "(bufctl_fill b num is s)\<lparr>page_alloc := x\<rparr> = bufctl_fill b num is (s\<lparr>page_alloc := x\<rparr>)"
proof (induction "is" arbitrary: s)
  case (Cons i js)
  have "(s\<lparr>bufctl := f\<rparr>)\<lparr>page_alloc := x\<rparr> = (s\<lparr>page_alloc := x\<rparr>)\<lparr>bufctl := f\<rparr>" for f by (cases s) simp
  moreover have "bufctl (s\<lparr>page_alloc := x\<rparr>) = bufctl s" by simp
  ultimately show ?case by (simp only: bufctl_fill.simps Let_def Cons.IH)
qed simp

lemma new_slab_page_alloc: "(new_slab i q s)\<lparr>page_alloc := x\<rparr> = new_slab i q (s\<lparr>page_alloc := x\<rparr>)"
  by (cases s) (simp add: new_slab_def bufctl_fill_page_alloc)

text \<open>A slab that changes lists.\<close>

lemma ghost_move:
  assumes "slab_ghost V lo hi s K R" "i < 9" "node_caches s ! i \<noteq> 0" "K q = Some (SlabPage i fl)"
    "k < 3" "q \<in> set (the (R (list_head s i k)))" "m < 3" "in_list m i fl"
  obtains R' where "slab_ghost V lo hi (list_add q (list_head s i m) (list_del q s)) K R'"
    "q \<in> set (the (R' (list_head s i m)))"
proof -
  let ?s = "list_add q (list_head s i m) (list_del q s)"
  note g = slab_ghostD [OF assms(1)]
  have dom: "list_head s i k \<in> dom R" "list_head s i m \<in> dom R" using g(7) assms(2,3,5,7) by blast+
  then obtain xs where xs: "R (list_head s i k) = Some xs" by blast
  with assms(6) have "q \<in> set xs" by simp
  obtain R' where R': "rings (ln_next ?s) (ln_prev ?s) R'" "dom R' = dom R" "\<And>a. a \<in> dom R \<Longrightarrow> set (the (R' a)) =
      (if a = list_head s i m then insert q (set (the (R a))) else set (the (R a)) - {q})"
    using rings_move [OF g(6) xs \<open>q \<in> set xs\<close> dom(2)] by blast
  have "slab_ok s q i fl" using g(5) assms(4) by (auto simp: slabs_ok_def)
  then have "slab_ghost V lo hi ?s (K(q \<mapsto> SlabPage i fl)) R'"
    by (intro ghost_slab_change [OF assms(1-3), where k = m]) (use assms(4,7,8) R' in \<open>auto simp: slab_ok_def\<close>)
  moreover have "K(q \<mapsto> SlabPage i fl) = K" using assms(4) by auto
  ultimately show thesis using that R'(3) [OF dom(2)] by simp
qed

section \<open>Choosing a slab\<close>

lemma ghost_grow:
  assumes "slab_ghost V lo hi s K R" "held K L" "i < 9" "node_caches s ! i \<noteq> 0" "page_alloc s = Some pa"
    "pa_next pa + 4096 \<le> hi"
  obtains K' R' q xs where
    "slab_ghost V lo hi ((list_add (pa_next pa) (list_head s i 2) (new_slab i (pa_next pa) s))
       \<lparr>page_alloc := Some (pa\<lparr>pa_next := pa_next pa + 4096\<rparr>)\<rparr>) K' R'"
    "held K' L" "R' (list_head s i 2) = Some (q # xs)"
proof -
  let ?s = "s\<lparr>page_alloc := Some (pa\<lparr>pa_next := pa_next pa + 4096\<rparr>)\<rparr>" and ?q = "pa_next pa"
  let ?K = "K(?q \<mapsto> BigPage ?q \<lparr>lay_size = 1, lay_align = 1\<rparr>)"
  note g = slab_ghostD [OF assms(1)]
  note h = heap_okD [OF g(2) assms(5)]
  have below: "r < ?q" if "K r = Some u" for r u using h(10) [of r] that by force
  have sub: "K \<subseteq>\<^sub>m ?K" by (auto simp: map_le_def dest: below)
  have gs: "slab_ghost V lo hi ?s ?K R"
    by (rule ghost_extend [OF assms(1,5) sub]) (use h(2) assms(6) in \<open>auto split: if_splits\<close>)
  have nq: "?q \<notin> nodes R" using nodes_taken [OF assms(1,5)] by blast
  have lh: "list_head ?s = list_head s" by (simp add: list_head_def fun_eq_iff)
  have c: "node_caches ?s ! i \<noteq> 0" "?K ?q = Some (BigPage ?q \<lparr>lay_size = 1, lay_align = 1\<rparr>)" using assms(4) by simp_all
  obtain R' xs where
    "slab_ghost V lo hi (list_add ?q (list_head s i 2) (new_slab i ?q ?s)) (?K(?q \<mapsto> SlabPage i (all_free i))) R'"
    "R' (list_head s i 2) = Some (?q # xs)"
    using ghost_new_slab [OF gs assms(3) c nq, unfolded lh] .
  moreover have "K \<subseteq>\<^sub>m ?K(?q \<mapsto> SlabPage i (all_free i))" by (auto simp: map_le_def dest: below)
  ultimately show thesis
    using that held_mono [OF assms(2)] by (simp add: list_add_page_alloc new_slab_page_alloc)
qed

lemma first_in_list:
  assumes "slab_ghost V lo hi s K R" "R h = Some (q # xs)"
  shows "ln_next s h = q"
  using ring_first [OF rings_ring [OF slab_ghostD(6) [OF assms(1)] assms(2)]] by simp

text \<open>From a non-empty list of free slabs the first one becomes partial.\<close>

lemma ghost_free_to_partial:
  assumes "slab_ghost V lo hi s K R" "i < 9" "node_caches s ! i \<noteq> 0" "R (list_head s i 2) = Some (q # xs)"
  obtains R' fl where "slab_ghost V lo hi (list_add q (list_head s i 1) (list_del q s)) K R'"
    "K q = Some (SlabPage i fl)" "fl \<noteq> []" "q \<in> set (the (R' (list_head s i 1)))"
proof -
  obtain ys where "R (list_head s i 2) = Some ys" "\<forall>r \<in> set ys. \<exists>fl. K r = Some (SlabPage i fl) \<and> in_list 2 i fl"
    using list_contents [OF assms(1,2) _ assms(3)] by (metis lessI numeral_2_eq_2 numeral_3_eq_3)
  with assms(4) obtain fl where fl: "K q = Some (SlabPage i fl)" "in_list 2 i fl" by auto
  then have "fl \<noteq> []" using slab_geometry(1) [OF assms(2)] by (auto simp: in_list_def)
  then have "in_list 1 i fl" by (simp add: in_list_def)
  with fl assms(4) obtain R' where "slab_ghost V lo hi (list_add q (list_head s i 1) (list_del q s)) K R'"
    "q \<in> set (the (R' (list_head s i 1)))"
    using ghost_move [OF assms(1-3) fl(1), of 2 1] by auto
  with that fl(1) \<open>fl \<noteq> []\<close> show thesis by blast
qed

text \<open>The outcome of the choice: a slab of the class that has a free object and stands in the partial list.\<close>

definition picked :: "virt_ops \<Rightarrow> addr \<Rightarrow> addr \<Rightarrow> block set \<Rightarrow> nat \<Rightarrow> addr \<Rightarrow> addr \<times> SlabAllocator \<Rightarrow> bool" where
  "picked V lo hi L i c r \<longleftrightarrow> (\<exists>K R fl. slab_ghost V lo hi (snd r) K R \<and> held K L \<and> node_caches (snd r) ! i = c
     \<and> K (fst r) = Some (SlabPage i fl) \<and> fl \<noteq> [] \<and> fst r \<in> set (the (R (list_head (snd r) i 1))))"

lemma pickedI:
  "slab_ghost V lo hi s K R \<Longrightarrow> held K L \<Longrightarrow> node_caches s ! i = c \<Longrightarrow> K q = Some (SlabPage i fl) \<Longrightarrow> fl \<noteq> [] \<Longrightarrow>
   q \<in> set (the (R (list_head s i 1))) \<Longrightarrow> picked V lo hi L i c (q, s)"
  unfolding picked_def fst_conv snd_conv by blast

lemma list_head_list_ops [simp]: "list_head (list_add e h s) = list_head s" "list_head (list_del e s) = list_head s"
  by (simp_all add: list_head_def fun_eq_iff)

lemma pick_free:
  assumes "slab_ghost V lo hi s K R" "held K L" "i < 9" "node_caches s ! i = c" "c \<noteq> 0" "R (list_head s i 2) = Some (q # xs)"
  shows "picked V lo hi L i c (q, list_add q (list_head s i 1) (list_del q s))"
proof -
  have "node_caches s ! i \<noteq> 0" using assms(4,5) by simp
  then obtain R' fl where "slab_ghost V lo hi (list_add q (list_head s i 1) (list_del q s)) K R'"
    "K q = Some (SlabPage i fl)" "fl \<noteq> []" "q \<in> set (the (R' (list_head s i 1)))"
    using ghost_free_to_partial [OF assms(1,3) _ assms(6)] by blast
  then show ?thesis by (intro pickedI [OF _ assms(2)]) (simp_all add: assms(4))
qed

lemma pick_slab_ok:
  assumes "slab_ghost V lo hi s K R" "held K L" "i < 9" "node_caches s ! i = c" "c \<noteq> 0" "page_alloc s = Some pa"
  shows "(pick_slab V c s = Panic (ExplicitPanic ''OOM Slab'') \<and> hi < pa_next pa + 4096)
    \<or> (\<exists>r. pick_slab V c s = Val r \<and> picked V lo hi L i c r)"
proof -
  have c: "node_caches s ! i \<noteq> 0" using assms(4,5) by simp
  note g = slab_ghostD [OF assms(1)] and hd = list_head_cache [OF assms(4)]
  obtain ps where ps: "R (list_head s i 1) = Some ps" "\<forall>r \<in> set ps. \<exists>fl. K r = Some (SlabPage i fl) \<and> in_list 1 i fl"
    using list_contents [OF assms(1,3) _ c, of 1] by auto
  obtain es where es: "R (list_head s i 2) = Some es"
    using list_contents [OF assms(1,3) _ c, of 2] by auto
  note empty = rings_list_empty [OF g(6) ps(1)] rings_list_empty [OF g(6) es]
  consider (partial) q qs where "ps = q # qs" | (free) q qs where "ps = []" "es = q # qs" | (grow) "ps = []" "es = []"
    by (cases ps; cases es) auto
  then show ?thesis
  proof cases
    case partial
    with ps(2) obtain fl where "K q = Some (SlabPage i fl)" "in_list 1 i fl" by auto
    then have "picked V lo hi L i c (q, s)"
      by (intro pickedI [OF assms(1,2,4)]) (use partial ps(1) in \<open>auto simp: in_list_def\<close>)
    moreover have "pick_slab V c s = Val (q, s)"
      using partial empty(1) first_in_list [OF assms(1)] ps(1) hd by (simp add: pick_slab_def)
    ultimately show ?thesis by blast
  next
    case free
    with pick_free [OF assms(1-5)] es empty first_in_list [OF assms(1)] hd show ?thesis by (simp add: pick_slab_def)
  next
    case grow
    note eq = cache_grow_eq [OF assms(1,3,4,5,6)]
    show ?thesis
    proof (cases "pa_next pa + 4096 \<le> hi")
      case True
      let ?s = "(list_add (pa_next pa) (list_head s i 2) (new_slab i (pa_next pa) s))
        \<lparr>page_alloc := Some (pa\<lparr>pa_next := pa_next pa + 4096\<rparr>)\<rparr>"
      obtain K' R' q xs where G: "slab_ghost V lo hi ?s K' R'" "held K' L" "R' (list_head s i 2) = Some (q # xs)"
        using ghost_grow [OF assms(1-3) c assms(6) True] .
      have nc: "node_caches ?s ! i = c" using assms(4) by (simp add: new_slab_def)
      have lh: "list_head ?s = list_head s" by (simp add: list_head_def fun_eq_iff new_slab_def)
      note pick_free [OF G(1,2) assms(3) nc assms(5), unfolded lh, OF G(3)]
      moreover have "pick_slab V c s = Val (q, list_add q (list_head s i 1) (list_del q ?s))"
        using grow empty first_in_list [OF G(1,3)] hd True eq assms(6) by (simp add: pick_slab_def)
      ultimately show ?thesis by blast
    next
      case False
      with grow empty hd eq assms(6) show ?thesis by (simp add: pick_slab_def)
    qed
  qed
qed

end
