(* ===== verification/Slab_Safe.thy ===== *)
theory Slab_Safe
  imports Slab_Grow
begin

unbundle bit_operations_syntax

text \<open>
  Taking and giving back an object keep the invariant of the slab allocator, and the allocator meets
  the contract \<open>heap_safety\<close>.
\<close>

section \<open>Edits of one slab\<close>

definition slab_edit :: "addr \<Rightarrow> SlabAllocator \<Rightarrow> SlabAllocator \<Rightarrow> bool" where
  "slab_edit q s s' \<longleftrightarrow> ln_next s' = ln_next s \<and> ln_prev s' = ln_prev s \<and> page_alloc s' = page_alloc s
     \<and> node_caches s' = node_caches s \<and> c_obj_size s' = c_obj_size s \<and> c_num s' = c_num s
     \<and> (\<forall>r. r \<noteq> q \<longrightarrow> s_mem s' r = s_mem s r \<and> s_inuse s' r = s_inuse s r \<and> s_free s' r = s_free s r)
     \<and> (\<forall>x. x < q \<or> q + 4096 \<le> x \<longrightarrow> bufctl s' x = bufctl s x)"

lemma slab_props:
  assumes "slab_ghost V lo hi s K R" "K q = Some (SlabPage i fl)"
  shows "i < 9" "node_caches s ! i \<noteq> 0" "slab_ok s q i fl" "4096 dvd q" "0 < q" "q + 4096 < 0x800000000000"
    "\<exists>k < 3. q \<in> set (the (R (list_head s i k)))"
proof -
  note g = slab_ghostD [OF assms(1)]
  show "i < 9" "node_caches s ! i \<noteq> 0" "slab_ok s q i fl" "\<exists>k < 3. q \<in> set (the (R (list_head s i k)))"
    using g(5) assms(2) by (simp_all add: slabs_ok_def)
  obtain pa where "page_alloc s = Some pa" using heap_ok_pa [OF g(2)] .
  note h = heap_okD [OF g(2) this]
  have "q \<in> dom K" using assms(2) by blast
  from h(8-10) [OF this] h(4,5,7) show "4096 dvd q" "0 < q" "q + 4096 < 0x800000000000" by simp_all
qed

lemma edit_frame:
  assumes "slab_ghost V lo hi s K R" "K q = Some (SlabPage i fl)" "slab_edit q s s1"
    "K r = Some (SlabPage j gl)" "r \<noteq> q"
  shows "slab_ok s1 r j gl"
  by (rule slab_ok_frame [OF slab_props(3,1) [OF assms(1,4)] assms(5) slab_props(4) [OF assms(1,2)]
        slab_props(4) [OF assms(1,4)]])
    (use assms(3,5) in \<open>auto simp: slab_edit_def\<close>)

lemma only_in_list:
  assumes "rings n p R" "R h = Some xs" "q \<in> set xs" "a \<in> dom R"
  shows "set (the (R a)) = (if a = h then insert q (set (the (R a))) else set (the (R a)) - {q})"
proof (cases "a = h")
  case True
  with assms(2,3) show ?thesis by auto
next
  case False
  from assms(4) obtain ys where "R a = Some ys" by blast
  with rings_disjoint [OF assms(1,2) this] False assms(3) show ?thesis by auto
qed

lemma ghost_edit:
  assumes "slab_ghost V lo hi s K R" "K q = Some (SlabPage i fl)" "slab_edit q s s1" "slab_ok s1 q i gl"
    "k < 3" "q \<in> set (the (R (list_head s i k)))"
  shows "in_list k i gl \<Longrightarrow> \<exists>R'. slab_ghost V lo hi s1 (K(q \<mapsto> SlabPage i gl)) R'"
    and "m < 3 \<Longrightarrow> in_list m i gl \<Longrightarrow>
      \<exists>R'. slab_ghost V lo hi (list_add q (list_head s i m) (list_del q s1)) (K(q \<mapsto> SlabPage i gl)) R'"
proof -
  note g = slab_ghostD [OF assms(1)] and p = slab_props [OF assms(1,2)]
  have e: "ln_next s1 = ln_next s" "ln_prev s1 = ln_prev s" "page_alloc s1 = page_alloc s"
    "node_caches s1 = node_caches s" "c_obj_size s1 = c_obj_size s" "c_num s1 = c_num s"
    using assms(3) by (simp_all add: slab_edit_def)
  have dom: "list_head s i k' \<in> dom R" if "k' < 3" for k' using g(7) p(1,2) that by blast
  then obtain xs where xs: "R (list_head s i k) = Some xs" using assms(5) by blast
  with assms(6) have q: "q \<in> set xs" by simp
  have rings: "rings (ln_next s1) (ln_prev s1) R" using g(6) e by simp
  have K: "q \<in> dom K" "K q \<noteq> Some (CachePage j)" for j using assms(2) by auto
  note frame = edit_frame [OF assms(1-3)]
  show "\<exists>R'. slab_ghost V lo hi s1 (K(q \<mapsto> SlabPage i gl)) R'" if "in_list k i gl"
    by (rule exI, rule ghost_slab_change [OF assms(1) p(1,2) K e(3-6) _ assms(4) that assms(5) rings refl])
      (use frame only_in_list [OF g(6) xs q] in auto)
  show "\<exists>R'. slab_ghost V lo hi (list_add q (list_head s i m) (list_del q s1)) (K(q \<mapsto> SlabPage i gl)) R'"
    if m: "m < 3" "in_list m i gl"
  proof -
    let ?s = "list_add q (list_head s i m) (list_del q s1)"
    obtain R' where R': "rings (ln_next ?s) (ln_prev ?s) R'" "dom R' = dom R" "\<And>a. a \<in> dom R \<Longrightarrow> set (the (R' a)) =
        (if a = list_head s i m then insert q (set (the (R a))) else set (the (R a)) - {q})"
      using rings_move [OF rings xs q dom [OF m(1)]] by blast
    have "slab_ok ?s r j hl = slab_ok s1 r j hl" for r j hl by (simp add: slab_ok_def)
    then have "slab_ghost V lo hi ?s (K(q \<mapsto> SlabPage i gl)) R'"
      by (intro ghost_slab_change [OF assms(1) p(1,2) K _ _ _ _ _ _ m(2,1) R'(1,2)])
        (use frame R'(3) assms(4) e in auto)
    then show ?thesis by blast
  qed
qed

section \<open>Objects\<close>

lemma object_inj:
  assumes "4096 dvd q" "4096 dvd r" "i < 9" "i' < 9" "0 \<le> j" "j < slab_count i" "0 \<le> j'" "j' < slab_count i'"
    "q + obj_offset i + j * obj_bytes i = r + obj_offset i' + j' * obj_bytes i'"
  shows "q = r" "i = i' \<Longrightarrow> j = j'"
proof -
  note o = object_in_page [OF assms(3,5,6)] slab_geometry [OF assms(3)] slab_geometry(1-3) [OF assms(4)]
    object_in_page [OF assms(4,7,8)]
  show "q = r"
    by (rule page_unique [OF assms(1,2), of "obj_offset i + j * obj_bytes i" "obj_offset i' + j' * obj_bytes i'"])
      (use o assms(9) in auto)
  then show "j = j'" if "i = i'" using assms(9) that o(6) by simp
qed

text \<open>A free object is nobody's block.\<close>

lemma free_not_held:
  assumes "slab_ghost V lo hi s K R" "K q = Some (SlabPage i fl)" "j \<in> set fl" "held_block K b"
  shows "fst b \<noteq> q + obj_offset i + j * obj_bytes i"
proof
  assume b: "fst b = q + obj_offset i + j * obj_bytes i"
  note p = slab_props [OF assms(1,2)]
  have j: "0 \<le> j" "j < slab_count i" using p(3) assms(3) by (auto simp: slab_ok_def)
  note o = object_in_page [OF p(1) j] slab_geometry(1,3) [OF p(1)]
  have al: "\<forall>q \<in> dom K. 4096 dvd q" using slab_ghostD(2) [OF assms(1)] by (auto simp: heap_ok_def)
  show False
  proof (cases "lay_size (snd b) \<le> 2048")
    case True
    show False
    proof (rule held_small [OF assms(4) True al])
      fix r gl m i'
      assume r: "i' < 9" "K r = Some (SlabPage i' gl)" "0 \<le> m" "m < slab_count i'" "m \<notin> set gl"
        "fst b = r + obj_offset i' + m * obj_bytes i'" "4096 dvd r"
      note inj = object_inj [OF p(4) r(7) p(1) r(1) j r(3,4) b [unfolded r(6), symmetric]]
      with r(2) assms(2) have "i' = i" "gl = fl" by auto
      with inj(2) r(5) assms(3) show False by simp
    qed
  next
    case False
    have "fst b mod 4096 = obj_offset i + j * obj_bytes i" unfolding b add.assoc
      by (rule page_mod [OF p(4)]) (use o in auto)
    moreover have "4096 dvd fst b" using assms(4) False by (simp add: held_block_def)
    ultimately show False using o by (simp add: dvd_eq_mod_eq_0)
  qed
qed

lemma held_smallI:
  assumes "slab_layout_ok (snd b)" "lay_size (snd b) \<le> 2048" "i = size_index (lay_size (snd b))"
    "K q = Some (SlabPage i fl)" "0 \<le> j" "j < slab_count i" "j \<notin> set fl" "fst b = q + obj_offset i + j * obj_bytes i"
  shows "held_block K b"
  using assms unfolding held_block_def by auto

lemma held_edit:
  assumes "held_block K b" "K q = Some (SlabPage i fl)"
    "\<And>j. fst b = q + obj_offset i + j * obj_bytes i \<Longrightarrow> j \<notin> set fl \<Longrightarrow> j \<notin> set gl"
  shows "held_block (K(q \<mapsto> SlabPage i gl)) b"
proof (cases "lay_size (snd b) \<le> 2048")
  case True
  let ?i = "size_index (lay_size (snd b))"
  obtain r hl j where r: "K r = Some (SlabPage ?i hl)" "0 \<le> j" "j < slab_count ?i" "j \<notin> set hl"
    "fst b = r + obj_offset ?i + j * obj_bytes ?i"
    using assms(1) True by (auto simp: held_block_def)
  have l: "slab_layout_ok (snd b)" using assms(1) by (simp add: held_block_def)
  show ?thesis
  proof (cases "r = q")
    case q: True
    with r(1) assms(2) have i: "i = ?i" "hl = fl" by simp_all
    have "j \<notin> set gl" using assms(3) r(4,5) q i by simp
    with r(2,3,5) q i(1) show ?thesis by (intro held_smallI [OF l True i(1), of _ q gl j]) simp_all
  next
    case False
    with r show ?thesis by (intro held_smallI [OF l True refl, of _ r hl j]) simp_all
  qed
next
  case False
  have "K r \<noteq> Some (BigPage p l)" if "r = q" for r p l using that assms(2) by simp
  with assms(1) False show ?thesis by (auto simp: held_block_def)
qed

lemma held_take:
  assumes "slab_ghost V lo hi s K R" "held K L" "K q = Some (SlabPage (size_index (lay_size l)) (j # js))"
    "slab_layout_ok l" "lay_size l \<le> 2048" "i = size_index (lay_size l)" "p = q + obj_offset i + j * obj_bytes i"
  shows "held (K(q \<mapsto> SlabPage i js)) (insert (p, l) L)" "(p, l) \<notin> L"
proof -
  note q = slab_props [OF assms(1,3), folded assms(6)]
  have j: "0 \<le> j" "j < slab_count i" "j \<notin> set js" using q(3) by (auto simp: slab_ok_def)
  have new: "fst b \<noteq> p" if "b \<in> L" for b
  proof -
    have "held_block K b" using assms(2) that by (simp add: held_def)
    from free_not_held [OF assms(1,3) _ this, of j] show ?thesis by (simp add: assms(6,7))
  qed
  then show "(p, l) \<notin> L" by force
  have "held_block (K(q \<mapsto> SlabPage i js)) b" if "b \<in> L" for b
    by (rule held_edit [of K b q i "j # js"]) (use assms(2,3,6) that in \<open>auto simp: held_def\<close>)
  moreover have "held_block (K(q \<mapsto> SlabPage i js)) (p, l)"
    by (rule held_smallI [of _ i _ q js j]) (use assms(4-7) j in simp_all)
  ultimately show "held (K(q \<mapsto> SlabPage i js)) (insert (p, l) L)"
    using assms(2) new by (auto simp: held_def inj_on_def)
qed

section \<open>Taking an object\<close>

lemma take_object_ok:
  assumes "slab_ghost V lo hi s K R" "held K L" "K q = Some (SlabPage i (j # js))" "node_caches s ! i = c"
    "q \<in> set (the (R (list_head s i 1)))" "slab_layout_ok l" "lay_size l \<le> 2048" "i = size_index (lay_size l)"
  obtains p s' K' R' where "take_object c q s = Val (Some p, s')" "slab_ghost V lo hi s' K' R'"
    "held K' (insert (p, l) L)" "(p, l) \<notin> L"
proof -
  note q = slab_props [OF assms(1,3)] and g = slab_ghostD [OF assms(1)]
  note n = slab_geometry [OF q(1)] and c = cache_props [OF assms(1) q(1,2), unfolded assms(4)]
  have sl: "s_mem s q = q + obj_offset i" "s_inuse s q = slab_count i - int (length (j # js))"
    "s_free s q = word_of_int j" "free_chain (bufctl s) q (bufctl s (bufctl_at (q + 40) j)) js"
    "distinct (j # js)" "set (j # js) \<subseteq> {0..<slab_count i}"
    using q(3) by (simp_all add: slab_ok_def)
  have j: "0 \<le> j" "j < slab_count i" using sl(6) by auto
  note o = object_in_page [OF q(1) j]
  have free: "uint (s_free s q) = j" using j n(2) by (simp add: sl(3) uint_word_of_int)
  let ?s = "s\<lparr>s_free := (s_free s)(q := bufctl s (bufctl_at (q + 40) j)), s_inuse := (s_inuse s)(q := s_inuse s q + 1)\<rparr>"
  have edit: "slab_edit q s ?s" by (simp add: slab_edit_def)
  have ok: "slab_ok ?s q i js" using sl by (simp add: slab_ok_def)
  have len: "int (length (j # js)) \<le> slab_count i"
    using sl(5,6) card_mono [of "{0..<slab_count i}" "set (j # js)"] distinct_card [OF sl(5)] by simp
  let ?p = "q + obj_offset i + j * obj_bytes i"
  let ?s' = "if s_inuse s q + 1 = slab_count i then list_add q (list_head s i 0) (list_del q ?s) else ?s"
  have "j * obj_bytes i < 0x10000000000000000" using o(2) n(1,3,6) by linarith
  then have "take_object c q s = Val (Some ?p, ?s')"
    using q(5,6) n(1-3) c(2,3) sl(1,2) len free j
    by (simp add: take_object_def usize_mul_def usize_add_def bufctl_ptr_def list_head_cache [OF assms(4)] Let_def)
  moreover have "\<exists>R'. slab_ghost V lo hi ?s' (K(q \<mapsto> SlabPage i js)) R'"
  proof (cases "s_inuse s q + 1 = slab_count i")
    case True
    with sl(2) have "in_list 0 i js" by (simp add: in_list_def)
    with ghost_edit(2) [OF assms(1,3) edit ok _ assms(5), of 0] True show ?thesis by simp
  next
    case False
    with sl(2) have "in_list 1 i js" by (auto simp: in_list_def)
    with ghost_edit(1) [OF assms(1,3) edit ok _ assms(5)] False show ?thesis by simp
  qed
  moreover note held_take [OF assms(1,2) assms(3) [unfolded assms(8)] assms(6,7,8) refl]
  ultimately show thesis using that by blast
qed

section \<open>Giving an object back\<close>

lemma held_give:
  assumes "slab_ghost V lo hi s K R" "held K L" "(p, l) \<in> L" "K q = Some (SlabPage i fl)"
    "0 \<le> j" "j < slab_count i" "p = q + obj_offset i + j * obj_bytes i"
  shows "held (K(q \<mapsto> SlabPage i (j # fl))) (L - {(p, l)})"
proof -
  have "held_block (K(q \<mapsto> SlabPage i (j # fl))) b" if b: "b \<in> L - {(p, l)}" for b
  proof (rule held_edit [of K b q i fl])
    show "K q = Some (SlabPage i fl)" by (rule assms(4))
    show "held_block K b" using b assms(2) by (simp add: held_def)
    have "fst b \<noteq> p" using b assms(2,3) unfolding held_def inj_on_def by fastforce
    then show "m \<notin> set (j # fl)" if "fst b = q + obj_offset i + m * obj_bytes i" "m \<notin> set fl" for m
      using that assms(7) by auto
  qed
  with assms(2) show ?thesis by (auto simp: held_def intro: inj_on_diff)
qed

lemma slab_ok_give:
  assumes "slab_ok s q i fl" "i < 9" "0 \<le> j" "j < slab_count i" "j \<notin> set fl"
    "s' = s\<lparr>bufctl := (bufctl s)(bufctl_at (q + 40) j := s_free s q), s_free := (s_free s)(q := word_of_int j),
      s_inuse := (s_inuse s)(q := s_inuse s q - 1)\<rparr>"
  shows "slab_ok s' q i (j # fl)" "slab_edit q s s'" "1 \<le> s_inuse s q"
proof -
  have s: "s_mem s q = q + obj_offset i" "s_inuse s q = slab_count i - int (length fl)"
    "free_chain (bufctl s) q (s_free s q) fl" "distinct fl" "set fl \<subseteq> {0..<slab_count i}"
    using assms(1) by (simp_all add: slab_ok_def)
  have "free_chain (bufctl s') q (s_free s q) fl = free_chain (bufctl s) q (s_free s q) fl"
    by (rule free_chain_cong) (use assms(5,6) in \<open>auto simp: bufctl_at_def\<close>)
  with s assms(3-6) show "slab_ok s' q i (j # fl)" by (auto simp: slab_ok_def)
  have "bufctl_at (q + 40) j \<noteq> x" if "x < q \<or> q + 4096 \<le> x" for x
    using that assms(3,4) slab_geometry(2) [OF assms(2)] by (auto simp: bufctl_at_def)
  then show "slab_edit q s s'" by (auto simp: slab_edit_def assms(6))
  have "insert j (set fl) \<subseteq> {0..<slab_count i}" using s(5) assms(3,4) by auto
  then have "card (insert j (set fl)) \<le> card {0..<slab_count i}" by (rule card_mono [rotated]) simp
  moreover have "card (insert j (set fl)) = Suc (length fl)" using assms(5) distinct_card [OF s(4)] by simp
  ultimately show "1 \<le> s_inuse s q" using s(2) by simp
qed

text \<open>What \<^verbatim>\<open>dealloc\<close> does to a block of a slab.\<close>

lemma slab_dealloc_eq:
  assumes "slab_ghost V lo hi s K R" "K q = Some (SlabPage i fl)" "0 \<le> j" "j < slab_count i" "j \<notin> set fl"
    "slab_layout_ok l" "lay_size l \<le> 2048" "i = size_index (lay_size l)" "p = q + obj_offset i + j * obj_bytes i"
    "s1 = s\<lparr>bufctl := (bufctl s)(bufctl_at (q + 40) j := s_free s q), s_free := (s_free s)(q := word_of_int j),
      s_inuse := (s_inuse s)(q := s_inuse s q - 1)\<rparr>"
  shows "slab_dealloc V s p l = Val
    (if fl = [] then list_add q (list_head s i 1) (list_del q s1)
     else if int (length (j # fl)) = slab_count i then list_add q (list_head s i 2) (list_del q s1)
     else s1)"
proof -
  note q = slab_props [OF assms(1,2)]
  note n = slab_geometry [OF q(1)] and c = cache_props [OF assms(1) q(1,2)] and o = object_in_page [OF q(1) assms(3,4)]
  note give = slab_ok_give [OF q(3,1) assms(3-5,10)]
  have small: "lay_size l \<in> set slab_sizes" using slab_layout_okD(1) [OF assms(6,7)] .
  have cache: "get_or_create_cache V s (lay_size l) = Val (node_caches s ! i, s)"
    using get_or_create_cache_old [OF assms(1) small] q(2) assms(8) by simp
  have page: "p AND NOT (PAGE_SIZE - 1) = q" unfolding assms(9) add.assoc by (rule page_of [OF q(4)]) (use o n in auto)
  have mem: "s_mem s q = q + obj_offset i" "s_inuse s q = slab_count i - int (length fl)"
    using q(3) by (simp_all add: slab_ok_def)
  have "0 \<le> j * obj_bytes i" using assms(3) n(3) by simp
  then have "usize_sub p (s_mem s q) = Val (j * obj_bytes i)" by (simp add: usize_sub_def assms(9) mem(1))
  moreover have "p \<noteq> 0" using assms(9) q(5) o(1) n(1) by simp
  moreover have "bufctl_ptr q = Val (q + 40)" using q(5,6) by (simp add: bufctl_ptr_def usize_add_def)
  moreover have "usize_sub (s_inuse s q) 1 = Val (s_inuse s q - 1)" using give(3) by (simp add: usize_sub_def)
  moreover have "(j * obj_bytes i) div obj_bytes i = j" "obj_bytes i \<noteq> 0" using n(3) by simp_all
  ultimately show ?thesis
    using assms(7) c(2,3) mem(2) n(1)
    by (auto simp: slab_dealloc_def MAX_SLAB_SIZE_def cache page Let_def assms(10) list_head_cache [OF refl])
qed

section \<open>The allocator meets the contract\<close>

lemma slab_invI: "slab_ghost V lo hi s K R \<Longrightarrow> held K L \<Longrightarrow> slab_inv V lo hi s L"
  unfolding slab_inv_def by blast

text \<open>
  A small request returns a block, or panics because a page for the cache or for a slab is missing,
  which needs at most two pages.
\<close>

lemma slab_alloc_small:
  assumes "slab_inv V lo hi s L" "slab_layout_ok l" "lay_size l \<le> 2048" "page_alloc s = Some pa"
  shows "(\<exists>p s'. slab_alloc V s l = Val (Some p, s') \<and> (p, l) \<notin> L \<and> slab_inv V lo hi s' (insert (p, l) L))
    \<or> (hi < pa_next pa + 8192 \<and> slab_alloc V s l \<in>
         {Panic (ExplicitPanic ''OOM Cache''), Panic (ExplicitPanic ''OOM Slab'')})"
proof -
  define i where "i = size_index (lay_size l)"
  obtain K R where s: "slab_ghost V lo hi s K R" "held K L" using assms(1) by (auto simp: slab_inv_def)
  note l = slab_layout_okD [OF assms(2,3), folded i_def]
  have alloc: "slab_alloc V s l = rbind (get_or_create_cache V s (lay_size l)) (\<lambda>(cache, s).
      rbind (pick_slab V cache s) (\<lambda>(slab, s). take_object cache slab s))"
    using assms(3) by (simp add: slab_alloc_def MAX_SLAB_SIZE_def)
  from s(1,2) l(1) assms(4) show ?thesis
  proof (cases rule: get_or_create_cache_cases)
    case oom
    then show ?thesis by (simp add: alloc)
  next
    case (cache c s1 K1 R1 pa1)
    from pick_slab_ok [OF cache(2,3) l(3) cache(4) [folded i_def] cache(5,6)] show ?thesis
    proof (elim disjE conjE exE)
      assume "pick_slab V c s1 = Panic (ExplicitPanic ''OOM Slab'')" "hi < pa_next pa1 + 4096"
      with cache show ?thesis by (simp add: alloc)
    next
      fix r assume r: "pick_slab V c s1 = Val r" "picked V lo hi L i c r"
      obtain q s2 where qs: "r = (q, s2)" by (cases r)
      with r(2) obtain K2 R2 fl where p: "slab_ghost V lo hi s2 K2 R2" "held K2 L" "node_caches s2 ! i = c"
        "K2 q = Some (SlabPage i fl)" "fl \<noteq> []" "q \<in> set (the (R2 (list_head s2 i 1)))"
        by (auto simp: picked_def)
      then obtain j js where "K2 q = Some (SlabPage i (j # js))" by (cases fl) auto
      from take_object_ok [OF p(1,2) this p(3,6) assms(2,3) i_def] obtain p s' K' R'
        where "take_object c q s2 = Val (Some p, s')" "slab_ghost V lo hi s' K' R'" "held K' (insert (p, l) L)"
          "(p, l) \<notin> L" by metis
      with cache(1) r(1) qs show ?thesis by (auto simp: alloc intro: slab_invI)
    qed
  qed
qed

lemma slab_alloc_block:
  assumes "slab_inv V lo hi s L" "slab_layout_ok l" "slab_alloc V s l = Val (r, s')"
  shows "case r of None \<Rightarrow> slab_inv V lo hi s' L | Some p \<Rightarrow> (p, l) \<notin> L \<and> slab_inv V lo hi s' (insert (p, l) L)"
proof (cases "lay_size l \<le> 2048")
  case True
  obtain K R where s: "slab_ghost V lo hi s K R" using assms(1) by (auto simp: slab_inv_def)
  obtain pa where "page_alloc s = Some pa" using heap_ok_pa [OF slab_ghostD(2) [OF s]] .
  from slab_alloc_small [OF assms(1,2) True this] assms(3) show ?thesis by auto
next
  case False
  obtain K R where s: "slab_ghost V lo hi s K R" "held K L" using assms(1) by (auto simp: slab_inv_def)
  from slab_alloc_big [OF s assms(2) False assms(3)] assms(1) show ?thesis by (auto intro: slab_invI)
qed

lemma slab_dealloc_block:
  assumes "slab_inv V lo hi s L" "(p, l) \<in> L"
  shows "\<exists>s'. slab_dealloc V s p l = Val s' \<and> slab_inv V lo hi s' (L - {(p, l)}) \<and> page_alloc s' = page_alloc s"
proof -
  obtain K R where s: "slab_ghost V lo hi s K R" "held K L" using assms(1) by (auto simp: slab_inv_def)
  have b: "held_block K (p, l)" using s(2) assms(2) by (simp add: held_def)
  show ?thesis
  proof (cases "lay_size l \<le> 2048")
    case False
    moreover have "held K (L - {(p, l)})" using s(2) by (auto simp: held_def intro: inj_on_diff)
    ultimately show ?thesis using s(1) by (auto simp: slab_dealloc_def MAX_SLAB_SIZE_def intro: slab_invI)
  next
    case True
    have al: "\<forall>q \<in> dom K. 4096 dvd q" using slab_ghostD(2) [OF s(1)] by (auto simp: heap_ok_def)
    obtain q fl j i where q: "i = size_index (lay_size l)" "K q = Some (SlabPage i fl)" "0 \<le> j" "j < slab_count i"
      "j \<notin> set fl" "p = q + obj_offset i + j * obj_bytes i"
      using held_small [OF b _ al] True by (metis fst_conv snd_conv)
    note c = slab_props [OF s(1) q(2)]
    have lay: "slab_layout_ok l" using b by (simp add: held_block_def)
    define s1 where "s1 = s\<lparr>bufctl := (bufctl s)(bufctl_at (q + 40) j := s_free s q),
      s_free := (s_free s)(q := word_of_int j), s_inuse := (s_inuse s)(q := s_inuse s q - 1)\<rparr>"
    note eq = slab_dealloc_eq [OF s(1) q(2-5) lay True q(1,6) s1_def]
    note give = slab_ok_give(1,2) [OF c(3,1) q(3-5) s1_def]
    obtain k where k: "k < 3" "q \<in> set (the (R (list_head s i k)))" using c(7) by blast
    note edit = ghost_edit [OF s(1) q(2) give(2,1) k]
    have "\<exists>s' R'. slab_dealloc V s p l = Val s' \<and> page_alloc s' = page_alloc s
      \<and> slab_ghost V lo hi s' (K(q \<mapsto> SlabPage i (j # fl))) R'"
    proof -
      have pa: "page_alloc s1 = page_alloc s" by (simp add: s1_def)
      consider "fl = []" | "fl \<noteq> []" "int (length (j # fl)) = slab_count i" | "fl \<noteq> []" "int (length (j # fl)) \<noteq> slab_count i"
        by blast
      then show ?thesis
      proof cases
        case 1
        with eq edit(2) [of 1] pa show ?thesis by (auto simp: in_list_def)
      next
        case 2
        with eq edit(2) [of 2] pa show ?thesis by (auto simp: in_list_def)
      next
        case 3
        have "\<exists>gl. K q = Some (SlabPage i gl) \<and> in_list k i gl"
          using list_contents [OF s(1) c(1) k(1) c(2)] k(2) by (metis option.sel)
        then have "in_list k i fl" using q(2) by simp
        moreover have "int (length fl) < slab_count i"
          using slab_ok_give(3) [OF c(3,1) q(3-5) refl] c(3) by (simp add: slab_ok_def)
        ultimately have "in_list k i (j # fl)" using 3 by (auto simp: in_list_def split: if_splits)
        with eq edit(1) pa 3 show ?thesis by auto
      qed
    qed
    with held_give [OF s(1,2) assms(2) q(2-4,6)] show ?thesis by (auto intro: slab_invI)
  qed
qed

interpretation slab: heap_safety "slab_alloc V" "slab_dealloc V" "slab_inv V lo hi" slab_layout_ok lo hi for V lo hi
proof unfold_locales
  fix s L l s' p
  show "blocks_ok lo hi L" if "slab_inv V lo hi s L"
    using that held_blocks_ok slab_ghostD(2) unfolding slab_inv_def by blast
  show "slab_inv V lo hi s' L" if "slab_inv V lo hi s L" "slab_layout_ok l" "slab_alloc V s l = Val (None, s')"
    using slab_alloc_block [OF that] by simp
  show "(p, l) \<notin> L \<and> slab_inv V lo hi s' (insert (p, l) L)"
    if "slab_inv V lo hi s L" "slab_layout_ok l" "slab_alloc V s l = Val (Some p, s')"
    using slab_alloc_block [OF that] by simp
qed (use slab_dealloc_block in blast)

end
