(* ===== verification/Slab_Clients.thy ===== *)
theory Slab_Clients
  imports Slab_Safe
begin

text \<open>
  Clients of the slab allocator write into the blocks they hold.  The blocks are disjoint from everything
  the allocator keeps in the heap (the caches, the slab headers and the tables of free objects), so that
  whatever is written into them keeps the invariant.
\<close>

section \<open>What a client may write\<close>

text \<open>Some of the \<open>n\<close> bytes from \<open>a\<close> on belong to a block of \<open>L\<close>.\<close>

definition touched :: "block set \<Rightarrow> addr \<Rightarrow> addr \<Rightarrow> bool" where
  "touched L a n \<longleftrightarrow> (\<exists>b \<in> L. a < fst b + lay_size (snd b) \<and> fst b < a + n)"

text \<open>
  \<open>s'\<close> is the allocator after the holders of the blocks \<open>L\<close> have written into them.  A field keeps its
  value when none of its bytes belongs to a block, and may hold anything otherwise.  The offsets are
  those of the \<^verbatim>\<open>repr(C)\<close> structures; the page counter and the table of caches are in the static.
\<close>

definition scribbled :: "block set \<Rightarrow> SlabAllocator \<Rightarrow> SlabAllocator \<Rightarrow> bool" where
  "scribbled L s s' \<longleftrightarrow> page_alloc s' = page_alloc s \<and> node_caches s' = node_caches s \<and> (\<forall>x.
     (\<not> touched L x 8 \<longrightarrow> ln_next s' x = ln_next s x)
     \<and> (\<not> touched L (x + 8) 8 \<longrightarrow> ln_prev s' x = ln_prev s x)
     \<and> (\<not> touched L (x + 48) 8 \<longrightarrow> c_obj_size s' x = c_obj_size s x)
     \<and> (\<not> touched L (x + 56) 8 \<longrightarrow> c_num s' x = c_num s x)
     \<and> (\<not> touched L (x + 64) 16 \<longrightarrow> c_name s' x = c_name s x)
     \<and> (\<not> touched L (x + 16) 8 \<longrightarrow> s_mem s' x = s_mem s x)
     \<and> (\<not> touched L (x + 24) 4 \<longrightarrow> s_free s' x = s_free s x)
     \<and> (\<not> touched L (x + 32) 8 \<longrightarrow> s_inuse s' x = s_inuse s x)
     \<and> (\<not> touched L x 4 \<longrightarrow> bufctl s' x = bufctl s x))"

lemma scribbledD:
  assumes "scribbled L s s'"
  shows "page_alloc s' = page_alloc s" "node_caches s' = node_caches s"
    "\<not> touched L x 8 \<Longrightarrow> ln_next s' x = ln_next s x" "\<not> touched L (x + 8) 8 \<Longrightarrow> ln_prev s' x = ln_prev s x"
    "\<not> touched L (x + 48) 8 \<Longrightarrow> c_obj_size s' x = c_obj_size s x" "\<not> touched L (x + 56) 8 \<Longrightarrow> c_num s' x = c_num s x"
    "\<not> touched L (x + 16) 8 \<Longrightarrow> s_mem s' x = s_mem s x" "\<not> touched L (x + 24) 4 \<Longrightarrow> s_free s' x = s_free s x"
    "\<not> touched L (x + 32) 8 \<Longrightarrow> s_inuse s' x = s_inuse s x" "\<not> touched L x 4 \<Longrightarrow> bufctl s' x = bufctl s x"
  using assms unfolding scribbled_def by blast+

text \<open>The blocks lie outside the pages of the caches, and in the page of a slab behind its table.\<close>

lemma cache_untouched:
  assumes "held K L" "\<forall>q \<in> dom K. 4096 dvd q" "K q = Some (CachePage i)" "q \<le> a" "a + n \<le> q + 4096" "0 < n"
  shows "\<not> touched L a n"
proof
  assume "touched L a n"
  then obtain b where b: "b \<in> L" "a < fst b + lay_size (snd b)" "fst b < a + n" by (auto simp: touched_def)
  then have h: "held_block K b" using assms(1) by (simp add: held_def)
  have q: "4096 dvd q" using assms(2,3) by blast
  define x where "x = max a (fst b)"
  have pos: "0 < lay_size (snd b)" using h layout_okD(2) by (auto simp: held_block_def slab_layout_ok_def)
  then have x: "q \<le> x" "x < q + 4096" "fst b \<le> x" "x < fst b + lay_size (snd b)" using b assms(4-6) by (auto simp: x_def)
  show False
  proof (cases "lay_size (snd b) \<le> 2048")
    case True
    obtain r fl i where r: "K r = Some (SlabPage i fl)" "4096 dvd r" "r \<le> fst b" "fst b + lay_size (snd b) \<le> r + 4096"
      by (rule held_small [OF h True assms(2)]) blast
    have "r = q" by (rule page_unique [of r q "x - r" "x - q"]) (use q r x in auto)
    with r(1) assms(3) show False by simp
  next
    case False
    have "x - x mod 4096 = q" using page_mod [OF q, of "x - q"] x by simp
    with held_big_page [OF h False x(3,4)] assms(3) show False by simp
  qed
qed

lemma slab_untouched:
  assumes "held K L" "\<forall>q \<in> dom K. 4096 dvd q" "K q = Some (SlabPage i fl)" "i < 9" "q \<le> a" "a + n \<le> q + 40 + 4 * slab_count i" "0 < n"
  shows "\<not> touched L a n"
proof
  assume "touched L a n"
  then obtain b where b: "b \<in> L" "a < fst b + lay_size (snd b)" "fst b < a + n" by (auto simp: touched_def)
  then have h: "held_block K b" using assms(1) by (simp add: held_def)
  have q: "4096 dvd q" using assms(2,3) by blast
  define x where "x = max a (fst b)"
  have pos: "0 < lay_size (snd b)" using h layout_okD(2) by (auto simp: held_block_def slab_layout_ok_def)
  have "40 + 4 * slab_count i \<le> 4096" using slab_geometry(2) [OF assms(4)] by simp
  then have x: "q \<le> x" "x < q + 4096" "fst b \<le> x" "x < fst b + lay_size (snd b)" using pos b assms(5-7) by (auto simp: x_def)
  show False
  proof (cases "lay_size (snd b) \<le> 2048")
    case True
    obtain r gl j i' where r: "K r = Some (SlabPage i' gl)" "i' < 9" "0 \<le> j" "j < slab_count i'" "4096 dvd r" "r \<le> fst b"
      "fst b + lay_size (snd b) \<le> r + 4096" "fst b = r + obj_offset i' + j * obj_bytes i'"
      by (rule held_small [OF h True assms(2)]) blast
    have "r = q" by (rule page_unique [of r q "x - r" "x - q"]) (use q r x in auto)
    with r(1) assms(3) have "i' = i" by simp
    with object_in_page(1) [OF r(2-4)] r(8) \<open>r = q\<close> b(3) assms(6) show False by simp
  next
    case False
    have "x - x mod 4096 = q" using page_mod [OF q, of "x - q"] x by simp
    with held_big_page [OF h False x(3,4)] assms(3) show False by simp
  qed
qed

text \<open>A list node is the head of a list of a cache, or a slab.\<close>

lemma node_cases:
  assumes "slab_ghost V lo hi s K R" "x \<in> nodes R"
  obtains (head) i k where "i < 9" "k < 3" "node_caches s ! i \<noteq> 0" "x = list_head s i k"
    | (slab) i fl where "K x = Some (SlabPage i fl)"
proof -
  have heads: "\<exists>i k. i < 9 \<and> k < 3 \<and> node_caches s ! i \<noteq> 0 \<and> h = list_head s i k" if "h \<in> dom R" for h
    using that slab_ghostD(7) [OF assms(1)] by blast
  show thesis
  proof (cases "x \<in> dom R")
    case True
    with heads head show thesis by blast
  next
    case False
    then obtain h xs where x: "R h = Some xs" "x \<in> set xs" using assms(2) by (auto simp: nodes_def ran_def)
    then obtain i k where i: "i < 9" "k < 3" "node_caches s ! i \<noteq> 0" "h = list_head s i k" using heads by blast
    obtain ys where "R (list_head s i k) = Some ys" "\<forall>q \<in> set ys. \<exists>fl. K q = Some (SlabPage i fl) \<and> in_list k i fl"
      using list_contents [OF assms(1) i(1-3)] .
    with x i(4) slab show thesis by auto
  qed
qed

lemma scribbled_node:
  assumes "slab_ghost V lo hi s K R" "held K L" "scribbled L s s'" "x \<in> nodes R"
  shows "ln_next s' x = ln_next s x \<and> ln_prev s' x = ln_prev s x"
proof -
  note sc = scribbledD(3,4) [OF assms(3)]
  have K: "\<forall>q \<in> dom K. 4096 dvd q" using slab_ghostD(2) [OF assms(1)] by (auto simp: heap_ok_def)
  show ?thesis
  proof (rule node_cases [OF assms(1,4)])
    fix i k assume i: "i < 9" "k < 3" "node_caches s ! i \<noteq> 0" "x = list_head s i k"
    note u = cache_untouched [OF assms(2) K cache_props(1) [OF assms(1) i(1,3)]]
    have "x = node_caches s ! i + 16 * int k" using i(4) by (simp add: list_head_def)
    with i(2) u [of x 8] u [of "x + 8" 8] show ?thesis by (simp add: sc)
  next
    fix i fl assume q: "K x = Some (SlabPage i fl)"
    note i = slab_props(1) [OF assms(1) q]
    note u = slab_untouched [OF assms(2) K q i]
    have "0 < slab_count i" using slab_geometry(1) [OF i] .
    with u [of x 8] u [of "x + 8" 8] show ?thesis by (simp add: sc)
  qed
qed

lemma scribbled_slab:
  assumes "slab_ghost V lo hi s K R" "held K L" "scribbled L s s'" "K q = Some (SlabPage i fl)"
  shows "slab_ok s' q i fl"
proof -
  note sc = scribbledD(7-10) [OF assms(3)] and p = slab_props(1,3) [OF assms(1,4)]
  have K: "\<forall>q \<in> dom K. 4096 dvd q" using slab_ghostD(2) [OF assms(1)] by (auto simp: heap_ok_def)
  note u = slab_untouched [OF assms(2) K assms(4) p(1)]
  have n: "0 < slab_count i" using slab_geometry(1) [OF p(1)] .
  have f: "s_mem s' q = s_mem s q" "s_inuse s' q = s_inuse s q" "s_free s' q = s_free s q"
    using u [of "q + 16" 8] u [of "q + 24" 4] u [of "q + 32" 8] n by (simp_all add: sc)
  have "bufctl s' (bufctl_at (q + 40) j) = bufctl s (bufctl_at (q + 40) j)" if "j \<in> set fl" for j
  proof -
    have "0 \<le> j" "j < slab_count i" using that p(2) by (auto simp: slab_ok_def)
    then show ?thesis using u [of "bufctl_at (q + 40) j" 4] by (simp add: sc bufctl_at_def)
  qed
  with free_chain_cong [of fl "bufctl s'" q "bufctl s"] p(2) f show ?thesis by (simp add: slab_ok_def)
qed

text \<open>So writing into blocks keeps the invariant.\<close>

lemma scribbled_inv:
  assumes "slab_inv V lo hi s L" "scribbled L s s'"
  shows "slab_inv V lo hi s' L"
proof -
  obtain K R where g: "slab_ghost V lo hi s K R" and h: "held K L" using assms(1) by (auto simp: slab_inv_def)
  note d = slab_ghostD [OF g] and sc = scribbledD [OF assms(2)]
  have K: "\<forall>q \<in> dom K. 4096 dvd q" using d(2) by (auto simp: heap_ok_def)
  have lh: "list_head s' = list_head s" using sc(2) by (simp add: list_head_def fun_eq_iff)
  have "caches_ok s' K"
    unfolding caches_ok_def Let_def sc(2)
  proof (intro conjI allI impI)
    fix i assume i: "i < 9" "node_caches s ! i \<noteq> 0"
    note c = cache_props [OF g i] and u = cache_untouched [OF h K cache_props(1) [OF g i]]
    show "K (node_caches s ! i) = Some (CachePage i)" "c_obj_size s' (node_caches s ! i) = obj_bytes i"
      "c_num s' (node_caches s ! i) = slab_count i"
      using c sc(5,6) [of "node_caches s ! i"] by (simp_all add: u)
  qed (rule d(8))
  moreover have "rings (ln_next s') (ln_prev s') R" by (rule rings_frame [OF d(6) scribbled_node [OF g h assms(2)]])
  then have "lists_ok s' K R" using d(4) unfolding lists_ok_def lh sc(2) by blast
  moreover have "slabs_ok s' K R" using d(5) scribbled_slab [OF g h assms(2)] unfolding slabs_ok_def lh sc(2) by blast
  moreover have "heap_ok lo hi s' K" using d(2) sc(1) by (simp add: heap_ok_def)
  ultimately have "slab_ghost V lo hi s' K R" using d(1) by (simp add: slab_ghost_def)
  then show ?thesis using h by (rule slab_invI)
qed

end
