(* ===== verification/Slab_Properties.thy ===== *)
theory Slab_Properties
  imports Slab_Clients
begin

unbundle bit_operations_syntax

text \<open>
  Properties of the slab allocator: any history of requests that fits the heap runs without a panic
  and leaves good blocks; and what the allocator does with sizes that are no power of two, with
  large alignments and when the heap is used up.
\<close>

section \<open>Pages used\<close>

text \<open>The pages a request may take: a small one at most a cache and a slab, a large one its own.\<close>

definition op_bytes :: "heap_op \<Rightarrow> addr" where
  "op_bytes x = (case x of
     Alloc l \<Rightarrow> if lay_size l \<le> 2048 then 8192 else (lay_size l + 4095) div 4096 * 4096
   | Free _ _ \<Rightarrow> 0)"

lemma op_bytes_nonneg: "op_ok slab_layout_ok x \<Longrightarrow> 0 \<le> op_bytes x"
  using layout_okD(2) by (auto simp: op_bytes_def op_ok_def slab_layout_ok_def split: heap_op.splits)

text \<open>Taking pages moves the counter by at most as much, and never the end.\<close>

definition advanced :: "addr \<Rightarrow> PageAllocator \<Rightarrow> PageAllocator \<Rightarrow> bool" where
  "advanced n pa pa' \<longleftrightarrow> pa_next pa' \<le> pa_next pa + n \<and> pa_end pa' = pa_end pa"

lemma alloc_pages_next:
  assumes "virt_ok V" "alloc_pages V pa n = Val (r, pa')" "0 \<le> n" "pa_end pa < 0x800000000000"
  shows "advanced (n * 4096) pa pa'"
  using assms(2-4) by (auto simp: advanced_def alloc_pages_def run_simps usize_mul_def PAGE_SIZE_def split: if_splits
      dest!: virt_okD(3) [OF assms(1)])

lemma get_or_create_cache_next:
  assumes "virt_ok V" "get_or_create_cache V s n = Val (c, s')" "page_alloc s = Some pa" "pa_end pa < 0x800000000000"
  shows "\<exists>pa'. page_alloc s' = Some pa' \<and> advanced 4096 pa pa'"
  using assms(2-4) alloc_pages_next [OF assms(1), of pa 1]
  by (auto simp: get_or_create_cache_def run_simps Let_def advanced_def split: if_splits option.splits)

lemma cache_grow_next:
  assumes "virt_ok V" "cache_grow V pa c s = Val (pa', s')" "pa_end pa < 0x800000000000"
  shows "advanced 4096 pa pa'"
  using assms(2,3) alloc_pages_next [OF assms(1), of pa 1]
  by (auto simp: cache_grow_def run_simps Let_def split: if_splits option.splits)

lemma pick_slab_next:
  assumes "virt_ok V" "pick_slab V c s = Val (q, s')" "page_alloc s = Some pa" "pa_end pa < 0x800000000000"
  shows "\<exists>pa'. page_alloc s' = Some pa' \<and> advanced 4096 pa pa'"
  using assms(2-4) cache_grow_next [OF assms(1), of pa c s]
  by (auto simp: pick_slab_def run_simps Let_def advanced_def split: if_splits option.splits)

lemma slab_alloc_next:
  assumes "virt_ok V" "slab_alloc V s l = Val (r, s')" "page_alloc s = Some pa" "layout_ok l" "pa_end pa < 0x800000000000"
  shows "\<exists>pa'. page_alloc s' = Some pa' \<and> advanced (op_bytes (Alloc l)) pa pa'"
proof (cases "lay_size l \<le> 2048")
  case True
  with assms(2) obtain c s1 q s2 where s: "get_or_create_cache V s (lay_size l) = Val (c, s1)"
    "pick_slab V c s1 = Val (q, s2)" "take_object c q s2 = Val (r, s')"
    by (auto simp: slab_alloc_def MAX_SLAB_SIZE_def run_simps)
  obtain p1 where p1: "page_alloc s1 = Some p1" "advanced 4096 pa p1"
    using get_or_create_cache_next [OF assms(1) s(1) assms(3,5)] by blast
  then have "pa_end p1 < 0x800000000000" using assms(5) by (simp add: advanced_def)
  then obtain p2 where p2: "page_alloc s2 = Some p2" "advanced 4096 p1 p2"
    using pick_slab_next [OF assms(1) s(2) p1(1)] by blast
  have "page_alloc s' = page_alloc s2" using s(3) by (auto simp: take_object_def run_simps Let_def)
  with True p1 p2 show ?thesis by (simp add: op_bytes_def advanced_def)
next
  case False
  with assms(2,3) obtain pa' where p: "alloc_pages V pa ((lay_size l + 4095) div 4096) = Val (r, pa')" "page_alloc s' = Some pa'"
    by (auto simp: slab_alloc_def MAX_SLAB_SIZE_def PAGE_SIZE_def run_simps usize_add_def Let_def add.commute
        split: if_splits)
  have "0 \<le> (lay_size l + 4095) div 4096" using layout_okD(2) [OF assms(4)] by simp
  with alloc_pages_next [OF assms(1) p(1) _ assms(5)] p(2) False show ?thesis by (simp add: op_bytes_def)
qed

lemma slab_inv_heap:
  assumes "slab_inv V lo hi s L"
  obtains pa where "page_alloc s = Some pa" "virt_ok V" "0 \<le> pa_next pa" "hi < 0x800000000000" "pa_end pa = hi"
proof -
  obtain K R where s: "slab_ghost V lo hi s K R" using assms by (auto simp: slab_inv_def)
  note g = slab_ghostD [OF s]
  obtain pa where pa: "page_alloc s = Some pa" using heap_ok_pa [OF g(2)] .
  from that [OF pa g(1)] heap_okD [OF g(2) pa] show thesis by simp
qed

text \<open>A request returns when the pages it may need are there.\<close>

lemma slab_alloc_returns:
  assumes "slab_inv V lo hi s L" "slab_layout_ok l" "page_alloc s = Some pa" "pa_next pa + op_bytes (Alloc l) \<le> hi"
  shows "\<exists>p s'. slab_alloc V s l = Val (Some p, s')"
proof (cases "lay_size l \<le> 2048")
  case True
  with slab_alloc_small [OF assms(1,2) True assms(3)] assms(4) show ?thesis by (auto simp: op_bytes_def)
next
  case False
  let ?n = "(lay_size l + 4095) div 4096"
  obtain pa' where "page_alloc s = Some pa'" "virt_ok V" "0 \<le> pa_next pa'" "hi < 0x800000000000" "pa_end pa' = hi"
    using slab_inv_heap [OF assms(1)] .
  with assms(3) have h: "virt_ok V" "0 \<le> pa_next pa" "hi < 0x800000000000" "pa_end pa = hi" by simp_all
  have l: "layout_ok l" using assms(2) by (simp add: slab_layout_ok_def)
  have n: "0 \<le> ?n * 4096" "pa_next pa + ?n * 4096 \<le> hi" using assms(4) False layout_okD(2) [OF l] by (simp_all add: op_bytes_def)
  then have "va_add V (pa_next pa) (?n * 4096) = Val (pa_next pa + ?n * 4096)"
    using h by (intro virt_okD(2) [OF h(1)]) auto
  moreover have "usize_mul ?n 4096 = Val (?n * 4096)" using n h by (simp add: usize_mul_def)
  ultimately have "alloc_pages V pa ?n = Val (Some (pa_next pa), pa\<lparr>pa_next := pa_next pa + ?n * 4096\<rparr>)"
    using n(2) h(4) by (simp add: alloc_pages_def PAGE_SIZE_def)
  moreover have "usize_add (lay_size l) 4096 = Val (lay_size l + 4096)"
    using layout_okD(1,3) [OF l] by (simp add: usize_add_def)
  ultimately show ?thesis using False assms(3)
    by (simp add: slab_alloc_def MAX_SLAB_SIZE_def PAGE_SIZE_def add.commute [of 4095])
qed

text \<open>One step of a client.\<close>

lemma slab_step:
  assumes "slab_inv V lo hi s L" "op_ok slab_layout_ok x" "page_alloc s = Some pa" "pa_next pa + op_bytes x \<le> hi"
  shows "\<exists>s' L' pa'. run_ops (slab_alloc V) (slab_dealloc V) s L [x] = Val (s', L') \<and> slab_inv V lo hi s' L'
    \<and> page_alloc s' = Some pa' \<and> pa_next pa' \<le> pa_next pa + op_bytes x"
proof (cases x)
  case (Alloc l)
  with assms have l: "slab_layout_ok l" "layout_ok l" by (simp_all add: op_ok_def slab_layout_ok_def)
  obtain p s' where al: "slab_alloc V s l = Val (Some p, s')"
    using slab_alloc_returns [OF assms(1) l(1) assms(3)] assms(4) Alloc by auto
  obtain v where "page_alloc s = Some v" "virt_ok V" "hi < 0x800000000000" "pa_end v = hi"
    using slab_inv_heap [OF assms(1)] .
  with slab_alloc_next [OF _ al assms(3) l(2)] assms(3) obtain pa' where
    "page_alloc s' = Some pa'" "pa_next pa' \<le> pa_next pa + op_bytes (Alloc l)" by (auto simp: advanced_def)
  with slab.alloc_inv [OF assms(1) l(1) al] Alloc al show ?thesis by simp
next
  case (Free p l)
  show ?thesis
  proof (cases "(p, l) \<in> L")
    case True
    with slab_dealloc_block [OF assms(1) True] Free assms(3) show ?thesis by (auto simp: op_bytes_def)
  next
    case False
    with Free assms(1,3) show ?thesis by (simp add: op_bytes_def)
  qed
qed

text \<open>A client keeps to its blocks.\<close>

definition keeps_to_blocks :: "(nat \<Rightarrow> block set \<Rightarrow> SlabAllocator \<Rightarrow> SlabAllocator) \<Rightarrow> bool" where
  "keeps_to_blocks wr \<longleftrightarrow> (\<forall>k L s. scribbled L s (wr k L s))"

lemma slab_client_ops:
  assumes "slab_inv V lo hi s L" "list_all (op_ok slab_layout_ok) xs" "page_alloc s = Some pa"
    "pa_next pa + sum_list (map op_bytes xs) \<le> hi" "keeps_to_blocks wr"
  shows "\<exists>s' L'. client_ops (slab_alloc V) (slab_dealloc V) wr s L xs = Val (s', L') \<and> slab_inv V lo hi s' L'"
  using assms(1-4)
proof (induction xs arbitrary: s L pa)
  case Nil
  then show ?case by simp
next
  case (Cons x xs)
  have pos: "0 \<le> sum_list (map op_bytes xs)"
    using Cons.prems(2) by (auto intro!: sum_list_nonneg op_bytes_nonneg simp: list_all_iff)
  let ?s = "wr (length xs) L s"
  have sc: "scribbled L s ?s" using assms(5) by (simp add: keeps_to_blocks_def)
  have "page_alloc ?s = Some pa" using scribbledD(1) [OF sc] Cons.prems(3) by simp
  moreover have "op_ok slab_layout_ok x" "pa_next pa + op_bytes x \<le> hi" using Cons.prems(2,4) pos by simp_all
  ultimately obtain s' L' pa' where "run_ops (slab_alloc V) (slab_dealloc V) ?s L [x] = Val (s', L')" "slab_inv V lo hi s' L'"
    "page_alloc s' = Some pa'" "pa_next pa' \<le> pa_next pa + op_bytes x"
    using slab_step [OF scribbled_inv [OF Cons.prems(1) sc]] by blast
  with Cons.IH [of s' L' pa'] Cons.prems(2,4) show ?case by simp
qed

lemma slab_init_inv:
  assumes "virt_ok V" "0 < lo" "4096 dvd lo" "0 \<le> n" "lo + n + 4096 < 0x800000000000"
  obtains s where "slab_init V (slab_new m) lo n = Val s" "slab_inv V lo (lo + n) s {}"
    "page_alloc s = Some \<lparr>pa_next = lo, pa_end = lo + n\<rparr>"
proof -
  let ?s = "(slab_new m)\<lparr>page_alloc := Some \<lparr>pa_next = lo, pa_end = lo + n\<rparr>\<rparr>"
  have caches: "node_caches ?s = replicate 9 0" by (simp add: slab_new_def MAX_CLASSES_def slab_mem.extend_def)
  have "va_new V lo = Val lo" "va_new V (lo + n) = Val (lo + n)"
    by (rule virt_okD(1) [OF assms(1)]; use assms in simp)+
  then have "slab_init V (slab_new m) lo n = Val ?s" using assms by (simp add: slab_init_def usize_add_def)
  moreover have "slab_ghost V lo (lo + n) ?s Map.empty Map.empty"
    using assms caches by (auto simp: slab_ghost_def heap_ok_def caches_ok_def lists_ok_def slabs_ok_def rings_def)
  then have "slab_inv V lo (lo + n) ?s {}" by (rule slab_invI) (simp add: held_def)
  ultimately show thesis using that by simp
qed

section \<open>Properties\<close>

text \<open>
  A concrete \<^verbatim>\<open>VirtAddr\<close>, which extends bit 47 and refuses what is then not canonical, and a memory, for
  the examples.
\<close>

definition canonical :: "addr \<Rightarrow> addr run" where
  "canonical a =
     (if a < 0x800000000000 \<or> (0xFFFF800000000000 \<le> a \<and> a < 0x10000000000000000) then Val a
      else if a < 0x1000000000000 then Val (a + 0xFFFF000000000000)
      else Panic (ExplicitPanic ''address is not canonical''))"

definition canonical_ops :: virt_ops where
  "canonical_ops = \<lparr>va_new = canonical, va_add = (\<lambda>a b. canonical (a + b))\<rparr>"

definition zero_mem :: slab_mem where
  "zero_mem = \<lparr>ln_next = (\<lambda>_. 0), ln_prev = (\<lambda>_. 0), c_obj_size = (\<lambda>_. 0), c_num = (\<lambda>_. 0), c_name = (\<lambda>_. []),
     s_mem = (\<lambda>_. 0), s_free = (\<lambda>_. 0), s_inuse = (\<lambda>_. 0), bufctl = (\<lambda>_. 0)\<rparr>"

lemma canonical_ops_ok: "virt_ok canonical_ops"
  by (simp add: virt_ok_def canonical_ops_def canonical_def)

text \<open>A client that fills its blocks with zeros, as far as the allocator could see it.\<close>

definition zero_blocks :: "block set \<Rightarrow> SlabAllocator \<Rightarrow> SlabAllocator" where
  "zero_blocks L s = s\<lparr>ln_next := (\<lambda>x. if touched L x 8 then 0 else ln_next s x),
     ln_prev := (\<lambda>x. if touched L (x + 8) 8 then 0 else ln_prev s x),
     c_obj_size := (\<lambda>x. if touched L (x + 48) 8 then 0 else c_obj_size s x),
     c_num := (\<lambda>x. if touched L (x + 56) 8 then 0 else c_num s x),
     s_mem := (\<lambda>x. if touched L (x + 16) 8 then 0 else s_mem s x),
     s_free := (\<lambda>x. if touched L (x + 24) 4 then 0 else s_free s x),
     s_inuse := (\<lambda>x. if touched L (x + 32) 8 then 0 else s_inuse s x),
     bufctl := (\<lambda>x. if touched L x 4 then 0 else bufctl s x)\<rparr>"

lemma zero_blocks_keeps: "keeps_to_blocks (\<lambda>k. zero_blocks)"
  by (simp add: keeps_to_blocks_def scribbled_def zero_blocks_def)

text \<open>
  C3: The global allocator.  \<open>V\<close> is the \<^verbatim>\<open>x86_64\<close> crate's \<^verbatim>\<open>VirtAddr\<close>, assumed to behave as documented,
  \<open>m\<close> whatever the memory holds, and \<open>wr\<close> a client that before every step writes anything it likes into the
  blocks it holds.  From \<^verbatim>\<open>init\<close> on a page-aligned heap, every history of requests with served layouts
  (a power of two up to 2048 bytes aligned to at most 8, or more than 2048 bytes aligned to at most a
  page) and of returns of blocks still held ends without a panic, provided the pages the requests may
  need fit the heap.  The blocks held are aligned as asked, inside the heap and pairwise disjoint,
  whatever has been written into them: a block on top of a cache, a slab header or its table would let
  its owner break the history.
\<close>

theorem slab_histories:
  assumes "virt_ok V" "0 < lo" "4096 dvd lo" "0 \<le> n" "lo + n + 4096 < 0x800000000000" "keeps_to_blocks wr"
    "list_all (op_ok slab_layout_ok) xs" "sum_list (map op_bytes xs) \<le> n"
  shows "\<exists>s s' L. slab_init V (slab_new m) lo n = Val s
    \<and> client_ops (slab_alloc V) (slab_dealloc V) wr s {} xs = Val (s', L) \<and> blocks_ok lo (lo + n) L"
proof -
  obtain s where s: "slab_init V (slab_new m) lo n = Val s" "slab_inv V lo (lo + n) s {}"
    "page_alloc s = Some \<lparr>pa_next = lo, pa_end = lo + n\<rparr>"
    using slab_init_inv [OF assms(1-5)] .
  have "pa_next \<lparr>pa_next = lo, pa_end = lo + n\<rparr> + sum_list (map op_bytes xs) \<le> lo + n" using assms(8) by simp
  from slab_client_ops [OF s(2) assms(7) s(3) this assms(6)] s(1) show ?thesis by (auto dest: slab.blocks)
qed

theorem slab_histories_witness:
  "\<exists>s s' L. slab_init canonical_ops (slab_new zero_mem) 0x444444440000 41943040 = Val s
    \<and> client_ops (slab_alloc canonical_ops) (slab_dealloc canonical_ops) (\<lambda>k. zero_blocks) s {}
        [Alloc \<lparr>lay_size = 8, lay_align = 8\<rparr>, Alloc \<lparr>lay_size = 2048, lay_align = 8\<rparr>,
         Alloc \<lparr>lay_size = 5000, lay_align = 16\<rparr>, Free 0x444444441570 \<lparr>lay_size = 8, lay_align = 8\<rparr>,
         Alloc \<lparr>lay_size = 4, lay_align = 4\<rparr>] = Val (s', L)
    \<and> blocks_ok 0x444444440000 (0x444444440000 + 41943040) L"
  by (rule slab_histories)
    (simp_all add: canonical_ops_ok zero_blocks_keeps op_ok_def slab_layout_ok_def layout_ok_def slab_sizes_def op_bytes_def upt_rec)

section \<open>Limits\<close>







text \<open>A run in which the block of 1536 bytes and the next one of 512 bytes overlap.\<close>

lemma slab_overlap_run:
  "rbind (slab_init canonical_ops (slab_new zero_mem) 4096 65536) (\<lambda>s.
     rbind (slab_alloc canonical_ops s \<lparr>lay_size = 512, lay_align = 8\<rparr>) (\<lambda>(p, s).
     rbind (slab_alloc canonical_ops s \<lparr>lay_size = 1536, lay_align = 8\<rparr>) (\<lambda>(q, s).
     rbind (slab_alloc canonical_ops s \<lparr>lay_size = 512, lay_align = 8\<rparr>) (\<lambda>(r, s).
       Val (p, q, r))))) = Val (Some 8264, Some 8776, Some 9288)"
  by code_simp



text \<open>
  C35: When no page is left, a small request for which there is no cache, or whose cache has neither a
  partly used nor a free slab, panics instead of returning a null pointer; and giving back a block of
  more than 2048 bytes changes nothing, so that its pages are never used again.
\<close>

theorem slab_out_of_memory:
  assumes "slab_inv V lo hi s L" "page_alloc s = Some pa" "hi < pa_next pa + 4096" "slab_layout_ok l" "lay_size l \<le> 2048"
    "c = node_caches s ! size_index (lay_size l)" "c = 0 \<or> list_empty (slabs_partial c) s \<and> list_empty (slabs_free c) s"
    "2048 < lay_size l'"
  shows "slab_alloc V s l = Panic (ExplicitPanic (if c = 0 then ''OOM Cache'' else ''OOM Slab''))
    \<and> slab_dealloc V s p l' = Val s"
proof -
  obtain K R where g: "slab_ghost V lo hi s K R" using assms(1) by (auto simp: slab_inv_def)
  note l = slab_layout_okD [OF assms(4,5)]
  have "slab_alloc V s l = Panic (ExplicitPanic (if c = 0 then ''OOM Cache'' else ''OOM Slab''))"
  proof (cases "c = 0")
    case True
    with get_or_create_cache_new [OF g l(1) _ assms(2)] assms(3,5,6) show ?thesis
      by (simp add: slab_alloc_def MAX_SLAB_SIZE_def)
  next
    case False
    note eq = cache_grow_eq [OF g l(3) assms(6) [symmetric] False assms(2)]
    from False get_or_create_cache_old [OF g l(1)] assms(2,3,5-7) eq show ?thesis
      by (simp add: slab_alloc_def MAX_SLAB_SIZE_def pick_slab_def)
  qed
  with assms(8) show ?thesis by (simp add: slab_dealloc_def MAX_SLAB_SIZE_def)
qed

theorem slab_out_of_memory_witness:
  "\<exists>s. slab_init canonical_ops (slab_new zero_mem) 4096 0 = Val s
     \<and> slab_alloc canonical_ops s \<lparr>lay_size = 8, lay_align = 8\<rparr> = Panic (ExplicitPanic ''OOM Cache'')
     \<and> slab_dealloc canonical_ops s 4096 \<lparr>lay_size = 8192, lay_align = 8\<rparr> = Val s"
proof -
  obtain s where s: "slab_init canonical_ops (slab_new zero_mem) 4096 0 = Val s" "slab_inv canonical_ops 4096 4096 s {}"
    "page_alloc s = Some \<lparr>pa_next = 4096, pa_end = 4096\<rparr>"
    using slab_init_inv [OF canonical_ops_ok, of 4096 0 zero_mem] by auto
  have l: "slab_layout_ok \<lparr>lay_size = 8, lay_align = 8\<rparr>" "size_index 8 = 0" by code_simp+
  have "node_caches s = replicate 9 0"
    using s(1) by (auto simp: slab_init_def slab_new_def MAX_CLASSES_def slab_mem.extend_def run_simps)
  with slab_out_of_memory [OF s(2,3) _ l(1) _ refl, of "\<lparr>lay_size = 8192, lay_align = 8\<rparr>" 4096] l(2) s(1)
  show ?thesis by simp
qed

end
