(* ===== verification/Vga_Buffer.thy ===== *)
theory Vga_Buffer
  imports Rust_Str
begin

unbundle bit_operations_syntax

text \<open>
  The text screen of \<^verbatim>\<open>vga_buffer.rs\<close>: colours, the 25 by 80 buffer, and the writer with its scrolling.
  Volatile reads and writes are reads and writes of the buffer.  The end of the theory shows that
  printing refines the plain description of a terminal: the text is cut into lines and the last 25
  lines are shown.
\<close>

section \<open>Data\<close>

datatype Color = Black | Blue | Green | Cyan | Red | Magenta | Brown | LightGray | DarkGray | LightBlue
  | LightGreen | LightCyan | LightRed | Pink | Yellow | White

primrec color_u8 :: "Color \<Rightarrow> u8" where
  "color_u8 Black = 0" | "color_u8 Blue = 1" | "color_u8 Green = 2" | "color_u8 Cyan = 3" | "color_u8 Red = 4"
| "color_u8 Magenta = 5" | "color_u8 Brown = 6" | "color_u8 LightGray = 7" | "color_u8 DarkGray = 8"
| "color_u8 LightBlue = 9" | "color_u8 LightGreen = 10" | "color_u8 LightCyan = 11" | "color_u8 LightRed = 12"
| "color_u8 Pink = 13" | "color_u8 Yellow = 14" | "color_u8 White = 15"

definition ColorCode_new :: "Color \<Rightarrow> Color \<Rightarrow> u8" where
  "ColorCode_new foreground background = push_bit 4 (color_u8 background) OR color_u8 foreground"

record ScreenChar =
  ascii_character :: u8
  char_color :: u8

definition BUFFER_HEIGHT :: nat where "BUFFER_HEIGHT = 25"

definition BUFFER_WIDTH :: nat where "BUFFER_WIDTH = 80"

type_synonym Buffer = "ScreenChar list list"

record Writer =
  column_position :: nat
  color_code :: u8
  buffer :: Buffer

text \<open>Reading and writing a cell: the indices are checked against the arrays.\<close>

definition cell_read :: "Buffer \<Rightarrow> nat \<Rightarrow> nat \<Rightarrow> ScreenChar run" where
  "cell_read b row col = rbind (index b row) (\<lambda>r. index r col)"

definition cell_write :: "Buffer \<Rightarrow> nat \<Rightarrow> nat \<Rightarrow> ScreenChar \<Rightarrow> Buffer run" where
  "cell_write b row col c =
     rbind (index b row) (\<lambda>r. if col < length r then Val (b[row := r[col := c]]) else Panic OutOfBounds)"

section \<open>Operations\<close>

text \<open>The loops of \<^verbatim>\<open>new_line\<close> and \<^verbatim>\<open>clear_row\<close>, over the rows and columns still to do.\<close>

primrec copy_cols :: "nat \<Rightarrow> nat list \<Rightarrow> Buffer \<Rightarrow> Buffer run" where
  "copy_cols row [] b = Val b"
| "copy_cols row (col # cols) b =
     rbind (cell_read b row col) (\<lambda>character.
     rbind (cell_write b (row - 1) col character) (copy_cols row cols))"

primrec copy_rows :: "nat list \<Rightarrow> Buffer \<Rightarrow> Buffer run" where
  "copy_rows [] b = Val b"
| "copy_rows (row # rows) b = rbind (copy_cols row [0..<BUFFER_WIDTH] b) (copy_rows rows)"

primrec clear_cols :: "nat \<Rightarrow> ScreenChar \<Rightarrow> nat list \<Rightarrow> Buffer \<Rightarrow> Buffer run" where
  "clear_cols row blank [] b = Val b"
| "clear_cols row blank (col # cols) b = rbind (cell_write b row col blank) (clear_cols row blank cols)"

definition clear_row :: "Writer \<Rightarrow> nat \<Rightarrow> Writer run" where
  "clear_row w row =
     (let blank = \<lparr>ascii_character = 0x20, char_color = color_code w\<rparr> in
      rbind (clear_cols row blank [0..<BUFFER_WIDTH] (buffer w)) (\<lambda>b. Val (w\<lparr>buffer := b\<rparr>)))"

definition new_line :: "Writer \<Rightarrow> Writer run" where
  "new_line w =
     rbind (copy_rows [1..<BUFFER_HEIGHT] (buffer w)) (\<lambda>b.
     rbind (clear_row (w\<lparr>buffer := b\<rparr>) (BUFFER_HEIGHT - 1)) (\<lambda>w.
     Val (w\<lparr>column_position := 0\<rparr>)))"

definition write_byte :: "Writer \<Rightarrow> u8 \<Rightarrow> Writer run" where
  "write_byte w c =
     (if c = 0x0A then new_line w
      else
        rbind (if column_position w \<ge> BUFFER_WIDTH then new_line w else Val w) (\<lambda>w.
          let row = BUFFER_HEIGHT - 1; col = column_position w in
          rbind (cell_write (buffer w) row col \<lparr>ascii_character = c, char_color = color_code w\<rparr>) (\<lambda>b.
            Val (w\<lparr>buffer := b, column_position := column_position w + 1\<rparr>))))"

primrec write_string :: "Writer \<Rightarrow> str \<Rightarrow> Writer run" where
  "write_string w [] = Val w"
| "write_string w (c # s) =
     rbind (if (0x20 \<le> c \<and> c \<le> 0x7E) \<or> c = 0x0A then write_byte w c else write_byte w 0xFE)
       (\<lambda>w. write_string w s)"

definition write_str :: "Writer \<Rightarrow> str \<Rightarrow> Writer run" where
  "write_str w s = write_string w s"

text \<open>
  \<^verbatim>\<open>_print\<close>: \<^verbatim>\<open>write_fmt\<close> calls \<^verbatim>\<open>write_str\<close> once for each piece of the formatted text, in order; each call
  returns \<^verbatim>\<open>Ok\<close>.
\<close>

primrec vga_print :: "Writer \<Rightarrow> str list \<Rightarrow> Writer run" where
  "vga_print w [] = Val w"
| "vga_print w (s # ss) = rbind (write_str w s) (\<lambda>w. vga_print w ss)"

text \<open>\<^verbatim>\<open>WRITER\<close>, over the buffer found at address \<^verbatim>\<open>0xb8000\<close>.\<close>

definition WRITER :: "Buffer \<Rightarrow> Writer" where
  "WRITER b = \<lparr>column_position = 0, color_code = ColorCode_new Yellow Black, buffer = b\<rparr>"

section \<open>Scrolling\<close>

definition wf_buffer :: "Buffer \<Rightarrow> bool" where
  "wf_buffer b \<longleftrightarrow> length b = 25 \<and> (\<forall>r \<in> set b. length r = 80)"

lemma cell_write_ok:
  "row < length b \<Longrightarrow> col < length (b ! row) \<Longrightarrow> cell_write b row col c = Val (b[row := (b ! row)[col := c]])"
  by (simp add: cell_write_def index_def)

lemma cell_read_ok:
  "row < length b \<Longrightarrow> col < length (b ! row) \<Longrightarrow> cell_read b row col = Val (b ! row ! col)"
  by (simp add: cell_read_def index_def)

text \<open>Writing the columns from \<open>k\<close> on replaces the end of the row.\<close>

lemma clear_cols_ok:
  assumes "row < length b" "length (b ! row) = n" "k \<le> n"
  shows "clear_cols row blank [k..<n] b = Val (b[row := take k (b ! row) @ replicate (n - k) blank])"
  using assms
proof (induction "n - k" arbitrary: k b)
  case 0
  then show ?case by simp
next
  case (Suc d)
  then have k: "k < n" "[k..<n] = k # [Suc k..<n]" by (simp_all add: upt_conv_Cons)
  let ?b = "b[row := (b ! row)[k := blank]]"
  have "clear_cols row blank [Suc k..<n] ?b = Val (?b[row := take (Suc k) (?b ! row) @ replicate (n - Suc k) blank])"
    using Suc k by (intro Suc.hyps) auto
  moreover have "take (Suc k) ((b ! row)[k := blank]) @ replicate (n - Suc k) blank
      = take k (b ! row) @ replicate (n - k) blank"
    using Suc.prems k by (simp add: take_Suc_conv_app_nth Suc_diff_Suc flip: replicate_Suc)
  ultimately show ?case using Suc.prems k by (simp add: cell_write_ok)
qed

lemma copy_cols_ok:
  assumes "Suc row < length b" "length (b ! row) = n" "length (b ! Suc row) = n" "k \<le> n"
  shows "copy_cols (Suc row) [k..<n] b = Val (b[row := take k (b ! row) @ drop k (b ! Suc row)])"
  using assms
proof (induction "n - k" arbitrary: k b)
  case 0
  then show ?case by simp
next
  case (Suc d)
  then have k: "k < n" "[k..<n] = k # [Suc k..<n]" by (simp_all add: upt_conv_Cons)
  let ?c = "b ! Suc row ! k"
  let ?b = "b[row := (b ! row)[k := ?c]]"
  have "copy_cols (Suc row) [Suc k..<n] ?b = Val (?b[row := take (Suc k) (?b ! row) @ drop (Suc k) (?b ! Suc row)])"
    using Suc k by (intro Suc.hyps) auto
  moreover have "take (Suc k) ((b ! row)[k := ?c]) @ drop (Suc k) (b ! Suc row) = take k (b ! row) @ drop k (b ! Suc row)"
    using Suc.prems k by (simp add: take_Suc_conv_app_nth Cons_nth_drop_Suc [symmetric])
  ultimately show ?case using Suc.prems k by (simp add: cell_write_ok cell_read_ok)
qed

text \<open>After the rows up to \<open>k\<close> have been copied.\<close>

lemma copy_rows_ok:
  assumes "length b = n" "\<forall>r \<in> set b. length r = BUFFER_WIDTH" "k < n"
  shows "copy_rows [Suc k..<n] b = Val (take k b @ drop (Suc k) b @ [last b])"
  using assms
proof (induction "n - k" arbitrary: k b)
  case 0
  then show ?case by simp
next
  case (Suc d)
  show ?case
  proof (cases "Suc k = n")
    case True
    then have "b = take k b @ [last b]" using Suc.prems
      by (metis append_butlast_last_id butlast_conv_take diff_Suc_1 length_0_conv not_less_zero)
    with True Suc.prems show ?thesis by simp
  next
    case False
    with Suc.prems have k: "Suc k < n" "[Suc k..<n] = Suc k # [Suc (Suc k)..<n]" by (simp_all add: upt_conv_Cons)
    let ?b = "b[k := b ! Suc k]"
    have "copy_cols (Suc k) [0..<BUFFER_WIDTH] b = Val ?b"
      using copy_cols_ok [of k b BUFFER_WIDTH 0] Suc.prems k by simp
    moreover have "copy_rows [Suc (Suc k)..<n] ?b = Val (take (Suc k) ?b @ drop (Suc (Suc k)) ?b @ [last ?b])"
      using Suc k by (intro Suc.hyps) (auto dest: set_update_subset_insert [THEN subsetD])
    moreover have "take (Suc k) ?b = take k b @ [b ! Suc k]" using Suc.prems by (simp add: take_Suc_conv_app_nth)
    moreover have "last ?b = last b" using k Suc.prems by (subst last_list_update) auto
    ultimately show ?thesis using k Suc.prems by (simp add: Cons_nth_drop_Suc)
  qed
qed

definition blank_char :: "u8 \<Rightarrow> ScreenChar" where
  "blank_char col = \<lparr>ascii_character = 0x20, char_color = col\<rparr>"

lemma new_line_ok:
  assumes "wf_buffer (buffer w)"
  shows "new_line w = Val (w\<lparr>buffer := tl (buffer w) @ [replicate 80 (blank_char (color_code w))], column_position := 0\<rparr>)"
proof -
  let ?b = "drop 1 (buffer w) @ [last (buffer w)]"
  have wf: "length (buffer w) = 25" "\<forall>r \<in> set (buffer w). length r = BUFFER_WIDTH"
    using assms by (simp_all add: wf_buffer_def BUFFER_WIDTH_def)
  then have ne: "buffer w \<noteq> []" by auto
  have rows: "copy_rows [1..<BUFFER_HEIGHT] (buffer w) = Val ?b"
    using copy_rows_ok [OF wf, of 0] by (simp add: BUFFER_HEIGHT_def)
  have "length (last (buffer w)) = 80" using wf ne by (simp add: BUFFER_WIDTH_def)
  moreover have "?b ! 24 = last (buffer w)" "length ?b = 25" using wf(1) by (simp_all add: nth_append)
  ultimately have "clear_cols 24 c [0..<BUFFER_WIDTH] ?b = Val (?b[24 := replicate 80 c])" for c
    using clear_cols_ok [of 24 ?b 80 0 c] by (simp add: BUFFER_WIDTH_def)
  moreover have "?b[24 := x] = tl (buffer w) @ [x]" for x using wf(1) by (simp add: list_update_append drop_Suc)
  ultimately show ?thesis
    unfolding new_line_def rows by (simp add: clear_row_def blank_char_def BUFFER_HEIGHT_def)
qed

section \<open>Text\<close>

text \<open>
  The reference: a text is split at its newlines, and each part is cut into lines of at most 80
  characters.  A character that cannot be shown becomes \<^verbatim>\<open>0xfe\<close>.
\<close>

function wrap :: "str \<Rightarrow> str list" where
  "wrap s = (if length s \<le> 80 then [s] else take 80 s # wrap (drop 80 s))"
  by auto
termination by (relation "measure length") auto

declare wrap.simps [simp del]

definition text_lines :: "str \<Rightarrow> str list" where
  "text_lines s = concat (map wrap (str_split 0x0A s))"

definition printable :: "u8 \<Rightarrow> u8" where
  "printable c = (if (0x20 \<le> c \<and> c \<le> 0x7E) \<or> c = 0x0A then c else 0xFE)"

definition render :: "u8 \<Rightarrow> str \<Rightarrow> ScreenChar list" where
  "render col s = map (\<lambda>c. \<lparr>ascii_character = c, char_color = col\<rparr>) s @ replicate (80 - length s) (blank_char col)"

text \<open>The screen shows \<open>rows\<close> above the line \<open>cur\<close>, and the next character goes behind \<open>cur\<close>.\<close>

definition screen :: "Writer \<Rightarrow> ScreenChar list list \<Rightarrow> str \<Rightarrow> bool" where
  "screen w rows cur \<longleftrightarrow> buffer w = rows @ [render (color_code w) cur] \<and> length rows = 24
     \<and> (\<forall>r \<in> set rows. length r = 80) \<and> length cur \<le> 80 \<and> 0x0A \<notin> set cur \<and> column_position w = length cur"

lemma length_render: "length s \<le> 80 \<Longrightarrow> length (render col s) = 80"
  by (simp add: render_def)

lemma wrap_nonempty: "wrap s \<noteq> []"
  by (subst wrap.simps) simp

lemma text_lines_nonempty: "text_lines s \<noteq> []"
  using wrap_nonempty by (cases "str_split 0x0A s") (auto simp: text_lines_def)

lemma str_split_prefix: "c \<notin> set u \<Longrightarrow> str_split c (u @ t) = (u @ hd (str_split c t)) # tl (str_split c t)"
  by (induction u) (auto split: list.splits)

lemma text_lines_newline: "0x0A \<notin> set u \<Longrightarrow> length u \<le> 80 \<Longrightarrow> text_lines (u @ 0x0A # s) = u # text_lines s"
  by (simp add: text_lines_def str_split_prefix wrap.simps [of u])

lemma text_lines_full:
  assumes "0x0A \<notin> set u" "length u = 80" "c \<noteq> 0x0A"
  shows "text_lines (u @ c # s) = u # text_lines (c # s)"
proof -
  obtain h ps where h: "str_split 0x0A (c # s) = h # ps" using str_split_nonempty neq_Nil_conv by metis
  then have "h \<noteq> []" using assms(3) by (auto split: list.splits)
  then have "wrap (u @ h) = u # wrap h" using assms(2) by (subst wrap.simps) simp
  moreover have "str_split 0x0A (u @ c # s) = (u @ h) # ps" using str_split_prefix [OF assms(1)] h by (metis list.sel(1,3))
  ultimately show ?thesis using h by (simp add: text_lines_def del: str_split.simps)
qed

lemma screen_wf: "screen w rows cur \<Longrightarrow> wf_buffer (buffer w)"
  by (auto simp: screen_def wf_buffer_def length_render)

lemma render_append:
  assumes "length u < 80"
  shows "(render col u)[length u := \<lparr>ascii_character = c, char_color = col\<rparr>] = render col (u @ [c])"
proof -
  have "replicate (80 - length u) x = x # replicate (80 - Suc (length u)) x" for x :: ScreenChar
    using assms by (simp add: Suc_diff_Suc flip: replicate_Suc)
  then show ?thesis by (simp add: render_def list_update_append)
qed

lemma screen_new_line:
  assumes "screen w rows cur"
  obtains w' where "new_line w = Val w'" "color_code w' = color_code w"
    "screen w' (tl rows @ [render (color_code w) cur]) []"
proof -
  have "rows \<noteq> []" using assms by (auto simp: screen_def)
  then have "set (tl rows) \<subseteq> set rows" "length (tl rows) = 23" "tl (buffer w) = tl rows @ [render (color_code w) cur]"
    using assms by (auto simp: screen_def dest: list.set_sel(2))
  with assms show thesis
    by (intro that [OF new_line_ok [OF screen_wf [OF assms]]])
      (auto simp: screen_def length_render render_def [of _ "[]"])
qed

lemma screen_put:
  assumes "screen w rows cur" "length cur < 80" "c \<noteq> 0x0A"
  obtains w' where "write_byte w c = Val w'" "color_code w' = color_code w" "screen w' rows (cur @ [c])"
proof -
  have s: "buffer w = rows @ [render (color_code w) cur]" "length rows = 24" "column_position w = length cur"
    using assms(1) by (simp_all add: screen_def)
  have "cell_write (buffer w) 24 (length cur) \<lparr>ascii_character = c, char_color = color_code w\<rparr>
      = Val (rows @ [render (color_code w) (cur @ [c])])"
    using s assms(2) by (simp add: cell_write_ok length_render render_append nth_append list_update_append)
  with s assms show thesis
    by (intro that [of "w\<lparr>buffer := rows @ [render (color_code w) (cur @ [c])], column_position := length cur + 1\<rparr>"])
      (auto simp: write_byte_def BUFFER_WIDTH_def BUFFER_HEIGHT_def screen_def)
qed

text \<open>One byte: it ends the line, joins it, or starts a new one.\<close>

lemma screen_write_byte:
  assumes "screen w rows cur"
  obtains (join) w' where "write_byte w c = Val w'" "color_code w' = color_code w" "c \<noteq> 0x0A" "length cur < 80"
      "screen w' rows (cur @ [c])"
    | (line) w' where "write_byte w c = Val w'" "color_code w' = color_code w" "c = 0x0A"
      "screen w' (tl rows @ [render (color_code w) cur]) []"
    | (full) w' where "write_byte w c = Val w'" "color_code w' = color_code w" "c \<noteq> 0x0A" "length cur = 80"
      "screen w' (tl rows @ [render (color_code w) cur]) [c]"
proof -
  have col: "column_position w = length cur" "length cur \<le> 80" using assms by (simp_all add: screen_def)
  obtain w1 where w1: "new_line w = Val w1" "color_code w1 = color_code w"
    "screen w1 (tl rows @ [render (color_code w) cur]) []"
    using screen_new_line [OF assms] .
  show thesis
  proof (cases "c = 0x0A")
    case True
    with line w1 show thesis by (simp add: write_byte_def)
  next
    case c: False
    show thesis
    proof (cases "length cur < 80")
      case True
      with screen_put [OF assms True c] join c show thesis by metis
    next
      case False
      obtain w2 where "write_byte w1 c = Val w2" "color_code w2 = color_code w1"
        "screen w2 (tl rows @ [render (color_code w) cur]) ([] @ [c])"
        using screen_put [OF w1(3) _ c] by auto
      moreover have "write_byte w c = write_byte w1 c"
        using False c col w1(1,3) by (simp add: write_byte_def BUFFER_WIDTH_def screen_def)
      ultimately show thesis using full [of w2] c False col w1(2) by simp
    qed
  qed
qed

definition shown :: "u8 \<Rightarrow> ScreenChar list list \<Rightarrow> str list \<Rightarrow> ScreenChar list list" where
  "shown col rows ls = drop (length ls - 1) (rows @ map (render col) (butlast ls))"

lemma shown_Cons:
  "length rows = 24 \<Longrightarrow> ls \<noteq> [] \<Longrightarrow> shown col rows (u # ls) = shown col (tl rows @ [render col u]) ls"
  by (cases rows) (auto simp: shown_def Suc_diff_le drop_Cons' neq_Nil_conv)

lemma write_string_shown:
  assumes "screen w rows cur"
  shows "\<exists>w'. write_string w s = Val w' \<and> color_code w' = color_code w
    \<and> screen w' (shown (color_code w) rows (text_lines (cur @ map printable s))) (last (text_lines (cur @ map printable s)))"
  using assms
proof (induction s arbitrary: w rows cur)
  case Nil
  then have "text_lines cur = [cur]" using str_split_prefix [of "0x0A" cur "[]"]
    by (simp add: text_lines_def screen_def wrap.simps [of cur])
  with Nil show ?case by (simp add: shown_def)
next
  case (Cons c s)
  have cur: "0x0A \<notin> set cur" "length cur \<le> 80" "length rows = 24" using Cons.prems by (simp_all add: screen_def)
  have step: "write_string w (c # s) = rbind (write_byte w (printable c)) (\<lambda>w. write_string w s)"
    by (simp add: printable_def)
  show ?case
  proof (rule screen_write_byte [OF Cons.prems, of "printable c"])
    fix w' assume "write_byte w (printable c) = Val w'" "color_code w' = color_code w" "screen w' rows (cur @ [printable c])"
    with Cons.IH [of w' rows "cur @ [printable c]"] step show ?thesis by simp
  next
    fix w' assume w': "write_byte w (printable c) = Val w'" "color_code w' = color_code w" "printable c = 0x0A"
      "screen w' (tl rows @ [render (color_code w) cur]) []"
    with Cons.IH [OF w'(4)] step cur shown_Cons [OF cur(3) text_lines_nonempty] show ?thesis
      by (simp add: text_lines_newline text_lines_nonempty)
  next
    fix w' assume w': "write_byte w (printable c) = Val w'" "color_code w' = color_code w" "printable c \<noteq> 0x0A"
      "length cur = 80" "screen w' (tl rows @ [render (color_code w) cur]) [printable c]"
    with Cons.IH [OF w'(5)] step cur shown_Cons [OF cur(3) text_lines_nonempty] show ?thesis
      by (simp add: text_lines_full text_lines_nonempty)
  qed
qed

lemma write_string_append: "write_string w (s @ t) = rbind (write_string w s) (\<lambda>w. write_string w t)"
  by (induction s arbitrary: w) (simp_all add: rbind_assoc)

lemma vga_print_concat: "vga_print w ss = write_string w (concat ss)"
  by (induction ss arbitrary: w) (simp_all add: write_str_def write_string_append)

text \<open>The writer on a blank screen.\<close>

lemma blank_screen: "screen (WRITER (replicate 25 (replicate 80 (blank_char 0x0E)))) (replicate 24 (replicate 80 (blank_char 0x0E))) []"
  by (simp add: screen_def WRITER_def ColorCode_new_def render_def flip: replicate_Suc)
    (simp add: numeral_eq_Suc replicate_append_same)

text \<open>Whatever the screen memory holds, a printed newline brings the writer into the described state.\<close>

lemma new_line_screen:
  assumes "wf_buffer (buffer w)"
  shows "\<exists>w'. write_string w [0x0A] = Val w' \<and> color_code w' = color_code w \<and> screen w' (tl (buffer w)) []"
proof -
  have "set (tl (buffer w)) \<subseteq> set (buffer w)" by (cases "buffer w") auto
  with assms show ?thesis using new_line_ok [OF assms]
    by (auto simp: write_byte_def screen_def wf_buffer_def render_def)
qed

text \<open>
  C17: Printing never panics and shows exactly the text: whatever pieces \<^verbatim>\<open>print!\<close> is called with, the screen
  afterwards holds the rows that were there, followed by the text cut at its newlines and at the
  80th column, scrolled so that the last 25 lines remain; characters outside printable ASCII show
  as \<^verbatim>\<open>0xfe\<close>, and the writer stands behind the last character of the last line.
\<close>

theorem print_shows_text:
  assumes "screen w rows cur"
  shows "\<exists>w'. vga_print w ss = Val w' \<and> color_code w' = color_code w
    \<and> (let ls = text_lines (cur @ map printable (concat ss)) in
        buffer w' = drop (length ls - 1) (rows @ map (render (color_code w)) ls)
        \<and> column_position w' = length (last ls))"
proof -
  let ?ls = "text_lines (cur @ map printable (concat ss))"
  obtain w' where w': "write_string w (concat ss) = Val w'" "color_code w' = color_code w"
      "screen w' (shown (color_code w) rows ?ls) (last ?ls)"
    using write_string_shown [OF assms] by blast
  have ls: "butlast ?ls @ [last ?ls] = ?ls" using text_lines_nonempty by (rule append_butlast_last_id)
  have "drop (length ?ls - 1) (rows @ map (render (color_code w)) (butlast ?ls @ [last ?ls]))
      = shown (color_code w) rows ?ls @ [render (color_code w) (last ?ls)]"
    unfolding map_append append_assoc [symmetric] by (simp add: shown_def)
  with w' show ?thesis unfolding ls vga_print_concat by (auto simp: screen_def Let_def)
qed

theorem print_shows_text_witness:
  "let w = WRITER (replicate 25 (replicate 80 (blank_char 0x0E))) in
   screen w (replicate 24 (replicate 80 (blank_char 0x0E))) []
   \<and> (\<exists>w'. vga_print w [lit ''Hi'', [0x0A, 0xC3]] = Val w' \<and> column_position w' = 1
       \<and> buffer w' = replicate 23 (replicate 80 (blank_char 0x0E))
           @ [render 0x0E (lit ''Hi''), render 0x0E [0xFE]])"
proof -
  let ?b = "replicate 80 (blank_char 0x0E)" and ?c = "lit ''Hi'' @ [0x0A, 0xC3]"
  let ?w = "WRITER (replicate 25 ?b)"
  have s: "screen ?w (replicate 24 ?b) []" by (rule blank_screen)
  have ls: "text_lines ([] @ map printable (concat [lit ''Hi'', [0x0A, 0xC3]])) = [lit ''Hi'', [0xFE]]"
    by code_simp
  have col: "color_code ?w = 0x0E" by (simp add: WRITER_def ColorCode_new_def)
  show ?thesis using s print_shows_text [OF s, of "[lit ''Hi'', [0x0A, 0xC3]]"]
    unfolding ls col by (auto simp: Let_def)
qed

end
