(* ===== verification/Interrupts.thy ===== *)
theory Interrupts
  imports Vga_Buffer
begin

text \<open>
  The interrupt handlers of \<^verbatim>\<open>interrupts.rs\<close> that return: timer, keyboard and breakpoint, over the writer of
  \<open>Vga_Buffer\<close>.  The keyboard decoder and the interrupt controller are crates and parameters of the model.
  Of them it is assumed only that each call returns, as their types below say: whatever key or error the
  decoder answers and whatever the debug output of a key is, the handlers are covered.
\<close>

section \<open>Data\<close>

definition PIC_1_OFFSET :: u8 where "PIC_1_OFFSET = 32"

datatype InterruptIndex = Timer | Keyboard

primrec as_u8 :: "InterruptIndex \<Rightarrow> u8" where
  "as_u8 Timer = PIC_1_OFFSET"
| "as_u8 Keyboard = PIC_1_OFFSET + 1"

text \<open>
  What the handlers call of other crates: the keyboard decoder of \<^verbatim>\<open>pc_keyboard\<close>, the end-of-interrupt signal
  of \<^verbatim>\<open>pic8259\<close>, and the pieces in which a key and a stack frame are formatted for debugging.  A key is a
  Unicode character or a raw key.
\<close>

datatype 'r DecodedKey = Unicode int | RawKey 'r

record ('k, 'e, 'ev, 'r, 'q, 'fr) devices =
  add_byte :: "'k \<Rightarrow> u8 \<Rightarrow> ('e + 'ev option) \<times> 'k"
  process_keyevent :: "'k \<Rightarrow> 'ev \<Rightarrow> 'r DecodedKey option \<times> 'k"
  notify_end_of_interrupt :: "'q \<Rightarrow> u8 \<Rightarrow> 'q"
  key_debug :: "'r \<Rightarrow> str list"
  frame_debug :: "'fr \<Rightarrow> str list"

text \<open>The statics the handlers lock: \<^verbatim>\<open>WRITER\<close>, \<^verbatim>\<open>KEYBOARD\<close> and \<^verbatim>\<open>PICS\<close>.\<close>

record ('k, 'q) kernel =
  k_writer :: Writer
  k_keyboard :: 'k
  k_pics :: 'q

section \<open>Handlers\<close>

text \<open>\<^verbatim>\<open>print!\<close> on the writer.\<close>

definition kprint :: "('k, 'q) kernel \<Rightarrow> str list \<Rightarrow> ('k, 'q) kernel run" where
  "kprint s pieces = rbind (vga_print (k_writer s) pieces) (\<lambda>w. Val (s\<lparr>k_writer := w\<rparr>))"

text \<open>The scancode is the byte read from port \<^verbatim>\<open>0x60\<close>.\<close>

definition keyboard_interrupt_handler ::
    "('k, 'e, 'ev, 'r, 'q, 'fr) devices \<Rightarrow> u8 \<Rightarrow> ('k, 'q) kernel \<Rightarrow> ('k, 'q) kernel run" where
  "keyboard_interrupt_handler K scancode s =
     (let (r, kb) = add_byte K (k_keyboard s) scancode;
          s = s\<lparr>k_keyboard := kb\<rparr> in
      rbind
        (case r of
           Inr (Some key_event) \<Rightarrow>
             (let (key, kb) = process_keyevent K (k_keyboard s) key_event;
                  s = s\<lparr>k_keyboard := kb\<rparr> in
              case key of
                Some (Unicode character) \<Rightarrow> kprint s [utf8_encode_char character]
              | Some (RawKey key) \<Rightarrow> kprint s (key_debug K key)
              | None \<Rightarrow> Val s)
         | _ \<Rightarrow> Val s)
        (\<lambda>s. Val (s\<lparr>k_pics := notify_end_of_interrupt K (k_pics s) (as_u8 Keyboard)\<rparr>)))"

definition timer_interrupt_handler ::
    "('k, 'e, 'ev, 'r, 'q, 'fr) devices \<Rightarrow> ('k, 'q) kernel \<Rightarrow> ('k, 'q) kernel run" where
  "timer_interrupt_handler K s = Val (s\<lparr>k_pics := notify_end_of_interrupt K (k_pics s) (as_u8 Timer)\<rparr>)"

definition breakpoint_handler ::
    "('k, 'e, 'ev, 'r, 'q, 'fr) devices \<Rightarrow> 'fr \<Rightarrow> ('k, 'q) kernel \<Rightarrow> ('k, 'q) kernel run" where
  "breakpoint_handler K stack_frame s =
     kprint s ([lit ''EXCEPTION: BREAKPOINT'' @ [0x0A]] @ frame_debug K stack_frame @ [[0x0A]])"

section \<open>Interrupts in sequence\<close>

text \<open>
  An interrupt waits until the handler of the one before has returned, and the writer is used with
  interrupts off, so handlers run one after the other.
\<close>

datatype 'fr event = TimerTick | Scancode u8 | Breakpoint 'fr

fun handle :: "('k, 'e, 'ev, 'r, 'q, 'fr) devices \<Rightarrow> 'fr event \<Rightarrow> ('k, 'q) kernel \<Rightarrow> ('k, 'q) kernel run" where
  "handle K TimerTick s = timer_interrupt_handler K s"
| "handle K (Scancode c) s = keyboard_interrupt_handler K c s"
| "handle K (Breakpoint f) s = breakpoint_handler K f s"

primrec handle_all :: "('k, 'e, 'ev, 'r, 'q, 'fr) devices \<Rightarrow> 'fr event list \<Rightarrow> ('k, 'q) kernel \<Rightarrow> ('k, 'q) kernel run" where
  "handle_all K [] s = Val s"
| "handle_all K (e # es) s = rbind (handle K e s) (handle_all K es)"

text \<open>
  The reference: the keyboard decoder alone turns the scancodes into text; a breakpoint contributes
  its message; the interrupt controller is told of every tick and scancode.
\<close>

definition decode :: "('k, 'e, 'ev, 'r, 'q, 'fr) devices \<Rightarrow> 'k \<Rightarrow> u8 \<Rightarrow> str \<times> 'k" where
  "decode K kb c =
     (case add_byte K kb c of
        (Inr (Some ev), kb) \<Rightarrow>
          (case process_keyevent K kb ev of
             (Some (Unicode ch), kb) \<Rightarrow> (utf8_encode_char ch, kb)
           | (Some (RawKey k), kb) \<Rightarrow> (concat (key_debug K k), kb)
           | (None, kb) \<Rightarrow> ([], kb))
      | (_, kb) \<Rightarrow> ([], kb))"

fun typed :: "('k, 'e, 'ev, 'r, 'q, 'fr) devices \<Rightarrow> 'k \<Rightarrow> 'fr event list \<Rightarrow> str \<times> 'k" where
  "typed K kb [] = ([], kb)"
| "typed K kb (TimerTick # es) = typed K kb es"
| "typed K kb (Breakpoint f # es) =
     (let (t, kb) = typed K kb es in
      (lit ''EXCEPTION: BREAKPOINT'' @ [0x0A] @ concat (frame_debug K f) @ [0x0A] @ t, kb))"
| "typed K kb (Scancode c # es) =
     (let (u, kb) = decode K kb c; (t, kb) = typed K kb es in (u @ t, kb))"

primrec signal :: "'fr event \<Rightarrow> u8 list" where
  "signal TimerTick = [32]"
| "signal (Scancode c) = [33]"
| "signal (Breakpoint f) = []"

lemma handle_eq:
  "handle K e s = rbind (write_string (k_writer s) (fst (typed K (k_keyboard s) [e]))) (\<lambda>w.
     Val \<lparr>k_writer = w, k_keyboard = snd (typed K (k_keyboard s) [e]),
       k_pics = fold (\<lambda>i q. notify_end_of_interrupt K q i) (signal e) (k_pics s)\<rparr>)"
  by (cases s; cases e)
    (auto simp: timer_interrupt_handler_def keyboard_interrupt_handler_def breakpoint_handler_def decode_def kprint_def
      vga_print_concat as_u8_def PIC_1_OFFSET_def rbind_assoc Let_def
      split: prod.split sum.split option.split DecodedKey.split)

lemma typed_Cons:
  "typed K kb (e # es) = (fst (typed K kb [e]) @ fst (typed K (snd (typed K kb [e])) es), snd (typed K (snd (typed K kb [e])) es))"
  by (cases e) (auto simp: split: prod.split)

lemma handle_all_eq:
  "handle_all K es s = rbind (write_string (k_writer s) (fst (typed K (k_keyboard s) es))) (\<lambda>w.
     Val \<lparr>k_writer = w, k_keyboard = snd (typed K (k_keyboard s) es),
       k_pics = fold (\<lambda>i q. notify_end_of_interrupt K q i) (concat (map signal es)) (k_pics s)\<rparr>)"
proof (induction es arbitrary: s)
  case Nil
  then show ?case by (cases s) simp
next
  case (Cons e es)
  show ?case
    unfolding handle_all.simps handle_eq typed_Cons [of K "k_keyboard s" e es]
    by (simp add: Cons.IH write_string_append rbind_assoc)
qed

text \<open>
  C21: Whatever interrupts arrive, none of the handlers panics.  The timer and the keyboard interrupts
  are signalled to the interrupt controller as ended, each exactly once, in order, with its own
  number; what the keyboard decodes and the breakpoints report appears on the screen in order, behind
  what was there, and no scancode is lost or decoded twice.
\<close>

theorem interrupts_served:
  assumes "screen (k_writer s) rows cur"
  shows "\<exists>s'. handle_all K es s = Val s' \<and> k_keyboard s' = snd (typed K (k_keyboard s) es)
    \<and> k_pics s' = fold (\<lambda>i q. notify_end_of_interrupt K q i) (concat (map signal es)) (k_pics s)
    \<and> (let ls = text_lines (cur @ map printable (fst (typed K (k_keyboard s) es))) in
        screen (k_writer s') (shown (color_code (k_writer s)) rows ls) (last ls))"
  using write_string_shown [OF assms, of "fst (typed K (k_keyboard s) es)"]
  by (auto simp: handle_all_eq Let_def)

text \<open>A keyboard that turns a scancode below 128 into the character of that number.\<close>

definition plain_devices :: "(unit, unit, u8, unit, u8 list, unit) devices" where
  "plain_devices = \<lparr>add_byte = (\<lambda>_ c. (if c < 128 then Inr (Some c) else Inr None, ())),
     process_keyevent = (\<lambda>_ c. (Some (Unicode (uint c)), ())), notify_end_of_interrupt = (\<lambda>q i. q @ [i]),
     key_debug = (\<lambda>_. []), frame_debug = (\<lambda>_. [lit ''frame''])\<rparr>"

theorem interrupts_served_witness:
  "let w = WRITER (replicate 25 (replicate 80 (blank_char 0x0E)));
       es = [Scancode 0x48, TimerTick, Scancode 0xC8, Scancode 0x69, Breakpoint ()] in
   \<exists>s. handle_all plain_devices es \<lparr>k_writer = w, k_keyboard = (), k_pics = []\<rparr> = Val s \<and> k_pics s = [33, 32, 33, 33]
     \<and> screen (k_writer s) (shown 0x0E (replicate 24 (replicate 80 (blank_char 0x0E)))
           [lit ''HiEXCEPTION: BREAKPOINT'', lit ''frame'', []]) []"
proof -
  define w where "w = WRITER (replicate 25 (replicate 80 (blank_char 0x0E)))"
  let ?es = "[Scancode 0x48, TimerTick, Scancode 0xC8, Scancode 0x69, Breakpoint ()]"
  let ?s = "\<lparr>k_writer = w, k_keyboard = (), k_pics = []\<rparr>"
  have w: "screen w (replicate 24 (replicate 80 (blank_char 0x0E))) []" unfolding w_def by (rule blank_screen)
  have col: "color_code w = 0x0E" by (simp add: w_def WRITER_def ColorCode_new_def)
  have ls: "text_lines ([] @ map printable (fst (typed plain_devices () ?es)))
      = [lit ''HiEXCEPTION: BREAKPOINT'', lit ''frame'', []]" by code_simp
  have "screen (k_writer ?s) (replicate 24 (replicate 80 (blank_char 0x0E))) []" using w by simp
  from interrupts_served [OF this, of plain_devices ?es] ls col show ?thesis
    unfolding w_def [symmetric] Let_def by (auto simp: plain_devices_def)
qed

end
