(* ===== verification/Memory.thy ===== *)
theory Memory
  imports Allocator
begin

unbundle bit_operations_syntax

text \<open>
  The physical memory of \<^verbatim>\<open>memory.rs\<close>: the frame allocators and the example mapping.  The memory map of
  the \<^verbatim>\<open>bootloader\<close> crate is the list of its regions with the type, start and end that the code reads; the
  constructor of frames \<open>frame_of\<close>, the region type \<open>usable\<close> and the page-table mapper of the \<^verbatim>\<open>x86_64\<close> crate
  are parameters.  The locale \<open>frame_source\<close> states what a client may rely on of a frame allocator.
\<close>

section \<open>Data\<close>

text \<open>What the code reads of a region of the bootloader's memory map.\<close>

record 'k MemoryRegion =
  region_type :: 'k
  start_addr :: addr
  end_addr :: addr

record 'k BootInfoFrameAllocator =
  memory_map :: "'k MemoryRegion list"
  fa_next :: addr

section \<open>Operations\<close>

definition empty_allocate_frame :: "unit \<Rightarrow> ('f option \<times> unit) run" where
  "empty_allocate_frame fa = Val (None, fa)"

definition boot_init :: "'k MemoryRegion list \<Rightarrow> 'k BootInfoFrameAllocator" where
  "boot_init mm = \<lparr>memory_map = mm, fa_next = 0\<rparr>"

text \<open>\<^verbatim>\<open>(start..end).step_by(4096)\<close>\<close>

function step_addrs :: "addr \<Rightarrow> addr \<Rightarrow> addr list" where
  "step_addrs lo hi = (if lo < hi then lo # step_addrs (lo + 4096) hi else [])"
  by auto
termination by (relation "measure (\<lambda>(lo, hi). nat (hi - lo))") auto

declare step_addrs.simps [simp del]

text \<open>
  The addresses of \<^verbatim>\<open>usable_frame\<close>.  The last adapter of the iterator, which makes a frame of an
  address, is applied as elements are drawn.
\<close>

definition usable_addrs :: "'k \<Rightarrow> 'k MemoryRegion list \<Rightarrow> addr list" where
  "usable_addrs usable mm =
     concat (map (\<lambda>r. step_addrs (start_addr r) (end_addr r)) (filter (\<lambda>r. region_type r = usable) mm))"

text \<open>\<^verbatim>\<open>nth\<close> of the mapped iterator: every element up to the one returned is drawn and mapped.\<close>

fun nth_frame :: "(addr \<Rightarrow> 'f run) \<Rightarrow> addr list \<Rightarrow> nat \<Rightarrow> 'f option run" where
  "nth_frame frame_of [] n = Val None"
| "nth_frame frame_of (a # as) n =
     rbind (frame_of a) (\<lambda>f. case n of 0 \<Rightarrow> Val (Some f) | Suc n \<Rightarrow> nth_frame frame_of as n)"

definition allocate_frame :: "(addr \<Rightarrow> 'f run) \<Rightarrow> 'k \<Rightarrow> 'k BootInfoFrameAllocator
    \<Rightarrow> ('f option \<times> 'k BootInfoFrameAllocator) run" where
  "allocate_frame frame_of usable fa =
     rbind (nth_frame frame_of (usable_addrs usable (memory_map fa)) (nat (fa_next fa))) (\<lambda>frame.
     rbind (usize_add (fa_next fa) 1) (\<lambda>n. Val (frame, fa\<lparr>fa_next := n\<rparr>)))"

section \<open>Page tables\<close>

text \<open>
  The page-table mapper of the \<^verbatim>\<open>x86_64\<close> crate, as the code calls it: subtraction on \<^verbatim>\<open>VirtAddr\<close>, the page
  that contains an address, inclusive ranges of pages, the flags, and \<^verbatim>\<open>map_to\<close>, which may change the
  mapper and ask the frame allocator.  \<^verbatim>\<open>flush\<close> only concerns the address cache of the processor.
\<close>

record ('p, 'f, 'm, 'fa, 'e) paging =
  va_sub :: "addr \<Rightarrow> addr \<Rightarrow> addr run"
  page_of :: "addr \<Rightarrow> 'p"
  range_inclusive :: "'p \<Rightarrow> 'p \<Rightarrow> 'p list"
  flag_present :: "64 word"
  flag_writable :: "64 word"
  frame_allocation_failed :: 'e
  map_to :: "'m \<Rightarrow> 'fa \<Rightarrow> 'p \<Rightarrow> 'f \<Rightarrow> 64 word \<Rightarrow> (('e + unit) \<times> 'm \<times> 'fa) run"

definition crate_example_mapping :: "(addr \<Rightarrow> 'f run) \<Rightarrow> ('p, 'f, 'm, 'fa, 'e) paging \<Rightarrow> 'p \<Rightarrow> 'm \<Rightarrow> 'fa \<Rightarrow> ('m \<times> 'fa) run" where
  "crate_example_mapping frame_of P page mapper fa =
     rbind (frame_of 0xb8000) (\<lambda>frame.
     let flags = flag_present P OR flag_writable P in
     rbind (map_to P mapper fa page frame flags) (\<lambda>(map_to_result, mapper, fa).
     case map_to_result of
       Inl e \<Rightarrow> Panic (ExplicitPanic ''map_to failed'')
     | Inr _ \<Rightarrow> Val (mapper, fa)))"

section \<open>The interface of a frame allocator\<close>

text \<open>A sequence of requests.\<close>

primrec draw :: "('fa \<Rightarrow> ('f option \<times> 'fa) run) \<Rightarrow> nat \<Rightarrow> 'fa \<Rightarrow> ('f option list \<times> 'fa) run" where
  "draw alloc 0 fa = Val ([], fa)"
| "draw alloc (Suc n) fa =
     rbind (alloc fa) (\<lambda>(f, fa). rbind (draw alloc n fa) (\<lambda>(fs, fa). Val (f # fs, fa)))"

text \<open>
  A source of frames answers from a fixed sequence of distinct frames, one at a time, and then
  answers \<^verbatim>\<open>None\<close>.  \<open>rest\<close> is what is left of the sequence and \<open>asked\<close> the number of requests so far, which
  has to fit a \<^verbatim>\<open>usize\<close>.
\<close>

locale frame_source =
  fixes alloc :: "'fa \<Rightarrow> ('f option \<times> 'fa) run"
    and ok :: "'fa \<Rightarrow> bool"
    and rest :: "'fa \<Rightarrow> 'f list"
    and asked :: "'fa \<Rightarrow> int"
  assumes alloc_answers: "\<lbrakk>ok fa; asked fa + 1 < 0x10000000000000000\<rbrakk> \<Longrightarrow>
      \<exists>fa'. alloc fa = Val (case rest fa of [] \<Rightarrow> None | f # _ \<Rightarrow> Some f, fa')
        \<and> ok fa' \<and> rest fa' = tl (rest fa) \<and> asked fa' \<le> asked fa + 1"
    and rest_distinct: "ok fa \<Longrightarrow> distinct (rest fa)"
begin

lemma draw_answers:
  assumes "ok fa" "asked fa + int n < 0x10000000000000000"
  shows "\<exists>fa'. draw alloc n fa = Val (map Some (take n (rest fa)) @ replicate (n - length (rest fa)) None, fa')
    \<and> ok fa' \<and> rest fa' = drop n (rest fa) \<and> asked fa' \<le> asked fa + int n"
  using assms
proof (induction n arbitrary: fa)
  case (Suc n)
  obtain fa1 where 1: "alloc fa = Val (case rest fa of [] \<Rightarrow> None | f # _ \<Rightarrow> Some f, fa1)" "ok fa1"
      "rest fa1 = tl (rest fa)" "asked fa1 \<le> asked fa + 1"
    using alloc_answers [of fa] Suc.prems by auto
  from Suc.IH [of fa1] 1(2,4) Suc.prems(2) obtain fa2 where
    "draw alloc n fa1 = Val (map Some (take n (rest fa1)) @ replicate (n - length (rest fa1)) None, fa2)" "ok fa2"
      "rest fa2 = drop n (rest fa1)" "asked fa2 \<le> asked fa1 + int n" by auto
  with 1 show ?case by (cases "rest fa") auto
qed simp

end

text \<open>The allocator with nothing to give.\<close>

interpretation no_frames: frame_source empty_allocate_frame "\<lambda>_. True" "\<lambda>_. []" "\<lambda>_. 0"
  by unfold_locales (simp_all add: empty_allocate_frame_def)

section \<open>The boot allocator\<close>

text \<open>The frames of the usable regions, as far as the constructor of frames returns.\<close>

definition run_the :: "'a run \<Rightarrow> 'a" where
  "run_the r = (case r of Val x \<Rightarrow> x | Panic _ \<Rightarrow> undefined)"

lemma run_the_Val [simp]: "run_the (Val x) = x"
  by (simp add: run_the_def)

definition usable_frames :: "(addr \<Rightarrow> 'f run) \<Rightarrow> 'k \<Rightarrow> 'k MemoryRegion list \<Rightarrow> 'f list" where
  "usable_frames frame_of usable mm = map (\<lambda>a. run_the (frame_of a)) (usable_addrs usable mm)"

definition boot_ok :: "(addr \<Rightarrow> 'f run) \<Rightarrow> 'k \<Rightarrow> 'k BootInfoFrameAllocator \<Rightarrow> bool" where
  "boot_ok frame_of usable fa \<longleftrightarrow> 0 \<le> fa_next fa
     \<and> (\<forall>a \<in> set (usable_addrs usable (memory_map fa)). returns (frame_of a))
     \<and> distinct (usable_frames frame_of usable (memory_map fa))"

definition boot_rest :: "(addr \<Rightarrow> 'f run) \<Rightarrow> 'k \<Rightarrow> 'k BootInfoFrameAllocator \<Rightarrow> 'f list" where
  "boot_rest frame_of usable fa = drop (nat (fa_next fa)) (usable_frames frame_of usable (memory_map fa))"

lemma nth_frame_eq:
  assumes "\<forall>a \<in> set as. returns (frame_of a)"
  shows "nth_frame frame_of as n
    = Val (case drop n (map (\<lambda>a. run_the (frame_of a)) as) of [] \<Rightarrow> None | f # _ \<Rightarrow> Some f)"
  using assms by (induction as arbitrary: n) (auto simp: returns_iff split: nat.split)

interpretation boot: frame_source "allocate_frame frame_of usable" "boot_ok frame_of usable"
    "boot_rest frame_of usable" fa_next for frame_of :: "addr \<Rightarrow> 'f run" and usable :: 'k
proof
  fix fa :: "'k BootInfoFrameAllocator"
  assume ok: "boot_ok frame_of usable fa" and n: "fa_next fa + 1 < 0x10000000000000000"
  have "tl (boot_rest frame_of usable fa) = drop (nat (fa_next fa + 1)) (usable_frames frame_of usable (memory_map fa))"
    using ok by (simp add: boot_rest_def boot_ok_def nat_add_distrib drop_Suc tl_drop)
  with ok n show "\<exists>fa'. allocate_frame frame_of usable fa
      = Val (case boot_rest frame_of usable fa of [] \<Rightarrow> None | f # _ \<Rightarrow> Some f, fa')
        \<and> boot_ok frame_of usable fa' \<and> boot_rest frame_of usable fa' = tl (boot_rest frame_of usable fa)
        \<and> fa_next fa' \<le> fa_next fa + 1"
    by (auto simp: allocate_frame_def nth_frame_eq usize_add_def boot_ok_def boot_rest_def usable_frames_def)
qed (simp add: boot_ok_def boot_rest_def)

subsection \<open>Distinct frames\<close>

text \<open>
  What the code relies on of its crates: \<^verbatim>\<open>PhysAddr::new\<close> accepts addresses below \<open>2^52\<close>, and addresses in
  different pages lie in different frames; the regions of the bootloader's map are made of whole
  pages and do not overlap.
\<close>

definition frames_ok :: "(addr \<Rightarrow> 'f run) \<Rightarrow> bool" where
  "frames_ok frame_of \<longleftrightarrow>
     (\<forall>a. 0 \<le> a \<and> a < 0x10000000000000 \<longrightarrow> returns (frame_of a))
     \<and> (\<forall>a b f. frame_of a = Val f \<and> frame_of b = Val f \<longrightarrow> a div 4096 = b div 4096)"

definition region_ok :: "'k MemoryRegion \<Rightarrow> bool" where
  "region_ok r \<longleftrightarrow> 0 \<le> start_addr r \<and> end_addr r \<le> 0x10000000000000 \<and> 4096 dvd start_addr r \<and> 4096 dvd end_addr r"

definition memory_map_ok :: "'k MemoryRegion list \<Rightarrow> bool" where
  "memory_map_ok mm \<longleftrightarrow> list_all region_ok mm
     \<and> sorted_wrt (\<lambda>r s. end_addr r \<le> start_addr s \<or> end_addr s \<le> start_addr r) mm"

lemma set_step_addrs: "set (step_addrs lo hi) = {a. lo \<le> a \<and> a < hi \<and> 4096 dvd (a - lo)}"
proof (induction lo hi rule: step_addrs.induct)
  case (1 lo hi)
  have "lo \<le> a \<and> 4096 dvd (a - lo) \<longleftrightarrow> a = lo \<or> (lo + 4096 \<le> a \<and> 4096 dvd (a - (lo + 4096)))" for a
  proof -
    have "4096 dvd (a - lo) \<longleftrightarrow> 4096 dvd (a - (lo + 4096))" using dvd_diff_left_iff [of 4096 4096 "a - lo"] by (simp add: algebra_simps)
    moreover have "lo + 4096 \<le> a" if "lo < a" "4096 dvd (a - lo)" using zdvd_imp_le [OF that(2)] that(1) by simp
    ultimately show ?thesis by force
  qed
  then have step: "lo \<le> a \<and> a < hi \<and> 4096 dvd (a - lo) \<longleftrightarrow> a = lo \<and> lo < hi \<or> (lo + 4096 \<le> a \<and> a < hi \<and> 4096 dvd (a - (lo + 4096)))"
    for a by metis
  show ?case
  proof (rule set_eqI)
    fix a
    have "a \<in> set (step_addrs lo hi) \<longleftrightarrow> a = lo \<and> lo < hi \<or> lo < hi \<and> a \<in> set (step_addrs (lo + 4096) hi)"
      by (subst step_addrs.simps) auto
    then show "a \<in> set (step_addrs lo hi) \<longleftrightarrow> a \<in> {a. lo \<le> a \<and> a < hi \<and> 4096 dvd (a - lo)}"
      unfolding mem_Collect_eq step [of a] using 1 by auto
  qed
qed

lemma distinct_step_addrs: "distinct (step_addrs lo hi)"
  by (induction lo hi rule: step_addrs.induct) (subst step_addrs.simps, auto simp: set_step_addrs)

lemma length_step_addrs: "length (step_addrs lo hi) = nat ((hi - lo + 4095) div 4096)"
proof (induction lo hi rule: step_addrs.induct)
  case (1 lo hi)
  show ?case
  proof (cases "lo < hi")
    case True
    have "(hi - lo + 4095) div 4096 = (hi - (lo + 4096) + 4095) div 4096 + 1" by simp
    moreover have "0 \<le> (hi - (lo + 4096) + 4095) div 4096" using True by simp
    ultimately show ?thesis using True 1 by (subst step_addrs.simps) (simp add: nat_add_distrib)
  next
    case False
    then have "(hi - lo + 4095) div 4096 \<le> 0" by simp
    with False show ?thesis by (subst step_addrs.simps) simp
  qed
qed

lemma usable_addrs_ok:
  assumes "memory_map_ok mm"
  shows "distinct (usable_addrs usable mm)"
    "\<forall>a \<in> set (usable_addrs usable mm). 0 \<le> a \<and> a < 0x10000000000000 \<and> 4096 dvd a"
proof -
  have "distinct (usable_addrs usable mm)
    \<and> (\<forall>a \<in> set (usable_addrs usable mm). 0 \<le> a \<and> a < 0x10000000000000 \<and> 4096 dvd a)"
    using assms
  proof (induction mm)
    case (Cons r mm)
    then have IH: "distinct (usable_addrs usable mm)"
        "\<forall>a \<in> set (usable_addrs usable mm). 0 \<le> a \<and> a < 0x10000000000000 \<and> 4096 dvd a"
      by (simp_all add: memory_map_ok_def)
    have r: "region_ok r" "\<forall>s \<in> set mm. end_addr r \<le> start_addr s \<or> end_addr s \<le> start_addr r"
      using Cons.prems by (simp_all add: memory_map_ok_def)
    then have "set (step_addrs (start_addr r) (end_addr r)) \<inter> set (usable_addrs usable mm) = {}"
      by (fastforce simp: usable_addrs_def set_step_addrs)
    moreover have "\<forall>a \<in> set (step_addrs (start_addr r) (end_addr r)). 0 \<le> a \<and> a < 0x10000000000000 \<and> 4096 dvd a"
      using r(1) by (auto simp: set_step_addrs region_ok_def dest: dvd_add [of 4096 "_ - start_addr r" "start_addr r"])
    ultimately show ?case using IH by (auto simp: usable_addrs_def distinct_step_addrs)
  qed (simp add: usable_addrs_def)
  then show "distinct (usable_addrs usable mm)"
    "\<forall>a \<in> set (usable_addrs usable mm). 0 \<le> a \<and> a < 0x10000000000000 \<and> 4096 dvd a" by blast+
qed

lemma frames_okD:
  assumes "frames_ok frame_of"
  shows "0 \<le> a \<Longrightarrow> a < 0x10000000000000 \<Longrightarrow> returns (frame_of a)"
    and "frame_of a = Val f \<Longrightarrow> frame_of b = Val f \<Longrightarrow> a div 4096 = b div 4096"
  using assms unfolding frames_ok_def by blast+

lemma boot_init_ok:
  assumes "frames_ok frame_of" "memory_map_ok mm"
  shows "boot_ok frame_of usable (boot_init mm)"
proof -
  have addr: "returns (frame_of a)" "4096 dvd a" if "a \<in> set (usable_addrs usable mm)" for a
    using usable_addrs_ok(2) [OF assms(2), THEN bspec, OF that] by (auto intro: frames_okD(1) [OF assms(1)])
  have "inj_on (\<lambda>a. run_the (frame_of a)) (set (usable_addrs usable mm))"
  proof (rule inj_onI)
    fix a b assume ab: "a \<in> set (usable_addrs usable mm)" "b \<in> set (usable_addrs usable mm)"
      "run_the (frame_of a) = run_the (frame_of b)"
    obtain f g where fg: "frame_of a = Val f" "frame_of b = Val g"
      using addr(1) [OF ab(1)] addr(1) [OF ab(2)] unfolding returns_iff by blast
    then have "frame_of b = Val f" using ab(3) by simp
    then have "a div 4096 = b div 4096" by (rule frames_okD(2) [OF assms(1) fg(1)])
    with addr(2) [OF ab(1)] addr(2) [OF ab(2)] show "a = b" by (metis dvd_div_eq_cancel)
  qed
  with addr(1) usable_addrs_ok(1) [OF assms(2)] show ?thesis
    by (simp add: boot_ok_def boot_init_def usable_frames_def distinct_map)
qed

lemma set_usable_addrs:
  assumes "memory_map_ok mm"
  shows "a \<in> set (usable_addrs usable mm) \<longleftrightarrow>
    4096 dvd a \<and> (\<exists>r \<in> set mm. region_type r = usable \<and> start_addr r \<le> a \<and> a < end_addr r)"
proof -
  have "4096 dvd (a - start_addr r) \<longleftrightarrow> 4096 dvd a" if "r \<in> set mm" for r
    using assms that dvd_diff_left_iff by (auto simp: memory_map_ok_def list_all_iff region_ok_def)
  then show ?thesis by (auto simp: usable_addrs_def set_step_addrs)
qed

lemma set_usable_frames:
  assumes "frames_ok frame_of" "memory_map_ok mm"
  shows "set (usable_frames frame_of usable mm) =
    {f. \<exists>a. \<exists>r \<in> set mm. region_type r = usable \<and> start_addr r \<le> a \<and> a < end_addr r \<and> 4096 dvd a \<and> frame_of a = Val f}"
    (is "?L = ?R")
proof (rule set_eqI)
  fix f
  have r: "returns (frame_of a)" if "a \<in> set (usable_addrs usable mm)" for a
    using usable_addrs_ok(2) [OF assms(2), THEN bspec, OF that] by (auto intro: frames_okD(1) [OF assms(1)])
  have "f \<in> ?L \<longleftrightarrow> (\<exists>a \<in> set (usable_addrs usable mm). frame_of a = Val f)"
  proof
    assume "f \<in> ?L"
    then obtain a where a: "a \<in> set (usable_addrs usable mm)" "f = run_the (frame_of a)" by (auto simp: usable_frames_def)
    with r [OF a(1)] show "\<exists>a \<in> set (usable_addrs usable mm). frame_of a = Val f" by (auto simp: returns_iff)
  next
    assume "\<exists>a \<in> set (usable_addrs usable mm). frame_of a = Val f"
    then show "f \<in> ?L" by (force simp: usable_frames_def)
  qed
  then show "f \<in> ?L \<longleftrightarrow> f \<in> ?R" unfolding Bex_def set_usable_addrs [OF assms(2)] by blast
qed

text \<open>
  C18: The frame allocator hands out the frames of the usable regions of the memory map, each exactly
  once, and then answers \<^verbatim>\<open>None\<close>: for some arrangement without repetition of exactly these frames, any
  number of requests that a \<^verbatim>\<open>usize\<close> can count is answered with its first elements, in order and
  without a panic, and with \<^verbatim>\<open>None\<close> once they are used up.
\<close>

theorem frames_once_each:
  assumes "frames_ok frame_of" "memory_map_ok mm"
  shows "\<exists>fs. distinct fs
    \<and> set fs = {f. \<exists>a. \<exists>r \<in> set mm. region_type r = usable \<and> start_addr r \<le> a \<and> a < end_addr r \<and> 4096 dvd a \<and> frame_of a = Val f}
    \<and> (\<forall>n. int n < 0x10000000000000000 \<longrightarrow>
        (\<exists>fa. draw (allocate_frame frame_of usable) n (boot_init mm)
          = Val (map Some (take n fs) @ replicate (n - length fs) None, fa)))"
proof (intro exI [of _ "usable_frames frame_of usable mm"] conjI allI impI)
  have rest: "boot_rest frame_of usable (boot_init mm) = usable_frames frame_of usable mm"
    by (simp add: boot_rest_def boot_init_def)
  note ok = boot_init_ok [OF assms, of usable]
  show "distinct (usable_frames frame_of usable mm)" using boot.rest_distinct [OF ok] rest by simp
  show "set (usable_frames frame_of usable mm) =
    {f. \<exists>a. \<exists>r \<in> set mm. region_type r = usable \<and> start_addr r \<le> a \<and> a < end_addr r \<and> 4096 dvd a \<and> frame_of a = Val f}"
    by (rule set_usable_frames [OF assms])
  fix n assume "int n < 0x10000000000000000"
  then show "\<exists>fa. draw (allocate_frame frame_of usable) n (boot_init mm)
      = Val (map Some (take n (usable_frames frame_of usable mm))
          @ replicate (n - length (usable_frames frame_of usable mm)) None, fa)"
    using boot.draw_answers [OF ok, of n] rest by (auto simp: boot_init_def)
qed

text \<open>Frames counted by their number, from addresses of at most 52 bits.\<close>

definition phys_frame :: "addr \<Rightarrow> addr run" where
  "phys_frame a = (if 0 \<le> a \<and> a < 0x10000000000000 then Val (a div 4096) else Panic (ExplicitPanic ''PhysAddr''))"

lemma phys_frame_ok: "frames_ok phys_frame"
  by (auto simp: frames_ok_def phys_frame_def split: if_splits)

theorem frames_once_each_witness:
  "\<exists>fs :: addr list. distinct fs \<and> set fs = {0, 1, 8} \<and> (\<exists>fa. draw (allocate_frame phys_frame True) 4
      (boot_init [\<lparr>region_type = True, start_addr = 0, end_addr = 8192\<rparr>, \<lparr>region_type = False, start_addr = 8192, end_addr = 12288\<rparr>,
         \<lparr>region_type = True, start_addr = 32768, end_addr = 36864\<rparr>])
    = Val (map Some (take 4 fs) @ replicate (4 - length fs) None, fa))"
proof -
  define mm where "mm = [\<lparr>region_type = True, start_addr = 0, end_addr = 8192\<rparr>, \<lparr>region_type = False, start_addr = 8192, end_addr = 12288\<rparr>,
         \<lparr>region_type = True, start_addr = 32768, end_addr = 36864\<rparr>]"
  have mm: "memory_map_ok mm" by (simp add: mm_def memory_map_ok_def region_ok_def)
  have pages: "4096 dvd a \<and> (0 \<le> a \<and> a < 8192 \<or> 32768 \<le> a \<and> a < 36864) \<longleftrightarrow> a = 0 \<or> a = 4096 \<or> a = 32768" for a :: addr
    by (auto elim!: dvdE)
  have "(\<exists>r \<in> set mm. region_type r = True \<and> start_addr r \<le> a \<and> a < end_addr r \<and> 4096 dvd a \<and> phys_frame a = Val f)
    \<longleftrightarrow> (4096 dvd a \<and> (0 \<le> a \<and> a < 8192 \<or> 32768 \<le> a \<and> a < 36864)) \<and> phys_frame a = Val f" for a f
    by (auto simp: mm_def)
  then have S: "{f. \<exists>a. \<exists>r \<in> set mm. region_type r = True \<and> start_addr r \<le> a \<and> a < end_addr r \<and> 4096 dvd a \<and> phys_frame a = Val f} = {0, 1, 8}"
    unfolding pages by (auto simp: phys_frame_def)
  obtain fs where "distinct fs" "set fs = {0, 1, 8}" "\<forall>n. int n < 0x10000000000000000 \<longrightarrow>
        (\<exists>fa. draw (allocate_frame phys_frame True) n (boot_init mm)
          = Val (map Some (take n fs) @ replicate (n - length fs) None, fa))"
    using frames_once_each [OF phys_frame_ok mm, of True] unfolding S by blast
  moreover from this(3) have "\<exists>fa. draw (allocate_frame phys_frame True) 4 (boot_init mm)
          = Val (map Some (take 4 fs) @ replicate (4 - length fs) None, fa)" by (rule allE [of _ 4]) simp
  ultimately show ?thesis unfolding mm_def by blast
qed

end
