(* ===== verification/Heap_Setup.thy ===== *)
theory Heap_Setup
  imports Slab_Properties Memory
begin

unbundle bit_operations_syntax

text \<open>
  Setting up the heap, \<^verbatim>\<open>init_heap\<close> of \<^verbatim>\<open>allocator.rs\<close>: a frame for every page of the heap, and then the global
  allocator.  The mapper of the \<^verbatim>\<open>x86_64\<close> crate is a parameter; \<open>pages_ok\<close> and \<open>mapper_ok\<close> state what its
  documentation promises.  The frame allocator is used through \<open>frame_source\<close>.  The properties compose the frames of
  \<open>Memory\<close>, the mapping loop and the slab allocator.
\<close>

section \<open>Operations\<close>

definition HEAP_START :: addr where "HEAP_START = 0x444444440000"

definition HEAP_SIZE :: addr where "HEAP_SIZE = 40 * 1024 * 1024"

text \<open>The loop over the pages: a frame for each, and the first error ends it.\<close>

primrec map_pages :: "('p, 'f, 'm, 'fa, 'e) paging \<Rightarrow> ('fa \<Rightarrow> ('f option \<times> 'fa) run) \<Rightarrow> 'p list \<Rightarrow> 'm \<Rightarrow> 'fa
    \<Rightarrow> (('e + unit) \<times> 'm \<times> 'fa) run" where
  "map_pages P alloc [] mapper fa = Val (Inr (), mapper, fa)"
| "map_pages P alloc (page # pages) mapper fa =
     rbind (alloc fa) (\<lambda>(frame, fa).
     case frame of
       None \<Rightarrow> Val (Inl (frame_allocation_failed P), mapper, fa)
     | Some frame \<Rightarrow>
         let flags = flag_present P OR flag_writable P in
         rbind (map_to P mapper fa page frame flags) (\<lambda>(r, mapper, fa).
         case r of
           Inl e \<Rightarrow> Val (Inl e, mapper, fa)
         | Inr _ \<Rightarrow> map_pages P alloc pages mapper fa))"

definition heap_pages :: "virt_ops \<Rightarrow> ('p, 'f, 'm, 'fa, 'e) paging \<Rightarrow> 'p list run" where
  "heap_pages V P =
     rbind (va_new V HEAP_START) (\<lambda>heap_start.
     rbind (va_add V heap_start HEAP_SIZE) (\<lambda>e.
     rbind (va_sub P e 1) (\<lambda>heap_end.
     Val (range_inclusive P (page_of P heap_start) (page_of P heap_end)))))"

text \<open>\<open>allocator\<close> is the static \<^verbatim>\<open>ALLOCATOR\<close>.\<close>

definition init_heap :: "virt_ops \<Rightarrow> ('p, 'f, 'm, 'fa, 'e) paging \<Rightarrow> ('fa \<Rightarrow> ('f option \<times> 'fa) run) \<Rightarrow> 'm \<Rightarrow> 'fa
    \<Rightarrow> SlabAllocator \<Rightarrow> (('e + unit) \<times> 'm \<times> 'fa \<times> SlabAllocator) run" where
  "init_heap V P alloc mapper fa allocator =
     rbind (heap_pages V P) (\<lambda>page_range.
     rbind (map_pages P alloc page_range mapper fa) (\<lambda>(r, mapper, fa).
     case r of
       Inl e \<Rightarrow> Val (Inl e, mapper, fa, allocator)
     | Inr _ \<Rightarrow>
         rbind (slab_init V allocator HEAP_START HEAP_SIZE) (\<lambda>allocator.
         Val (Inr (), mapper, fa, allocator))))"

section \<open>What the mapper promises\<close>

text \<open>
  Four levels of page tables of 512 entries: besides the root, the way to an address leads through one
  table of each lower level.
\<close>

definition table_path :: "addr \<Rightarrow> (nat \<times> addr) set" where
  "table_path a = {(1, a div 0x200000), (2, a div 0x40000000), (3, a div 0x8000000000)}"

text \<open>
  Addresses and pages: an inclusive range holds the pages of its addresses in order, and pages are the
  4096-byte pieces of the address space.
\<close>

definition pages_ok :: "('p, 'f, 'm, 'fa, 'e) paging \<Rightarrow> ('p \<Rightarrow> (nat \<times> addr) set) \<Rightarrow> bool" where
  "pages_ok P path \<longleftrightarrow>
     (\<forall>a b. 0 \<le> b \<and> b \<le> a \<and> a < 0x800000000000 \<longrightarrow> va_sub P a b = Val (a - b))
     \<and> (\<forall>a b. 0 \<le> a \<and> a \<le> b \<and> b < 0x800000000000 \<longrightarrow>
          range_inclusive P (page_of P a) (page_of P b) = map (page_of P) (step_addrs (a - a mod 4096) (b + 1)))
     \<and> (\<forall>a b. 0 \<le> a \<and> 0 \<le> b \<and> a < 0x800000000000 \<and> b < 0x800000000000 \<longrightarrow>
          (page_of P a = page_of P b \<longleftrightarrow> a div 4096 = b div 4096))
     \<and> (\<forall>a. 0 \<le> a \<and> a < 0x800000000000 \<longrightarrow> path (page_of P a) = table_path a)"

text \<open>
  \<^verbatim>\<open>map_to\<close>: with \<open>tr\<close> the mapping of pages to frames and flags, \<open>tables\<close> the page tables that exist, \<open>huge\<close>
  the pages that lie in a huge page and \<open>in_use\<close> the frames that are mapped or hold tables.  The frame
  to map and the frames of the allocator have to be unused and different.  It asks the frame
  allocator at most for the missing tables.  A success adds the one mapping and the tables on its way;
  an error changes no mapping and means that the page is mapped, lies in a huge page, or that frames
  ran out.
\<close>

definition mapped :: "('m \<Rightarrow> 'p \<Rightarrow> ('f \<times> 64 word) option) \<Rightarrow> ('m \<Rightarrow> (nat \<times> addr) set) \<Rightarrow> ('m \<Rightarrow> 'p set)
    \<Rightarrow> ('p \<Rightarrow> (nat \<times> addr) set) \<Rightarrow> 'm \<Rightarrow> 'p \<Rightarrow> 'f \<times> 64 word \<Rightarrow> 'm \<Rightarrow> bool" where
  "mapped tr tables huge path m p f m' \<longleftrightarrow>
     tr m p = None \<and> tr m' = (tr m)(p \<mapsto> f) \<and> tables m' = tables m \<union> path p \<and> huge m' = huge m"

definition mapper_ok :: "('p, 'f, 'm, 'fa, 'e) paging \<Rightarrow> ('fa \<Rightarrow> bool) \<Rightarrow> ('fa \<Rightarrow> 'f list) \<Rightarrow> ('fa \<Rightarrow> int)
    \<Rightarrow> ('m \<Rightarrow> 'p \<Rightarrow> ('f \<times> 64 word) option) \<Rightarrow> ('m \<Rightarrow> (nat \<times> addr) set) \<Rightarrow> ('m \<Rightarrow> 'p set)
    \<Rightarrow> ('m \<Rightarrow> 'f set) \<Rightarrow> ('p \<Rightarrow> (nat \<times> addr) set) \<Rightarrow> bool" where
  "mapper_ok P ok rest asked tr tables huge in_use path \<longleftrightarrow>
     (\<forall>m fa p f flags. ok fa \<and> asked fa + 3 < 0x10000000000000000
         \<and> f \<notin> in_use m \<and> f \<notin> set (rest fa) \<and> set (rest fa) \<inter> in_use m = {} \<longrightarrow>
       (\<exists>r m' fa' k. map_to P m fa p f flags = Val (r, m', fa')
         \<and> k \<le> card (path p - tables m) \<and> ok fa' \<and> rest fa' = drop k (rest fa) \<and> asked fa' \<le> asked fa + int k
         \<and> (case r of
              Inr _ \<Rightarrow> mapped tr tables huge path m p (f, flags) m'
                \<and> in_use m' \<subseteq> insert f (in_use m \<union> set (take k (rest fa)))
            | Inl _ \<Rightarrow> tr m' = tr m \<and> (tr m p \<noteq> None \<or> p \<in> huge m \<or> length (rest fa) < card (path p - tables m)))))"

section \<open>The loop\<close>

text \<open>The mappings the loop leaves: each page of the list has a frame of its own.\<close>

definition maps_to :: "('p \<Rightarrow> ('f \<times> 'w) option) \<Rightarrow> 'p list \<Rightarrow> 'f list \<Rightarrow> 'w \<Rightarrow> ('p \<Rightarrow> ('f \<times> 'w) option)" where
  "maps_to t ps fs flags = t(ps [\<mapsto>] map (\<lambda>f. (f, flags)) fs)"

context frame_source
begin

lemma map_to_answers:
  assumes "mapper_ok P ok rest asked tr tables huge in_use path" "ok fa" "asked fa + 3 < 0x10000000000000000"
    "f \<notin> in_use m" "f \<notin> set (rest fa)" "set (rest fa) \<inter> in_use m = {}"
  obtains (mapped) m' fa' k where "map_to P m fa p f flags = Val (Inr (), m', fa')" "k \<le> card (path p - tables m)"
      "ok fa'" "rest fa' = drop k (rest fa)" "asked fa' \<le> asked fa + int k"
      "mapped tr tables huge path m p (f, flags) m'" "in_use m' \<subseteq> insert f (in_use m \<union> set (take k (rest fa)))"
    | (failed) e m' fa' where "map_to P m fa p f flags = Val (Inl e, m', fa')" "tr m' = tr m"
      "tr m p \<noteq> None \<or> p \<in> huge m \<or> length (rest fa) < card (path p - tables m)"
proof -
  obtain r m' fa' k where a: "map_to P m fa p f flags = Val (r, m', fa')" "k \<le> card (path p - tables m)" "ok fa'"
      "rest fa' = drop k (rest fa)" "asked fa' \<le> asked fa + int k"
    and r: "case r of Inr _ \<Rightarrow> mapped tr tables huge path m p (f, flags) m' \<and> in_use m' \<subseteq> insert f (in_use m \<union> set (take k (rest fa)))
      | Inl _ \<Rightarrow> tr m' = tr m \<and> (tr m p \<noteq> None \<or> p \<in> huge m \<or> length (rest fa) < card (path p - tables m))"
    using assms(1) [unfolded mapper_ok_def, rule_format,
        OF conjI [OF assms(2) conjI [OF assms(3) conjI [OF assms(4) conjI [OF assms(5,6)]]]], of p flags]
    by (elim exE conjE)
  show thesis
  proof (cases r)
    case (Inl e)
    with a(1) r show thesis by (intro failed [of e m' fa']) simp_all
  next
    case (Inr u)
    then have "mapped tr tables huge path m p (f, flags) m'" "in_use m' \<subseteq> insert f (in_use m \<union> set (take k (rest fa)))"
      using r by auto
    with a Inr show thesis by (intro mapped) simp_all
  qed
qed

text \<open>With a frame for every page and every missing table, the loop maps them all.\<close>

lemma map_pages_all:
  assumes "mapper_ok P ok rest asked tr tables huge in_use path"
    and "\<forall>p \<in> T. path p \<subseteq> A \<and> card (path p) \<le> 3" "finite A"
    and "ok fa" "set ps \<subseteq> T" "distinct ps" "\<forall>p \<in> set ps. tr m p = None \<and> p \<notin> huge m"
    and "length ps + card (A - tables m) \<le> length (rest fa)"
    and "asked fa + 4 * int (length ps) < 0x10000000000000000" "set (rest fa) \<inter> in_use m = {}"
  shows "\<exists>m' fa' fs. map_pages P alloc ps m fa = Val (Inr (), m', fa') \<and> length fs = length ps
    \<and> distinct fs \<and> set fs \<subseteq> set (rest fa)
    \<and> tr m' = maps_to (tr m) ps fs (flag_present P OR flag_writable P)"
  using assms(4-)
proof (induction ps arbitrary: m fa)
  case Nil
  then show ?case by (auto simp: maps_to_def)
next
  case (Cons p ps)
  let ?fl = "flag_present P OR flag_writable P"
  have p: "path p \<subseteq> A" "card (path p) \<le> 3" using assms(2) Cons.prems(2) by auto
  obtain f fr where rest: "rest fa = f # fr" using Cons.prems(5) by (cases "rest fa") auto
  obtain fa1 where 1: "alloc fa = Val (Some f, fa1)" "ok fa1" "rest fa1 = fr" "asked fa1 \<le> asked fa + 1"
    using alloc_answers [OF Cons.prems(1)] Cons.prems(6) rest by auto
  have fin: "finite (path p)" using p(1) assms(3) by (rule finite_subset)
  have missing: "card (A - tables m) = card (path p - tables m) + card (A - (tables m \<union> path p))"
  proof -
    have "A - tables m = (path p - tables m) \<union> (A - (tables m \<union> path p))" using p(1) by blast
    then show ?thesis using fin assms(3) by (simp only:) (subst card_Un_disjoint, auto)
  qed
  have "card (path p - tables m) \<le> 3" using card_mono [OF fin, of "path p - tables m"] p(2) by auto
  have f: "f \<notin> set fr" using rest_distinct [OF Cons.prems(1)] rest by simp
  have "asked fa1 + 3 < 0x10000000000000000" "f \<notin> in_use m" "f \<notin> set (rest fa1)" "set (rest fa1) \<inter> in_use m = {}"
    using 1(3,4) Cons.prems(6,7) rest f by auto
  then show ?case
  proof (rule map_to_answers [OF assms(1) 1(2), of f m p ?fl])
    fix m' fa' k
    assume m: "map_to P m fa1 p f ?fl = Val (Inr (), m', fa')" "k \<le> card (path p - tables m)"
      "ok fa'" "rest fa' = drop k (rest fa1)" "asked fa' \<le> asked fa1 + int k"
      "mapped tr tables huge path m p (f, ?fl) m'" "in_use m' \<subseteq> insert f (in_use m \<union> set (take k (rest fa1)))"
    have "set (take k fr) \<inter> set (drop k fr) = {}"
      using rest_distinct [OF Cons.prems(1)] rest by (metis append_take_drop_id distinct.simps(2) distinct_append)
    then have "set (rest fa') \<inter> in_use m' = {}"
      using m(4,7) 1(3) f Cons.prems(7) rest by (auto dest: in_set_dropD)
    moreover have "length ps + card (A - tables m') \<le> length (rest fa')"
      using Cons.prems(5) m(2,4,6) missing rest 1(3) by (simp add: mapped_def)
    moreover have "asked fa' + 4 * int (length ps) < 0x10000000000000000"
      using Cons.prems(6) 1(4) m(2,5) \<open>card (path p - tables m) \<le> 3\<close> by simp
    moreover have "\<forall>q \<in> set ps. tr m' q = None \<and> q \<notin> huge m'"
      using Cons.prems(3,4) m(6) by (auto simp: mapped_def)
    ultimately obtain m2 fa2 fs where r: "map_pages P alloc ps m' fa' = Val (Inr (), m2, fa2)"
        "length fs = length ps" "distinct fs" "set fs \<subseteq> set (rest fa')" "tr m2 = maps_to (tr m') ps fs ?fl"
      using Cons.IH [OF m(3), of m'] Cons.prems(2,3) by auto
    have "set fs \<subseteq> set fr" using r(4) m(4) 1(3) by (auto dest: in_set_dropD)
    with f show ?thesis using 1(1) m(1,6) r rest
      by (intro exI [of _ m2] exI [of _ fa2] exI [of _ "f # fs"]) (auto simp: maps_to_def mapped_def)
  next
    fix e m' fa'
    assume "tr m p \<noteq> None \<or> p \<in> huge m \<or> length (rest fa1) < card (path p - tables m)"
    then show ?thesis using Cons.prems(4,5) missing rest 1(3) by simp
  qed
qed

text \<open>With fewer frames than pages it returns an error.\<close>

lemma map_pages_short:
  assumes "mapper_ok P ok rest asked tr tables huge in_use path" "\<forall>p \<in> T. finite (path p) \<and> card (path p) \<le> 3"
    and "ok fa" "set ps \<subseteq> T" "length (rest fa) < length ps" "asked fa + 4 * int (length ps) < 0x10000000000000000"
    "set (rest fa) \<inter> in_use m = {}"
  shows "\<exists>e m' fa'. map_pages P alloc ps m fa = Val (Inl e, m', fa')"
  using assms(3-)
proof (induction ps arbitrary: m fa)
  case (Cons p ps)
  let ?fl = "flag_present P OR flag_writable P"
  obtain fa1 where 1: "alloc fa = Val (case rest fa of [] \<Rightarrow> None | f # _ \<Rightarrow> Some f, fa1)" "ok fa1"
      "rest fa1 = tl (rest fa)" "asked fa1 \<le> asked fa + 1"
    using alloc_answers [OF Cons.prems(1)] Cons.prems(4) by auto
  show ?case
  proof (cases "rest fa")
    case (Cons f fr)
    have c: "card (path p - tables m) \<le> 3"
      using assms(2) Cons.prems(2) card_mono [of "path p" "path p - tables m"] by force
    have f: "f \<notin> set fr" "distinct fr" using rest_distinct [OF Cons.prems(1)] Cons by simp_all
    have "asked fa1 + 3 < 0x10000000000000000" "f \<notin> in_use m" "f \<notin> set (rest fa1)" "set (rest fa1) \<inter> in_use m = {}"
      using 1(3,4) Cons.prems(4,5) Cons f by auto
    then show ?thesis
    proof (rule map_to_answers [OF assms(1) 1(2), of f m p ?fl])
      fix m' fa' k
      assume m: "map_to P m fa1 p f ?fl = Val (Inr (), m', fa')" "k \<le> card (path p - tables m)"
        "ok fa'" "rest fa' = drop k (rest fa1)" "asked fa' \<le> asked fa1 + int k" "in_use m' \<subseteq> insert f (in_use m \<union> set (take k (rest fa1)))"
      have "set (take k fr) \<inter> set (drop k fr) = {}" using f(2) by (metis append_take_drop_id distinct_append)
      then have "set (rest fa') \<inter> in_use m' = {}" using m(4,6) 1(3) f Cons.prems(5) Cons by (auto dest: in_set_dropD)
      moreover have "length (rest fa') < length ps" using Cons.prems(3) m(4) 1(3) Cons by simp
      moreover have "asked fa' + 4 * int (length ps) < 0x10000000000000000" using Cons.prems(4) 1(4) m(2,5) c by simp
      ultimately show ?thesis using Cons.IH [OF m(3)] Cons.prems(2) 1(1) m(1) Cons by simp
    qed (use 1(1) Cons in simp)
  qed (use 1(1) in simp)
qed simp

end

section \<open>The heap\<close>

lemma pages_okD:
  assumes "pages_ok P path"
  shows "0 \<le> b \<Longrightarrow> b \<le> a \<Longrightarrow> a < 0x800000000000 \<Longrightarrow> va_sub P a b = Val (a - b)"
    and "0 \<le> a \<Longrightarrow> a \<le> b \<Longrightarrow> b < 0x800000000000 \<Longrightarrow>
      range_inclusive P (page_of P a) (page_of P b) = map (page_of P) (step_addrs (a - a mod 4096) (b + 1))"
    and "0 \<le> a \<Longrightarrow> 0 \<le> b \<Longrightarrow> a < 0x800000000000 \<Longrightarrow> b < 0x800000000000 \<Longrightarrow>
      page_of P a = page_of P b \<longleftrightarrow> a div 4096 = b div 4096"
    and "0 \<le> a \<Longrightarrow> a < 0x800000000000 \<Longrightarrow> path (page_of P a) = table_path a"
  using assms unfolding pages_ok_def by blast+

definition heap_addrs :: "addr list" where
  "heap_addrs = step_addrs HEAP_START (HEAP_START + HEAP_SIZE)"

lemma heap_pages_eq:
  assumes "virt_ok V" "pages_ok P path"
  shows "heap_pages V P = Val (map (page_of P) heap_addrs)"
proof -
  have "va_new V HEAP_START = Val HEAP_START" "va_add V HEAP_START HEAP_SIZE = Val (HEAP_START + HEAP_SIZE)"
    by (rule virt_okD(1,2) [OF assms(1)]; simp add: HEAP_START_def HEAP_SIZE_def)+
  moreover have "va_sub P (HEAP_START + HEAP_SIZE) 1 = Val (HEAP_START + HEAP_SIZE - 1)"
    by (rule pages_okD(1) [OF assms(2)]; simp add: HEAP_START_def HEAP_SIZE_def)
  moreover have "range_inclusive P (page_of P HEAP_START) (page_of P (HEAP_START + HEAP_SIZE - 1))
      = map (page_of P) (step_addrs (HEAP_START - HEAP_START mod 4096) (HEAP_START + HEAP_SIZE - 1 + 1))"
    by (rule pages_okD(2) [OF assms(2)]; simp add: HEAP_START_def HEAP_SIZE_def)
  moreover have "HEAP_START mod 4096 = 0" by (simp add: HEAP_START_def)
  ultimately show ?thesis by (simp add: heap_pages_def heap_addrs_def)
qed

lemma heap_addrs_bounds: "a \<in> set heap_addrs \<longleftrightarrow> 0x444444440000 \<le> a \<and> a < 0x444446c40000 \<and> 4096 dvd a"
  using dvd_diff_left_iff [of 4096 HEAP_START a] by (simp add: heap_addrs_def set_step_addrs HEAP_START_def HEAP_SIZE_def)

lemma length_heap_addrs: "length heap_addrs = 10240"
  by (simp add: heap_addrs_def length_step_addrs HEAP_SIZE_def)

definition in_heap :: "addr \<Rightarrow> bool" where
  "in_heap a \<longleftrightarrow> HEAP_START \<le> a \<and> a < HEAP_START + HEAP_SIZE"

text \<open>The heap needs at most 23 page tables besides the root.\<close>

definition heap_tables :: "(nat \<times> addr) set" where
  "heap_tables = {1} \<times> {0x2222222..0x2222236} \<union> {(2, 0x11111), (3, 0x88)}"

lemma card_heap_tables: "finite heap_tables" "card heap_tables \<le> 23"
proof -
  have "card ({1 :: nat} \<times> {0x2222222..0x2222236 :: int}) = 21" by (simp add: card_cartesian_product)
  moreover have "card {(2 :: nat, 0x11111 :: int), (3, 0x88)} \<le> 2" by (simp add: card_insert_if)
  ultimately show "card heap_tables \<le> 23"
    using card_Un_le [of "{1 :: nat} \<times> {0x2222222..0x2222236 :: int}" "{(2, 0x11111), (3, 0x88)}"] by (simp add: heap_tables_def)
qed (simp add: heap_tables_def)

lemma table_path_heap:
  assumes "a \<in> set heap_addrs"
  shows "table_path a \<subseteq> heap_tables"
proof -
  have a: "0x444444440000 \<le> a" "a < 0x444446c40000" using assms by (simp_all add: heap_addrs_bounds)
  have "0x444444440000 div d \<le> a div d" "a div d \<le> 0x444446c3ffff div d" if "0 < d" for d
    using a that by (auto intro: zdiv_mono1)
  from this [of "0x200000"] this [of "0x40000000"] this [of "0x8000000000"]
  have "0x2222222 \<le> a div 0x200000" "a div 0x200000 \<le> 0x2222236"
    "a div 0x40000000 = 0x11111" "a div 0x8000000000 = 0x88" by simp_all
  then show ?thesis by (simp add: table_path_def heap_tables_def)
qed

lemma card_table_path: "finite (table_path a)" "card (table_path a) \<le> 3"
  by (simp_all add: table_path_def card_insert_if)

lemma heap_pages_distinct:
  assumes "pages_ok P path"
  shows "distinct (map (page_of P) heap_addrs)"
proof -
  have "inj_on (page_of P) (set heap_addrs)"
  proof (rule inj_onI)
    fix a b assume ab: "a \<in> set heap_addrs" "b \<in> set heap_addrs" "page_of P a = page_of P b"
    then have "a div 4096 = b div 4096"
      using pages_okD(3) [OF assms, of a b] by (simp add: heap_addrs_bounds)
    with ab(1,2) show "a = b" by (metis dvd_div_eq_cancel heap_addrs_bounds)
  qed
  then show ?thesis by (simp add: distinct_map heap_addrs_def distinct_step_addrs)
qed

lemma heap_pages_mem:
  assumes "pages_ok P path"
  shows "p \<in> set (map (page_of P) heap_addrs) \<longleftrightarrow> (\<exists>a. in_heap a \<and> p = page_of P a)"
proof -
  have "\<exists>b \<in> set heap_addrs. page_of P a = page_of P b" if "in_heap a" for a
  proof
    let ?b = "a div 4096 * 4096"
    have "0x444444440 \<le> a div 4096" "?b \<le> a" using that zdiv_mono1 [of "0x444444440000" a 4096]
      by (simp_all add: HEAP_START_def in_heap_def mult.commute)
    then show "?b \<in> set heap_addrs" using that by (simp add: heap_addrs_bounds HEAP_START_def HEAP_SIZE_def in_heap_def)
    then show "page_of P a = page_of P ?b" using that pages_okD(3) [OF assms, of a ?b]
      by (simp add: heap_addrs_bounds HEAP_START_def HEAP_SIZE_def in_heap_def)
  qed
  moreover have "in_heap a" if "a \<in> set heap_addrs" for a
    using that by (simp add: heap_addrs_bounds HEAP_START_def HEAP_SIZE_def in_heap_def)
  ultimately show ?thesis by auto
qed

lemma map_upds_nth:
  "distinct ks \<Longrightarrow> length vs = length ks \<Longrightarrow> i < length ks \<Longrightarrow> (t(ks [\<mapsto>] vs)) (ks ! i) = Some (vs ! i)"
proof (induction ks arbitrary: vs t i)
  case (Cons k ks)
  then show ?case by (cases vs; cases i) (auto simp: map_upds_apply_nontin dest: nth_mem)
qed simp

text \<open>A list of distinct pages mapped to as many distinct frames.\<close>

lemma maps_to_props:
  assumes "length fs = length ps" "distinct ps" "distinct fs"
  shows "p \<in> set ps \<Longrightarrow> \<exists>f \<in> set fs. maps_to t ps fs w p = Some (f, w)"
    and "p \<in> set ps \<Longrightarrow> q \<in> set ps \<Longrightarrow> maps_to t ps fs w p = maps_to t ps fs w q \<Longrightarrow> p = q"
    and "p \<notin> set ps \<Longrightarrow> maps_to t ps fs w p = t p"
proof -
  have nth: "maps_to t ps fs w (ps ! i) = Some (fs ! i, w)" if "i < length ps" for i
    using that assms(1,2) by (simp add: maps_to_def map_upds_nth)
  show "\<exists>f \<in> set fs. maps_to t ps fs w p = Some (f, w)" if "p \<in> set ps"
    using that nth assms(1) by (auto simp: in_set_conv_nth)
  show "p = q" if "p \<in> set ps" "q \<in> set ps" "maps_to t ps fs w p = maps_to t ps fs w q"
    using that nth assms(1,3) by (auto simp: in_set_conv_nth nth_eq_iff_index_eq)
  show "maps_to t ps fs w p = t p" if "p \<notin> set ps" using that by (simp add: maps_to_def map_upds_apply_nontin)
qed

text \<open>The hypotheses on the crates, for the boot allocator.\<close>

definition crates_ok :: "virt_ops \<Rightarrow> ('p, 'f, 'm, 'k BootInfoFrameAllocator, 'e) paging \<Rightarrow> (addr \<Rightarrow> 'f run) \<Rightarrow> 'k
    \<Rightarrow> 'k MemoryRegion list \<Rightarrow> ('m \<Rightarrow> 'p \<Rightarrow> ('f \<times> 64 word) option) \<Rightarrow> ('m \<Rightarrow> 'p set) \<Rightarrow> ('m \<Rightarrow> 'f set) \<Rightarrow> bool" where
  "crates_ok V P frame_of usable mm tr huge in_use \<longleftrightarrow>
     virt_ok V \<and> frames_ok frame_of \<and> memory_map_ok mm
     \<and> (\<exists>path tables. pages_ok P path
         \<and> mapper_ok P (boot_ok frame_of usable) (boot_rest frame_of usable) fa_next tr tables huge in_use path)"

lemma boot_rest_init: "boot_rest frame_of usable (boot_init mm) = usable_frames frame_of usable mm"
  by (simp add: boot_rest_def boot_init_def)

lemma map_heap:
  assumes "crates_ok V P frame_of usable mm tr huge in_use" "10263 \<le> length (usable_addrs usable mm)"
    "\<forall>a. in_heap a \<longrightarrow> tr m (page_of P a) = None \<and> page_of P a \<notin> huge m"
    "set (usable_frames frame_of usable mm) \<inter> in_use m = {}"
  shows "\<exists>ps m' fa fs. heap_pages V P = Val ps
    \<and> map_pages P (allocate_frame frame_of usable) ps m (boot_init mm) = Val (Inr (), m', fa)
    \<and> (\<forall>p. p \<in> set ps \<longleftrightarrow> (\<exists>a. in_heap a \<and> p = page_of P a))
    \<and> length fs = length ps \<and> distinct ps \<and> distinct fs \<and> set fs \<subseteq> set (usable_frames frame_of usable mm)
    \<and> tr m' = maps_to (tr m) ps fs (flag_present P OR flag_writable P)"
proof -
  from assms(1) obtain path tables where c: "virt_ok V" "frames_ok frame_of" "memory_map_ok mm" "pages_ok P path"
    "mapper_ok P (boot_ok frame_of usable) (boot_rest frame_of usable) fa_next tr tables huge in_use path"
    unfolding crates_ok_def by blast
  let ?ps = "map (page_of P) heap_addrs"
  note mem = heap_pages_mem [OF c(4)]
  have path: "\<forall>p \<in> set ?ps. path p \<subseteq> heap_tables \<and> card (path p) \<le> 3"
  proof
    fix p assume p: "p \<in> set ?ps"
    from p obtain a where a: "a \<in> set heap_addrs" "p = page_of P a" by auto
    then have "path p = table_path a" using pages_okD(4) [OF c(4), of a] by (simp add: heap_addrs_bounds)
    with table_path_heap [OF a(1)] card_table_path show "path p \<subseteq> heap_tables \<and> card (path p) \<le> 3" by simp
  qed
  have "card (heap_tables - tables m) \<le> 23"
    using card_mono [of heap_tables "heap_tables - tables m"] card_heap_tables by auto
  then have len: "length ?ps + card (heap_tables - tables m) \<le> length (boot_rest frame_of usable (boot_init mm))"
    using assms(2) by (simp add: boot_rest_init usable_frames_def length_heap_addrs)
  have free: "\<forall>p \<in> set ?ps. tr m p = None \<and> p \<notin> huge m"
  proof
    fix p assume "p \<in> set ?ps"
    then obtain a where "in_heap a" "p = page_of P a" unfolding mem by (elim exE conjE)
    with assms(3) show "tr m p = None \<and> p \<notin> huge m" by simp
  qed
  have "fa_next (boot_init mm) + 4 * int (length ?ps) < 0x10000000000000000"
    by (simp add: boot_init_def length_heap_addrs)
  from boot.map_pages_all [OF c(5) path card_heap_tables(1) boot_init_ok [OF c(2,3)] subset_refl
      heap_pages_distinct [OF c(4)] free len this assms(4) [folded boot_rest_init]]
  obtain m' fa fs where r: "map_pages P (allocate_frame frame_of usable) ?ps m (boot_init mm) = Val (Inr (), m', fa)"
    "length fs = length ?ps" "distinct fs" "set fs \<subseteq> set (boot_rest frame_of usable (boot_init mm))"
    "tr m' = maps_to (tr m) ?ps fs (flag_present P OR flag_writable P)"
    by (elim exE conjE)
  show ?thesis
    by (intro exI [of _ ?ps] exI [of _ m'] exI [of _ fa] exI [of _ fs] conjI allI mem)
      (use r heap_pages_eq [OF c(1,4)] heap_pages_distinct [OF c(4)] in \<open>simp_all add: boot_rest_init\<close>)
qed

section \<open>A mapper\<close>

text \<open>
  A mapper that keeps the mapping and the set of its tables, to show that the hypotheses can hold.  Pages
  are counted by their number.
\<close>

record 'f pt_mapper =
  pt_map :: "addr \<Rightarrow> ('f \<times> 64 word) option"
  pt_tables :: "(nat \<times> addr) set"
  pt_used :: "'f set"

definition pt_path :: "addr \<Rightarrow> (nat \<times> addr) set" where
  "pt_path p = table_path (4096 * p)"

definition pt_map_to :: "('fa \<Rightarrow> ('f option \<times> 'fa) run) \<Rightarrow> 'f pt_mapper \<Rightarrow> 'fa \<Rightarrow> addr \<Rightarrow> 'f \<Rightarrow> 64 word
    \<Rightarrow> ((string + unit) \<times> 'f pt_mapper \<times> 'fa) run" where
  "pt_map_to alloc m fa p f flags =
     (if pt_map m p \<noteq> None then Val (Inl ''PageAlreadyMapped'', m, fa)
      else rbind (draw alloc (card (pt_path p - pt_tables m)) fa) (\<lambda>(fs, fa).
        if None \<in> set fs then Val (Inl ''FrameAllocationFailed'', m, fa)
        else Val (Inr (), \<lparr>pt_map = (pt_map m)(p \<mapsto> (f, flags)), pt_tables = pt_tables m \<union> pt_path p,
          pt_used = insert f (pt_used m \<union> {g. Some g \<in> set fs})\<rparr>, fa)))"

definition pt_paging :: "('fa \<Rightarrow> ('f option \<times> 'fa) run) \<Rightarrow> (addr, 'f, 'f pt_mapper, 'fa, string) paging" where
  "pt_paging alloc = \<lparr>va_sub = (\<lambda>a b. canonical (a - b)), page_of = (\<lambda>a. a div 4096), range_inclusive = (\<lambda>p q. [p..q]),
     flag_present = 1, flag_writable = 2, frame_allocation_failed = ''FrameAllocationFailed'', map_to = pt_map_to alloc\<rparr>"

context frame_source
begin

lemma pt_mapper_ok:
  assumes "map_to P = pt_map_to alloc"
  shows "mapper_ok P ok rest asked pt_map pt_tables (\<lambda>_. {}) pt_used pt_path"
  unfolding mapper_ok_def
proof (intro allI impI)
  fix m :: "'f pt_mapper" and fa p f flags
  assume a: "ok fa \<and> asked fa + 3 < 0x10000000000000000
    \<and> f \<notin> pt_used m \<and> f \<notin> set (rest fa) \<and> set (rest fa) \<inter> pt_used m = {}"
  let ?k = "card (pt_path p - pt_tables m)"
  have "?k \<le> 3" using card_table_path [of "4096 * p"] card_mono [of "pt_path p" "pt_path p - pt_tables m"]
    by (simp add: pt_path_def)
  then obtain fa' where d: "draw alloc ?k fa = Val (map Some (take ?k (rest fa)) @ replicate (?k - length (rest fa)) None, fa')"
      "ok fa'" "rest fa' = drop ?k (rest fa)" "asked fa' \<le> asked fa + int ?k"
    using draw_answers [of fa ?k] a by auto
  let ?post = "\<lambda>r m' fa' k. map_to P m fa p f flags = Val (r, m', fa') \<and> k \<le> ?k \<and> ok fa' \<and> rest fa' = drop k (rest fa)
    \<and> asked fa' \<le> asked fa + int k \<and> (case r of Inr _ \<Rightarrow> mapped pt_map pt_tables (\<lambda>_. {}) pt_path m p (f, flags) m'
        \<and> pt_used m' \<subseteq> insert f (pt_used m \<union> set (take k (rest fa)))
      | Inl _ \<Rightarrow> pt_map m' = pt_map m \<and> (pt_map m p \<noteq> None \<or> p \<in> {} \<or> length (rest fa) < ?k))"
  show "\<exists>r m' fa' k. ?post r m' fa' k"
  proof (cases "pt_map m p = None")
    case False
    then have "?post (Inl ''PageAlreadyMapped'') m fa 0" using a by (simp add: assms pt_map_to_def)
    then show ?thesis by blast
  next
    case True
    show ?thesis
    proof (cases "length (rest fa) < ?k")
      case short: True
      then have "?post (Inl ''FrameAllocationFailed'') m fa' ?k" using True d by (simp add: assms pt_map_to_def)
      then show ?thesis by blast
    next
      case False
      then have "?post (Inr ()) \<lparr>pt_map = (pt_map m)(p \<mapsto> (f, flags)), pt_tables = pt_tables m \<union> pt_path p,
          pt_used = insert f (pt_used m \<union> set (take ?k (rest fa)))\<rparr> fa' ?k"
        using True d by (auto simp: assms pt_map_to_def mapped_def)
      then show ?thesis by blast
    qed
  qed
qed

end

lemma step_pages:
  "4096 dvd lo \<Longrightarrow> map (\<lambda>a. a div 4096) (step_addrs lo (b + 1)) = [lo div 4096..b div 4096]"
proof (induction lo "b + 1" rule: step_addrs.induct)
  case (1 lo)
  from 1(2) obtain k where k: "lo = 4096 * k" by (elim dvdE)
  show ?case
  proof (cases "lo < b + 1")
    case True
    then have "k \<le> b div 4096" using k zdiv_mono1 [of lo b 4096] by simp
    moreover have "map (\<lambda>a. a div 4096) (step_addrs (lo + 4096) (b + 1)) = [(lo + 4096) div 4096..b div 4096]"
      using 1(1) True 1(2) by simp
    ultimately show ?thesis using True k by (subst step_addrs.simps) (simp add: upto_rec1)
  next
    case False
    then have "b div 4096 < k" using k by (simp add: div_less_iff_less_mult mult.commute)
    with False k show ?thesis by (subst step_addrs.simps) simp
  qed
qed

lemma pt_pages_ok: "pages_ok (pt_paging alloc) pt_path"
proof -
  have "map (\<lambda>a. a div 4096) (step_addrs (a - a mod 4096) (b + 1)) = [a div 4096..b div 4096]" for a b :: addr
    using step_pages [of "a - a mod 4096" b] by (simp add: minus_mod_eq_mult_div)
  moreover have "pt_path (a div 4096) = table_path a" for a
  proof -
    have "4096 * (a div 4096) div (4096 * d) = a div (4096 * d)" if "0 \<le> d" for d
      using that by (subst div_mult_mult1) (simp_all add: zdiv_zmult2_eq)
    from this [of 512] this [of 262144] this [of 134217728] show ?thesis by (simp add: pt_path_def table_path_def)
  qed
  ultimately show ?thesis by (simp add: pages_ok_def pt_paging_def canonical_def)
qed

lemma pt_crates_ok:
  "memory_map_ok mm \<Longrightarrow> crates_ok canonical_ops (pt_paging (allocate_frame phys_frame usable)) phys_frame usable mm pt_map (\<lambda>_. {}) pt_used"
  unfolding crates_ok_def
  by (intro conjI exI [of _ pt_path] exI [of _ pt_tables] canonical_ops_ok phys_frame_ok pt_pages_ok boot.pt_mapper_ok)
    (simp_all add: pt_paging_def)

section \<open>Setting up the heap\<close>

text \<open>
  C19: Setting up the heap, with the crates as documented and the usable frames used by nobody.  If the
  memory map has the 10240 frames of the heap and 23 for page tables, and no page of the heap is mapped
  yet, \<^verbatim>\<open>init_heap\<close> returns \<^verbatim>\<open>Ok\<close>.  Then every address of the heap is mapped, writable, to a usable
  frame, different pages to different frames; no other page is changed; and the global allocator
  serves every history of requests with served layouts (\<open>slab_layout_ok\<close>: a power of two up to 2048
  bytes aligned to at most 8, or more than 2048 bytes aligned to at most a page) that fits the heap,
  without a panic and whatever its clients write into their blocks, with blocks that lie in the mapped
  heap, aligned and pairwise disjoint.
\<close>

theorem init_heap_ready:
  assumes "crates_ok V P frame_of usable mm tr huge in_use" "10263 \<le> length (usable_addrs usable mm)"
    "\<forall>a. in_heap a \<longrightarrow> tr m (page_of P a) = None \<and> page_of P a \<notin> huge m"
    "set (usable_frames frame_of usable mm) \<inter> in_use m = {}" "keeps_to_blocks wr"
    "list_all (op_ok slab_layout_ok) xs" "sum_list (map op_bytes xs) \<le> HEAP_SIZE"
  shows "\<exists>m' fa s s' L.
    init_heap V P (allocate_frame frame_of usable) m (boot_init mm) (slab_new mem) = Val (Inr (), m', fa, s)
    \<and> (\<forall>a. in_heap a \<longrightarrow>
        (\<exists>f \<in> set (usable_frames frame_of usable mm). tr m' (page_of P a) = Some (f, flag_present P OR flag_writable P)))
    \<and> (\<forall>a b. in_heap a \<and> in_heap b
        \<and> tr m' (page_of P a) = tr m' (page_of P b) \<longrightarrow> page_of P a = page_of P b)
    \<and> (\<forall>p. (\<forall>a. in_heap a \<longrightarrow> p \<noteq> page_of P a) \<longrightarrow> tr m' p = tr m p)
    \<and> client_ops (slab_alloc V) (slab_dealloc V) wr s {} xs = Val (s', L) \<and> blocks_ok HEAP_START (HEAP_START + HEAP_SIZE) L"
proof -
  obtain ps m' fa fs where h: "heap_pages V P = Val ps"
      "map_pages P (allocate_frame frame_of usable) ps m (boot_init mm) = Val (Inr (), m', fa)"
    and mem: "\<And>p. p \<in> set ps \<longleftrightarrow> (\<exists>a. in_heap a \<and> p = page_of P a)"
    and fs: "length fs = length ps" "distinct ps" "distinct fs" "set fs \<subseteq> set (usable_frames frame_of usable mm)"
    and tr: "tr m' = maps_to (tr m) ps fs (flag_present P OR flag_writable P)"
    using map_heap [OF assms(1-4)] by (elim exE conjE) (rule that, simp_all)
  have page: "page_of P a \<in> set ps" if "in_heap a" for a
    unfolding mem using that by (intro exI [of _ a]) simp
  have v: "virt_ok V" using assms(1) by (simp add: crates_ok_def)
  obtain s where s: "slab_init V (slab_new mem) HEAP_START HEAP_SIZE = Val s" "slab_inv V HEAP_START (HEAP_START + HEAP_SIZE) s {}"
      "page_alloc s = Some \<lparr>pa_next = HEAP_START, pa_end = HEAP_START + HEAP_SIZE\<rparr>"
    by (rule slab_init_inv [OF v, of HEAP_START HEAP_SIZE mem]) (simp_all add: HEAP_START_def HEAP_SIZE_def in_heap_def)
  have "pa_next \<lparr>pa_next = HEAP_START, pa_end = HEAP_START + HEAP_SIZE\<rparr> + sum_list (map op_bytes xs) \<le> HEAP_START + HEAP_SIZE"
    using assms(7) by simp
  from slab_client_ops [OF s(2) assms(6) s(3) this assms(5)] obtain s' L where
    r: "client_ops (slab_alloc V) (slab_dealloc V) wr s {} xs = Val (s', L)" "slab_inv V HEAP_START (HEAP_START + HEAP_SIZE) s' L"
    by blast
  show ?thesis
  proof (rule exI [of _ m'], rule exI [of _ fa], rule exI [of _ s], rule exI [of _ s'], rule exI [of _ L], intro conjI allI impI)
    show "init_heap V P (allocate_frame frame_of usable) m (boot_init mm) (slab_new mem) = Val (Inr (), m', fa, s)"
      using h s(1) by (simp add: init_heap_def)
    show "\<exists>f \<in> set (usable_frames frame_of usable mm). tr m' (page_of P a) = Some (f, flag_present P OR flag_writable P)"
      if "in_heap a" for a
      using maps_to_props(1) [OF fs(1-3) page, of a "tr m"] that fs(4) unfolding tr by blast
    show "page_of P a = page_of P b"
      if "in_heap a \<and> in_heap b
        \<and> tr m' (page_of P a) = tr m' (page_of P b)" for a b
      by (rule maps_to_props(2) [OF fs(1-3) page page, where t = "tr m" and w = "flag_present P OR flag_writable P"]) (use that in \<open>simp_all add: tr\<close>)
    show "tr m' p = tr m p" if "\<forall>a. in_heap a \<longrightarrow> p \<noteq> page_of P a" for p
      unfolding tr by (rule maps_to_props(3) [OF fs(1-3)]) (use that in \<open>simp add: mem\<close>)
    show "blocks_ok HEAP_START (HEAP_START + HEAP_SIZE) L" by (rule slab.blocks [OF r(2)])
  qed (rule r(1))
qed

theorem init_heap_ready_witness:
  "let mm = [\<lparr>region_type = True, start_addr = 0x100000, end_addr = 0x2917000\<rparr>];
       P = pt_paging (allocate_frame phys_frame True) in
   \<exists>m' fa s s' L. init_heap canonical_ops P (allocate_frame phys_frame True) \<lparr>pt_map = Map.empty, pt_tables = {}, pt_used = {}\<rparr> (boot_init mm)
       (slab_new zero_mem) = Val (Inr (), m', fa, s)
     \<and> (\<forall>a. in_heap a \<longrightarrow> pt_map m' (a div 4096) \<noteq> None)
     \<and> client_ops (slab_alloc canonical_ops) (slab_dealloc canonical_ops) (\<lambda>k. zero_blocks) s {}
         [Alloc \<lparr>lay_size = 8, lay_align = 8\<rparr>, Alloc \<lparr>lay_size = 5000, lay_align = 16\<rparr>] = Val (s', L)
     \<and> blocks_ok HEAP_START (HEAP_START + HEAP_SIZE) L"
proof -
  define mm where "mm = [\<lparr>region_type = True, start_addr = 0x100000, end_addr = 0x2917000\<rparr>]"
  define P where "P = pt_paging (allocate_frame phys_frame True :: bool BootInfoFrameAllocator \<Rightarrow> _)"
  let ?m = "\<lparr>pt_map = Map.empty, pt_tables = {}, pt_used = {}\<rparr>"
  let ?xs = "[Alloc \<lparr>lay_size = 8, lay_align = 8\<rparr>, Alloc \<lparr>lay_size = 5000, lay_align = 16\<rparr>]"
  have mm: "memory_map_ok mm" "10263 \<le> length (usable_addrs True mm)"
    by (simp_all add: mm_def memory_map_ok_def region_ok_def usable_addrs_def length_step_addrs)
  have c: "crates_ok canonical_ops P phys_frame True mm pt_map (\<lambda>_. {}) pt_used" unfolding P_def by (rule pt_crates_ok [OF mm(1)])
  have xs: "list_all (op_ok slab_layout_ok) ?xs" "sum_list (map op_bytes ?xs) \<le> HEAP_SIZE"
    by (simp_all add: op_ok_def slab_layout_ok_def layout_ok_def slab_sizes_def op_bytes_def upt_rec HEAP_SIZE_def)
  have m: "\<forall>a. in_heap a \<longrightarrow> pt_map ?m (page_of P a) = None \<and> page_of P a \<notin> {}"
    "set (usable_frames phys_frame True mm) \<inter> pt_used ?m = {}" by simp_all
  from init_heap_ready [OF c mm(2) m zero_blocks_keeps xs, of zero_mem]
  obtain m' fa s s' L where r: "init_heap canonical_ops P (allocate_frame phys_frame True) ?m (boot_init mm) (slab_new zero_mem) = Val (Inr (), m', fa, s)"
      "\<forall>a. in_heap a \<longrightarrow> (\<exists>f \<in> set (usable_frames phys_frame True mm). pt_map m' (page_of P a) = Some (f, flag_present P OR flag_writable P))"
      "client_ops (slab_alloc canonical_ops) (slab_dealloc canonical_ops) (\<lambda>k. zero_blocks) s {} ?xs = Val (s', L)" "blocks_ok HEAP_START (HEAP_START + HEAP_SIZE) L"
    by (elim exE conjE)
  have "pt_map m' (a div 4096) \<noteq> None" if "in_heap a" for a
    using r(2) that by (auto simp: P_def pt_paging_def)
  with r(1,3,4) show ?thesis unfolding mm_def P_def Let_def by blast
qed

text \<open>
  C20: With fewer usable frames than the heap has pages, \<^verbatim>\<open>init_heap\<close> returns an error without a panic and
  leaves the global allocator uninitialised.
\<close>

theorem init_heap_short_of_frames:
  assumes "crates_ok V P frame_of usable mm tr huge in_use" "length (usable_addrs usable mm) < 10240"
    "set (usable_frames frame_of usable mm) \<inter> in_use m = {}"
  shows "\<exists>e m' fa. init_heap V P (allocate_frame frame_of usable) m (boot_init mm) s = Val (Inl e, m', fa, s)"
proof -
  from assms(1) obtain path tables where c: "virt_ok V" "frames_ok frame_of" "memory_map_ok mm" "pages_ok P path"
    "mapper_ok P (boot_ok frame_of usable) (boot_rest frame_of usable) fa_next tr tables huge in_use path"
    unfolding crates_ok_def by blast
  let ?ps = "map (page_of P) heap_addrs"
  have path: "\<forall>p \<in> set ?ps. finite (path p) \<and> card (path p) \<le> 3"
    using pages_okD(4) [OF c(4)] card_table_path by (simp add: heap_addrs_bounds)
  have "length (boot_rest frame_of usable (boot_init mm)) < length ?ps" "fa_next (boot_init mm) + 4 * int (length ?ps) < 0x10000000000000000"
    using assms(2) by (simp_all add: boot_rest_init usable_frames_def length_heap_addrs boot_init_def boot_rest_def)
  from boot.map_pages_short [OF c(5) path boot_init_ok [OF c(2,3)] subset_refl this assms(3) [folded boot_rest_init]]
  obtain e m' fa where "map_pages P (allocate_frame frame_of usable) ?ps m (boot_init mm) = Val (Inl e, m', fa)"
    by (elim exE)
  with heap_pages_eq [OF c(1,4)] show ?thesis by (simp add: init_heap_def)
qed

theorem init_heap_short_of_frames_witness:
  "\<exists>e m' fa. init_heap canonical_ops (pt_paging (allocate_frame phys_frame True)) (allocate_frame phys_frame True)
      \<lparr>pt_map = Map.empty, pt_tables = {}, pt_used = {}\<rparr> (boot_init [\<lparr>region_type = True, start_addr = 0x100000, end_addr = 0x200000\<rparr>])
      (slab_new zero_mem) = Val (Inl e, m', fa, slab_new zero_mem)"
  by (rule init_heap_short_of_frames [OF pt_crates_ok])
    (simp_all add: memory_map_ok_def region_ok_def usable_addrs_def length_step_addrs)

end
