(* ===== verification/Spec2Isabelle.thy ===== *)
theory Spec2Isabelle
  imports Session Bump Fixed_Block Slab_Properties Interrupts Heap_Setup
begin

text \<open>
  A verification of a small x86-64 kernel written in Rust whose main part is a FAT32 file system in
  memory with a shell on top of it.  Path names below are under \<^verbatim>\<open>src/src\<close>.

  \<^bold>\<open>The program.\<close>  \<^verbatim>\<open>file_system.rs\<close> mounts a disk image held in a byte buffer and reads and changes it:
  boot sector, sectors and clusters, the file allocation table (FAT), directory entries with short
  and long names, paths, files.  \<^verbatim>\<open>file_system/interface.rs\<close> is a shell session with a current
  directory over a shared mounted volume.  \<^verbatim>\<open>allocator.rs\<close> maps a heap and hands it to the global
  allocator; \<^verbatim>\<open>allocator/\<close> holds four allocators, of which the slab allocator is the one in use.
  \<^verbatim>\<open>memory.rs\<close> hands out physical frames from the memory map of the boot loader.  \<^verbatim>\<open>vga_buffer.rs\<close> prints on
  the text screen.  The remaining files set up the processor and its devices.

  \<^bold>\<open>Conventions.\<close>  \<^verbatim>\<open>u8\<close>, \<^verbatim>\<open>u16\<close> and \<^verbatim>\<open>u32\<close> are words of that width.  A computation is a value of type
  \<open>'a run\<close>: it returns or panics.  Arithmetic is that of the \<^verbatim>\<open>dev\<close> profile, where overflow panics; \<^verbatim>\<open>usize\<close> is
  a natural number in the file system, where no sum comes near \<open>2^64\<close>, and an integer with the bound of
  \<open>2^64\<close> written out in the allocators.  A \<^verbatim>\<open>Result\<close> is a sum with the error on the left, and a method
  on \<^verbatim>\<open>&mut self\<close> returns the new state also when it fails, since the code keeps what it has written.
  Strings are their UTF-8 bytes.

  \<^bold>\<open>Theories.\<close>
  \<^item> \<open>Fat_Prelude\<close> (panics, checked arithmetic, slices, little-endian codecs) and \<open>Rust_Str\<close>
    (\<^verbatim>\<open>split\<close>, \<^verbatim>\<open>rfind\<close>, UTF-8, UTF-16, upper case) model what the sources use of the language and its
    library.  The upper-case table beyond ASCII is a parameter.
  \<^item> \<open>Keyed_Store\<close> is the locale of a store of cells read and written by key, with its laws and what
    follows for chains of cells.  It is interpreted on the FAT (\<open>Volume\<close>) and on the 32-byte slots of a
    directory (\<open>File_Ops\<close>).
  \<^item> \<open>Volume\<close>: \<^verbatim>\<open>Fat32FileSystem\<close>, \<^verbatim>\<open>new\<close>, \<^verbatim>\<open>read_sector\<close>, \<^verbatim>\<open>read_cluster\<close>, \<^verbatim>\<open>read_fat_entry\<close>, \<^verbatim>\<open>write_fat_entry\<close>,
    \<^verbatim>\<open>allocate_cluster\<close>.  Shown: when mounting returns and with what layout; a cluster read is exactly
    its bytes; a FAT write changes 28 bits of one entry; allocation takes the lowest free cluster,
    also one beyond the end of the disk when the volume is full and its FAT has room for it.
  \<^item> \<open>Dir_Entry\<close>: the on-disk entries, checksum, short and long names, \<^verbatim>\<open>list_directory_entries\<close>.  Shown:
    listing is total on valid clusters; short and long names round trip; listed names are UTF-8.
  \<^item> \<open>Paths\<close>: \<^verbatim>\<open>parse_path\<close>, \<^verbatim>\<open>find_parent_cluster\<close>, \<^verbatim>\<open>read_file\<close>.  The inductive path specification
    is refined by the loop.  The loop over a FAT chain is a partial function: \<open>None\<close> is a loop that does
    not end, and it ends exactly when the chain does.  Buffers are lists of any length: that a long read may
    exhaust the heap is not modelled.
  \<^item> \<open>File_Ops\<close>: \<^verbatim>\<open>create_file\<close>, \<^verbatim>\<open>mkdir\<close>, \<^verbatim>\<open>update_file_size\<close>, \<^verbatim>\<open>write_file\<close>.  \<open>File_Create\<close> and
    \<open>File_Write\<close> prove what they do to listings, paths and contents; \<open>Fs_Properties\<close> and \<open>Fs_Failures\<close> hold
    the resulting properties, with witnesses on a small volume: a file reads back as written, a created
    file or directory appears under its path and disturbs no other path, a write changes two ranges of
    the disk and no other byte, and what an error leaves behind.
  \<^item> \<open>Shell\<close>: \<^verbatim>\<open>ShellSession\<close> and its commands.  \<open>Session\<close> has an invariant of the volume that every covered
    command keeps, so that no sequence of commands panics or runs for ever; and paths that end in \<^verbatim>\<open>.\<close>,
    which name nothing.
  \<^item> \<open>Allocator\<close>: \<^verbatim>\<open>Layout\<close>, \<^verbatim>\<open>align_up\<close>, histories of requests and returns, and the contract of an
    allocator as the locales \<open>heap_safety\<close> (blocks stay aligned, inside the heap and apart) and
    \<open>heap_allocator\<close> (and no request panics).  \<open>Bump\<close>, \<open>Linked_List\<close> and \<open>Fixed_Block\<close> interpret the second;
    \<open>Fixed_Block\<close> does so over any fallback heap that meets the contract, since that heap is a crate, and
    the linked list is shown to be one.  The linked list panics on a valid layout whose size cannot be
    rounded up to the alignment of a node, and only then.  A null pointer is \<open>None\<close>: heaps that start at
    address 0 are not told apart.
  \<^item> \<open>Slab\<close>: the slab allocator with its memory as an explicit store, by field.  \<open>Slab_Rings\<close> (circular
    lists), \<open>Slab_Inv\<close> (the invariant, with a ghost map of page owners), \<open>Slab_Pages\<close>, \<open>Slab_Cache\<close>, \<open>Slab_Grow\<close>,
    \<open>Slab_Safe\<close> (every operation keeps it) and \<open>Slab_Clients\<close> (so does a client that writes into the blocks it
    holds, by the addresses of the fields) lead to \<open>Slab_Properties\<close>: histories whose pages fit the heap
    run without a panic and hand out good blocks, whatever the clients write into them.
    The hypothesis \<open>op_bytes\<close> counts the pages a request may take: at most a cache and a slab for a small one.
  \<^item> \<open>Memory\<close>: the frame allocators and the interface \<open>frame_source\<close>, of which both are instances.
  \<^item> \<open>Heap_Setup\<close>: \<^verbatim>\<open>init_heap\<close>.  With 10240 usable frames for the heap and 23 for page tables it maps every page of the
    heap to a frame of its own and leaves a global allocator that serves every history that fits; with
    fewer than 10240 it returns an error and leaves the allocator as it was.  The mapper is promised to work
    only for frames that nobody uses, as its documentation asks.
  \<^item> \<open>Vga_Buffer\<close>: the writer of the text screen refines the plain description of a terminal.
  \<^item> \<open>Interrupts\<close>: the timer, keyboard and breakpoint handlers over that writer, for any sequence of interrupts:
    none panics, each is acknowledged once, and what is typed is shown.

  \<^bold>\<open>Code of other crates\<close> is a parameter with its documented behaviour as a hypothesis: \<^verbatim>\<open>VirtAddr\<close>
  (\<open>virt_ok\<close>: an address in the lower half is kept, a sum beyond it sign-extended or refused), frames and the memory map (\<open>frames_ok\<close>, \<open>memory_map_ok\<close>), the fallback heap
  (\<open>block_fallback\<close>), the page-table mapper
  (\<open>pages_ok\<close>, \<open>mapper_ok\<close>), and the devices of \<open>Interrupts\<close>, of which only
  that their calls return is assumed.  The witnesses instantiate them.

  \<^bold>\<open>Bounds.\<close>  No model uses fuel.  The scan of \<^verbatim>\<open>allocate_cluster\<close> stops at cluster 50000 because the code
  does.  Loops whose end is not evident are partial functions.

  \<^bold>\<open>Not modelled.\<close>  \<^verbatim>\<open>gdt.rs\<close> and \<^verbatim>\<open>serial.rs\<close>: tables and port accesses made by crates, with no logic of
  their own.  \<^verbatim>\<open>memory::init\<close> and \<^verbatim>\<open>active_level_4_table\<close>: they read a processor register and cast the
  address to a page table.  The descriptor table of \<^verbatim>\<open>interrupts.rs\<close>, built and loaded by a crate, and its page-fault
  and double-fault handlers, which print and then halt or panic for good.  \<^verbatim>\<open>lib.rs\<close>: initialisation through the
  crates, the halt loop and the test runner.  \<^verbatim>\<open>main.rs\<close>: a fixed sequence of calls of the modelled parts on a
  disk image included as data; what each of its shell commands does is covered by \<open>Session\<close>.  Locks: every method of the allocators holds its lock
  throughout, and the shell takes the lock of the volume once per statement from a single thread, so that
  the state is passed from one statement to the next.  \<^verbatim>\<open>Debug\<close> output of structures and the
  formatting of \<^verbatim>\<open>core::fmt\<close> are the standard library's; printing is modelled from the pieces it passes on.
\<close>

end
